(* ===== verification/Prelude.thy ===== *)
theory Prelude
  imports Main "HOL-Library.List_Lexorder" "HOL-Library.Char_ord" "HOL-Library.Multiset"
    "HOL-Library.Word"
begin

text \<open>
  Shared vocabulary of the development: Go's integers, strings, dynamic values
  (\<open>any\<close>) and times as HOL types, the sorting loop that two packages write out by hand,
  and the generic list, map and separator lemmas the component theories use.

  \<^item> A Go \<open>string\<close> or \<open>[]byte\<close> is a \<open>string\<close> (a list of bytes); Go compares strings
    byte by byte, which is the lexicographic order of \<open>HOL-Library.List_Lexorder\<close>.
  \<^item> An \<open>int64\<close> is an \<open>int\<close>; where the code can leave the 64-bit range the
    wrap-around is written out with \<open>wrap64\<close>.
  \<^item> A \<open>time.Time\<close> is an instant in nanoseconds, a \<open>time.Duration\<close> a number of nanoseconds.
  \<^item> A call that reads the clock takes the instant it reads as an argument.
  \<^item> An \<open>error\<close> result is \<open>Inl\<close> of an error datatype; success is \<open>Inr\<close>.
\<close>

named_theorems go_simps "equations that evaluate the Go library functions the source calls"
named_theorems inv_intros "introduction rules for the invariants of the components"

type_synonym bytes = string
type_synonym instant = int
type_synonym duration = int

abbreviation millisecond :: duration where "millisecond \<equiv> 1000000"
abbreviation second :: duration where "second \<equiv> 1000000000"
abbreviation minute :: duration where "minute \<equiv> 60000000000"
abbreviation hour :: duration where "hour \<equiv> 3600000000000"

section \<open>64-bit integers\<close>

definition wrap64 :: "int \<Rightarrow> int" where
  "wrap64 x = (x + 2 ^ 63) mod 2 ^ 64 - 2 ^ 63"

definition int64 :: "int \<Rightarrow> bool" where
  "int64 x \<longleftrightarrow> - (2 ^ 63) \<le> x \<and> x < 2 ^ 63"

abbreviation MinInt64 :: int where "MinInt64 \<equiv> - 9223372036854775808"

lemma int64_iff: "int64 x \<longleftrightarrow> MinInt64 \<le> x \<and> x \<le> 9223372036854775807"
  by (auto simp: int64_def)

lemma wrap64_int64 [simp]: "int64 x \<Longrightarrow> wrap64 x = x"
  by (simp add: int64_def wrap64_def)

lemma wrap64_range [simp]: "int64 (wrap64 x)"
proof -
  have "0 \<le> (x + 2 ^ 63) mod 2 ^ 64" "(x + 2 ^ 63) mod 2 ^ 64 < 2 ^ 64" by simp_all
  then show ?thesis by (simp add: int64_def wrap64_def)
qed

lemma wrap64_min: "wrap64 (- MinInt64) = MinInt64"
  by (simp add: wrap64_def)

section \<open>Dynamic values\<close>

text \<open>
  The Go values that travel as \<open>any\<close>: bind arguments, row columns, cursor values. A float
  is its IEEE bit pattern, so that nothing is said about float arithmetic.
\<close>

datatype goval =
    VNil
  | VInt int
  | VStr string
  | VBool bool
  | VTime instant
  | VBytes bytes
  | VFloat "64 word"
  | VVec "32 word list"
  | VArr "goval list"

section \<open>Decimal notation\<close>

text \<open>\<open>strconv\<close>'s decimal rendering of an integer (correct on all of them).\<close>

fun dec_nat :: "nat \<Rightarrow> string" where
  "dec_nat n = (if n < 10 then [char_of (48 + n)]
     else dec_nat (n div 10) @ [char_of (48 + n mod 10)])"

declare dec_nat.simps [simp del]

definition dec_int :: "int \<Rightarrow> string" where
  "dec_int n = (if n < 0 then CHR ''-'' # dec_nat (nat (- n)) else dec_nat (nat n))"

definition is_digit :: "char \<Rightarrow> bool" where
  "is_digit c \<longleftrightarrow> 48 \<le> (of_char c :: nat) \<and> (of_char c :: nat) \<le> 57"

lemma is_digit_char_of [simp]: "d < 10 \<Longrightarrow> is_digit (char_of (48 + d :: nat))"
  by (simp add: is_digit_def of_char_of)

lemma of_char_digit [simp]: "d < 10 \<Longrightarrow> of_char (char_of (48 + d :: nat)) = 48 + d"
  by (simp add: of_char_of)

lemma dec_nat_digits: "c \<in> set (dec_nat n) \<Longrightarrow> is_digit c"
proof (induction n rule: dec_nat.induct)
  case (1 n)
  then show ?case by (cases "n < 10") (auto simp: dec_nat.simps [of n])
qed

lemma dec_nat_not_Nil [simp]: "dec_nat n \<noteq> []"
  by (subst dec_nat.simps) simp

text \<open>The value of a digit string, most significant digit first.\<close>

definition dec_val :: "nat \<Rightarrow> string \<Rightarrow> nat" where
  "dec_val acc s = foldl (\<lambda>a c. 10 * a + (of_char c - 48)) acc s"

lemma dec_val_Nil [simp]: "dec_val a [] = a"
  and dec_val_Cons [simp]: "dec_val a (c # s) = dec_val (10 * a + (of_char c - 48)) s"
  and dec_val_append [simp]: "dec_val a (s @ t) = dec_val (dec_val a s) t"
  by (simp_all add: dec_val_def)

lemma dec_val_dec_nat [simp]: "dec_val 0 (dec_nat n) = n"
proof (induction n rule: dec_nat.induct)
  case (1 n)
  then show ?case by (cases "n < 10") (auto simp: dec_nat.simps [of n])
qed

lemma dec_nat_inj [simp]: "dec_nat m = dec_nat n \<longleftrightarrow> m = n"
  by (metis dec_val_dec_nat)

lemma dec_nat_length: "n < 10 ^ k \<Longrightarrow> 0 < k \<Longrightarrow> length (dec_nat n) \<le> k"
proof (induction n arbitrary: k rule: dec_nat.induct)
  case (1 n)
  show ?case
  proof (cases "n < 10")
    case False
    then have "1 < k" using "1.prems" by (cases "k = 1") auto
    moreover have "n div 10 < 10 ^ (k - 1)"
      using "1.prems" by (cases k) (auto simp: div_less_iff_less_mult)
    ultimately have "length (dec_nat (n div 10)) \<le> k - 1" using "1.IH" False by simp
    with False \<open>1 < k\<close> show ?thesis by (simp add: dec_nat.simps [of n])
  qed (use "1.prems" in \<open>simp add: dec_nat.simps [of n]\<close>)
qed

section \<open>Separators\<close>

lemma sep_inj:
  "s @ c # t = s' @ c # t' \<Longrightarrow> c \<notin> set s \<Longrightarrow> c \<notin> set s' \<Longrightarrow> s = s' \<and> t = t'"
  by (induction s arbitrary: s') (auto simp: Cons_eq_append_conv append_eq_Cons_conv)

lemma last_sep_inj:
  assumes "s @ c # t = s' @ c # t'" and "c \<notin> set t" and "c \<notin> set t'"
  shows "s = s' \<and> t = t'"
proof -
  from assms(1) have "rev t @ c # rev s = rev t' @ c # rev s'"
    by (metis append_Cons append_eq_append_conv2 rev.simps(2) rev_append self_append_conv2
        append_assoc append_Nil)
  with assms(2,3) have "rev t = rev t' \<and> rev s = rev s'" by (intro sep_inj) auto
  then show ?thesis by simp
qed

text \<open>\<open>strings.Join\<close>.\<close>

fun join :: "string \<Rightarrow> string list \<Rightarrow> string" where
  "join sep [] = []"
| "join sep [x] = x"
| "join sep (x # y # ys) = x @ sep @ join sep (y # ys)"

lemma join_sep_inj:
  "join [c] xs = join [c] ys \<Longrightarrow> length xs = length ys \<Longrightarrow>
   \<forall>x \<in> set xs. c \<notin> set x \<Longrightarrow> \<forall>y \<in> set ys. c \<notin> set y \<Longrightarrow> xs = ys"
proof (induction "[c]" xs arbitrary: ys rule: join.induct)
  case (2 x)
  then show ?case by (cases ys) auto
next
  case (3 x y xs)
  then obtain x' y' xs' where ys: "ys = x' # y' # xs'"
    by (metis (no_types, opaque_lifting) length_Suc_conv)
  from "3.prems" ys have "x = x' \<and> join [c] (y # xs) = join [c] (y' # xs')"
    by (intro sep_inj [of x c _ x']) auto
  with 3 ys show ?case by auto
qed simp

section \<open>The insertion-sort loop\<close>

text \<open>
  \<open>sim.sortStrings\<close> and \<open>queryresult.sortInt32\<close> are the same two nested loops over a
  slice. The inner loop moves the element at \<open>j\<close> left while its left neighbour is larger.
\<close>

fun sort_inner :: "'a::linorder list \<Rightarrow> nat \<Rightarrow> 'a list" where
  "sort_inner s 0 = s"
| "sort_inner s (Suc j) =
     (if s ! j > s ! Suc j then sort_inner (s[j := s ! Suc j, Suc j := s ! j]) j else s)"

lemma length_sort_inner [simp]: "length (sort_inner s j) = length s"
  by (induction s j rule: sort_inner.induct) auto

function sort_outer :: "'a::linorder list \<Rightarrow> nat \<Rightarrow> 'a list" where
  "sort_outer s i = (if i < length s then sort_outer (sort_inner s i) (Suc i) else s)"
  by pat_completeness auto
termination
  by (relation "measure (\<lambda>(s, i). length s - i)") auto

declare sort_outer.simps [simp del]

definition sort_loop :: "'a::linorder list \<Rightarrow> 'a list" where
  "sort_loop s = sort_outer s 1"

lemma mset_swap_adj: "Suc j < length s \<Longrightarrow> mset (s[j := s ! Suc j, Suc j := s ! j]) = mset s"
  by (metis Suc_lessD list_update_swap mset_swap n_not_Suc_n)

lemma mset_sort_inner: "j < length s \<Longrightarrow> mset (sort_inner s j) = mset s"
  by (induction s j rule: sort_inner.induct) (auto simp: mset_swap_adj)

lemma drop_sort_inner: "j < length s \<Longrightarrow> drop (Suc j) (sort_inner s j) = drop (Suc j) s"
proof (induction s j rule: sort_inner.induct)
  case (2 s j)
  show ?case
  proof (cases "s ! j > s ! Suc j")
    case True
    let ?s = "s[j := s ! Suc j, Suc j := s ! j]"
    have "drop (Suc j) (sort_inner ?s j) = drop (Suc j) ?s" using 2 True by simp
    then have "drop 1 (drop (Suc j) (sort_inner ?s j)) = drop 1 (drop (Suc j) ?s)" by simp
    with True show ?thesis by simp
  qed simp
qed simp

lemma sorted_upto_sort_inner:
  assumes "j < length s" and "sorted (take j s)"
  shows "sorted (take (Suc j) (sort_inner s j))"
  using assms
proof (induction s j rule: sort_inner.induct)
  case (1 s)
  then show ?case by (cases s) auto
next
  case (2 s j)
  let ?s = "s[j := s ! Suc j, Suc j := s ! j]"
  have len: "Suc j < length s" by (rule "2.prems")
  have le: "sorted (take j s)" "\<forall>x \<in> set (take j s). x \<le> s ! j"
    using "2.prems" by (auto simp: take_Suc_conv_app_nth sorted_append)
  show ?case
  proof (cases "s ! j > s ! Suc j")
    case False
    have "take (Suc (Suc j)) s = take (Suc j) s @ [s ! Suc j]"
      using len by (simp add: take_Suc_conv_app_nth)
    moreover have "\<forall>x \<in> set (take (Suc j) s). x \<le> s ! Suc j"
      using False le(2) len by (force simp: take_Suc_conv_app_nth)
    ultimately show ?thesis using False "2.prems"(2) by (simp add: sorted_append)
  next
    case True
    have tk: "take j ?s = take j s" by simp
    have ih: "sorted (take (Suc j) (sort_inner ?s j))"
      using "2.IH" [OF True] len le(1) tk by simp
    have dr: "drop (Suc j) (sort_inner ?s j) = drop (Suc j) ?s"
      using len by (intro drop_sort_inner) simp
    then have nx: "sort_inner ?s j ! Suc j = s ! j"
      using len by (metis hd_drop_conv_nth length_list_update length_sort_inner nth_list_update_eq)
    have "mset (take (Suc j) (sort_inner ?s j)) = mset (take (Suc j) ?s)"
      using mset_sort_inner [of j ?s] dr len
      by (metis Suc_lessD add_right_cancel append_take_drop_id length_list_update mset_append)
    then have "set (take (Suc j) (sort_inner ?s j)) = set (take (Suc j) ?s)"
      by (metis set_mset_mset)
    also have "\<dots> = insert (s ! Suc j) (set (take j s))"
      using len by (simp add: take_Suc_conv_app_nth)
    finally have "\<forall>x \<in> set (take (Suc j) (sort_inner ?s j)). x \<le> s ! j"
      using le(2) True by auto
    then have "sorted (take (Suc (Suc j)) (sort_inner ?s j))"
      using ih nx len by (simp add: take_Suc_conv_app_nth [of "Suc j"] sorted_append)
    with True show ?thesis by simp
  qed
qed

lemma sort_outer_sorts:
  "sorted (take i s) \<Longrightarrow> i \<le> length s \<Longrightarrow> sorted (sort_outer s i) \<and> mset (sort_outer s i) = mset s"
proof (induction s i rule: sort_outer.induct)
  case (1 s i)
  then show ?case
    using sort_outer.simps [of s i]
    by (cases "i < length s") (simp_all add: sorted_upto_sort_inner mset_sort_inner)
qed

lemma sort_loop_eq_sort: "sort_loop s = sort s"
proof (cases "s = []")
  case False
  then have "sorted (take 1 s)" "1 \<le> length s" by (cases s; simp)+
  from sort_outer_sorts [OF this] show ?thesis
    by (metis properties_for_sort sort_loop_def)
qed (simp add: sort_loop_def sort_outer.simps)

section \<open>Association lists standing for tables\<close>

text \<open>
  A table is a list of rows in physical order with distinct identifiers. The lemmas are
  about the two SQL statement shapes the source uses: an UPDATE that rewrites the rows a
  predicate selects, and a DELETE that drops them.
\<close>

definition update_where :: "('r \<Rightarrow> bool) \<Rightarrow> ('r \<Rightarrow> 'r) \<Rightarrow> 'r list \<Rightarrow> 'r list" where
  "update_where p f t = map (\<lambda>r. if p r then f r else r) t"

definition delete_where :: "('r \<Rightarrow> bool) \<Rightarrow> 'r list \<Rightarrow> 'r list" where
  "delete_where p t = filter (\<lambda>r. \<not> p r) t"

lemma map_update_where:
  "(\<And>r. g (f r) = g r) \<Longrightarrow> map g (update_where p f t) = map g t"
  by (induction t) (auto simp: update_where_def)

lemma set_update_where:
  "set (update_where p f t) = f ` {r \<in> set t. p r} \<union> {r \<in> set t. \<not> p r}"
  by (auto simp: update_where_def)

lemma set_delete_where [simp]: "set (delete_where p t) = {r \<in> set t. \<not> p r}"
  by (simp add: delete_where_def)

lemma distinct_map_delete_where:
  "distinct (map g t) \<Longrightarrow> distinct (map g (delete_where p t))"
  by (simp add: delete_where_def distinct_map_filter)

lemma filter_key_unique:
  assumes "distinct (map g xs)" and "x \<in> set xs"
  shows "filter (\<lambda>y. g y = g x) xs = [x]"
  using assms by (induction xs) (auto simp: filter_empty_conv image_iff)

end
