(* ===== verification/Keys.thy ===== *)
theory Keys
  imports Prelude
begin

text \<open>
  The key and number formats that the cache writer and the cache reader share:
  \<open>itoa\<close>, \<open>CacheKey\<close>, \<open>PointerKey\<close>, \<open>GenerationKey\<close>, \<open>QueryResultKey\<close>,
  \<open>EncodeKeyArg\<close> and \<open>CompositeID\<close> of \<open>internal/runtime/runtime.go\<close>, and
  \<open>parseInt64\<close>/\<open>formatInt64\<close> of \<open>internal/cache/memcached/client.go\<close>, with
  \<open>strconv.ParseInt\<close> as the Go library defines it for base 10 and 64 bits.
\<close>

section \<open>Decimal rendering of int64\<close>

text \<open>
  The digit loop \<open>for n > 0 { i--; buf[i] = '0' + n\%10; n /= 10 }\<close>. It fills a 20-byte
  buffer from the right; the list is the filled part of the buffer.
\<close>

function digit_loop :: "int \<Rightarrow> string \<Rightarrow> string" where
  "digit_loop n buf =
     (if n > 0 then digit_loop (n div 10) (char_of (48 + nat (n mod 10)) # buf) else buf)"
  by pat_completeness auto
termination
  by (relation "measure (\<lambda>(n, buf). nat n)") auto

declare digit_loop.simps [simp del]

text \<open>\<open>n = -n\<close> on an \<open>int64\<close> wraps: \<open>-MinInt64\<close> is \<open>MinInt64\<close> again.\<close>

definition itoa :: "int \<Rightarrow> string" where
  "itoa n =
     (if n = 0 then ''0''
      else let neg = n < 0;
               m = (if neg then wrap64 (- n) else n);
               buf = digit_loop m []
           in if neg then CHR ''-'' # buf else buf)"

definition formatInt64 :: "int \<Rightarrow> bytes" where
  "formatInt64 n =
     (if n = 0 then ''0''
      else let neg = n < 0;
               m = (if neg then wrap64 (- n) else n);
               buf = digit_loop m []
           in if neg then CHR ''-'' # buf else buf)"

section \<open>strconv.ParseInt\<close>

datatype parse_err = EmptyInput | ErrSyntax | ErrRange

definition maxUint64 :: nat where "maxUint64 = 18446744073709551615"
definition parse_cutoff :: nat where "parse_cutoff = 1844674407370955162"

fun parse_uint_loop :: "nat \<Rightarrow> string \<Rightarrow> parse_err + nat" where
  "parse_uint_loop n [] = Inr n"
| "parse_uint_loop n (c # cs) =
     (if \<not> is_digit c then Inl ErrSyntax
      else if n \<ge> parse_cutoff then Inl ErrRange
      else let n1 = 10 * n + (of_char c - 48)
           in if n1 > maxUint64 then Inl ErrRange else parse_uint_loop n1 cs)"

definition parse_uint :: "string \<Rightarrow> parse_err + nat" where
  "parse_uint s = (if s = [] then Inl ErrSyntax else parse_uint_loop 0 s)"

definition strconv_ParseInt :: "string \<Rightarrow> parse_err + int" where
  "strconv_ParseInt s =
     (case s of
        [] \<Rightarrow> Inl ErrSyntax
      | c # cs \<Rightarrow>
          (let neg = (c = CHR ''-'');
               t = (if c = CHR ''+'' \<or> c = CHR ''-'' then cs else s)
           in case parse_uint t of
                Inl e \<Rightarrow> Inl e
              | Inr un \<Rightarrow>
                  if \<not> neg \<and> un \<ge> 2 ^ 63 then Inl ErrRange
                  else if neg \<and> un > 2 ^ 63 then Inl ErrRange
                  else Inr (if neg then - int un else int un)))"

definition parseInt64 :: "bytes \<Rightarrow> parse_err + int" where
  "parseInt64 b = (if length b = 0 then Inl EmptyInput else strconv_ParseInt b)"

section \<open>Cache keys\<close>

definition CacheKey :: "string \<Rightarrow> string \<Rightarrow> int \<Rightarrow> string" where
  "CacheKey entity rid version = ''atl:v1:'' @ entity @ '':'' @ rid @ '':'' @ itoa version"

definition PointerKey :: "string \<Rightarrow> string \<Rightarrow> string" where
  "PointerKey entity rid = ''atl:v1:'' @ entity @ '':'' @ rid @ '':ver''"

definition GenerationKey :: "string \<Rightarrow> string" where
  "GenerationKey entity = ''atl:v2:'' @ entity @ '':gen''"

definition QueryResultKey :: "string \<Rightarrow> string \<Rightarrow> string" where
  "QueryResultKey entity hash = ''atl:v2:'' @ entity @ '':q:'' @ hash"

text \<open>
  The parts of Go's \<open>fmt\<close> and \<open>time\<close> packages that render times and floats are
  arguments: no property depends on how they look.
\<close>

record go_fmt =
  fmt_time :: "instant \<Rightarrow> string"
  fmt_rfc3339nano :: "instant \<Rightarrow> string"
  fmt_float64 :: "64 word \<Rightarrow> string"
  fmt_float32 :: "32 word \<Rightarrow> string"

text \<open>\<open>fmt.Sprint\<close> and \<open>fmt.Sprintf("\%v", v)\<close> on one operand.\<close>

fun go_sprint :: "go_fmt \<Rightarrow> goval \<Rightarrow> string" where
  "go_sprint F VNil = ''<nil>''"
| "go_sprint F (VInt n) = dec_int n"
| "go_sprint F (VStr s) = s"
| "go_sprint F (VBool b) = (if b then ''true'' else ''false'')"
| "go_sprint F (VTime t) = fmt_time F t"
| "go_sprint F (VBytes b) = ''['' @ join '' '' (map (\<lambda>c. dec_nat (of_char c)) b) @ '']''"
| "go_sprint F (VFloat x) = fmt_float64 F x"
| "go_sprint F (VVec xs) = ''['' @ join '' '' (map (fmt_float32 F) xs) @ '']''"
| "go_sprint F (VArr xs) = ''['' @ join '' '' (map (go_sprint F) xs) @ '']''"

definition sprintFallback :: "go_fmt \<Rightarrow> goval \<Rightarrow> string" where
  "sprintFallback F v = go_sprint F v"

definition sprintCanonical :: "go_fmt \<Rightarrow> goval \<Rightarrow> string" where
  "sprintCanonical F v =
     (case v of
        VNil \<Rightarrow> []
      | VStr s \<Rightarrow> s
      | VBytes b \<Rightarrow> b
      | VTime t \<Rightarrow> fmt_rfc3339nano F t
      | _ \<Rightarrow> sprintFallback F v)"

definition EncodeKeyArg :: "go_fmt \<Rightarrow> goval \<Rightarrow> string" where
  "EncodeKeyArg F v = (let s = sprintCanonical F v in itoa (int (length s)) @ '':'' @ s)"

definition CompositeID :: "go_fmt \<Rightarrow> goval list \<Rightarrow> string" where
  "CompositeID F parts =
     (if length parts = 1 then EncodeKeyArg F (hd parts)
      else fst (foldl (\<lambda>(b, first) p.
             ((if first then b else b @ ''|'') @ EncodeKeyArg F p, False)) ([], True) parts))"

section \<open>Lemmas\<close>

lemma digit_loop_nat: "digit_loop (int n) buf = (if n = 0 then [] else dec_nat n) @ buf"
proof (induction n arbitrary: buf rule: dec_nat.induct)
  case (1 n)
  have step: "digit_loop (int n) buf = (if n = 0 then buf else
      digit_loop (int (n div 10)) (char_of (48 + n mod 10) # buf))"
    by (subst digit_loop.simps) (simp add: zdiv_int nat_mod_distrib)
  show ?case
  proof (cases "n < 10")
    case True
    have "digit_loop 0 b = b" for b by (subst digit_loop.simps) simp
    with True show ?thesis by (simp add: step dec_nat.simps [of n])
  next
    case False
    then have "n div 10 \<noteq> 0" by (simp add: div_eq_0_iff)
    with False "1.IH" [OF False] show ?thesis by (simp add: step dec_nat.simps [of n])
  qed
qed

lemma itoa_eq_dec: "int64 n \<Longrightarrow> n \<noteq> MinInt64 \<Longrightarrow> itoa n = dec_int n"
proof -
  assume n: "int64 n" "n \<noteq> MinInt64"
  have d: "digit_loop m [] = dec_nat (nat m)" if "0 < m" for m
    using digit_loop_nat [of "nat m" "[]"] that by simp
  have w: "wrap64 (- n) = - n" using n by (intro wrap64_int64) (auto simp: int64_iff)
  have z: "dec_nat 0 = ''0''" by code_simp
  show ?thesis
    using d [of n] d [of "- n"] w by (auto simp: itoa_def dec_int_def Let_def z)
qed

lemma itoa_nat: "n < 2 ^ 63 \<Longrightarrow> itoa (int n) = dec_nat n"
  by (subst itoa_eq_dec) (auto simp: int64_def dec_int_def)

lemma itoa_min: "itoa (MinInt64) = ''-''"
  by (simp add: itoa_def wrap64_def digit_loop.simps)

lemma formatInt64_eq_itoa: "formatInt64 = itoa"
  by (simp add: fun_eq_iff formatInt64_def itoa_def)

lemma parse_uint_loop_dec_val:
  "\<forall>c \<in> set s. is_digit c \<Longrightarrow> dec_val n s \<le> maxUint64 \<Longrightarrow> parse_uint_loop n s = Inr (dec_val n s)"
proof (induction s arbitrary: n)
  case (Cons c s)
  let ?n1 = "10 * n + (of_char c - 48)"
  have mono: "m \<le> dec_val m t" for m t
  proof (induction t arbitrary: m)
    case (Cons d t)
    have "m \<le> 10 * m + (of_char d - 48)" by simp
    also have "\<dots> \<le> dec_val (10 * m + (of_char d - 48)) t" by (rule Cons.IH)
    finally show ?case by simp
  qed simp
  have le: "?n1 \<le> maxUint64" using Cons.prems(2) mono [of ?n1 s] by simp
  then have "n < parse_cutoff" by (simp add: maxUint64_def parse_cutoff_def)
  with le Cons show ?case by (simp add: Let_def)
qed simp

lemma parse_uint_dec_nat: "n \<le> maxUint64 \<Longrightarrow> parse_uint (dec_nat n) = Inr n"
  using parse_uint_loop_dec_val [of "dec_nat n" 0]
  by (auto simp: parse_uint_def dest: dec_nat_digits)

lemma dec_nat_no_sign: "dec_nat n = c # cs \<Longrightarrow> c \<noteq> CHR ''-'' \<and> c \<noteq> CHR ''+''"
  using dec_nat_digits [of c n] by (auto simp: is_digit_def)

lemma ParseInt_dec_int: "int64 n \<Longrightarrow> strconv_ParseInt (dec_int n) = Inr n"
proof -
  assume n: "int64 n"
  show ?thesis
  proof (cases "n < 0")
    case True
    then have "parse_uint (dec_nat (nat (- n))) = Inr (nat (- n))"
      using n by (intro parse_uint_dec_nat) (simp add: int64_iff maxUint64_def nat_le_iff)
    with True n show ?thesis
      by (simp add: strconv_ParseInt_def dec_int_def Let_def int64_def nat_less_iff)
  next
    case False
    obtain c cs where c: "dec_nat (nat n) = c # cs" by (cases "dec_nat (nat n)") auto
    have "parse_uint (dec_nat (nat n)) = Inr (nat n)"
      using n by (intro parse_uint_dec_nat) (simp add: int64_iff maxUint64_def nat_le_iff)
    with False n c dec_nat_no_sign [OF c] show ?thesis
      by (simp add: strconv_ParseInt_def dec_int_def Let_def int64_def nat_less_iff)
  qed
qed

lemma ParseInt_dash: "strconv_ParseInt ''-'' = Inl ErrSyntax"
  by (simp add: strconv_ParseInt_def parse_uint_def)

lemma itoa_no_colon: "int64 n \<Longrightarrow> CHR '':'' \<notin> set (itoa n)"
proof -
  have d: "CHR '':'' \<notin> set (dec_nat m)" for m
    using dec_nat_digits [of "CHR '':''" m] by (auto simp: is_digit_def)
  assume "int64 n"
  then show ?thesis
    by (cases "n = MinInt64") (auto simp: itoa_min itoa_eq_dec dec_int_def d)
qed

lemma itoa_chars: "int64 n \<Longrightarrow> c \<in> set (itoa n) \<Longrightarrow> c = CHR ''-'' \<or> is_digit c"
  using dec_nat_digits
  by (cases "n = MinInt64") (auto simp: itoa_min itoa_eq_dec dec_int_def split: if_splits)

lemma itoa_inj: "int64 m \<Longrightarrow> int64 n \<Longrightarrow> itoa m = itoa n \<Longrightarrow> m = n"
proof -
  assume r: "int64 m" "int64 n" and eq: "itoa m = itoa n"
  have min: "n = MinInt64" if "itoa n = ''-''" "int64 n" for n
    using that dec_nat_no_sign [of "nat n" "CHR ''-''" "[]"]
    by (cases "n = MinInt64") (auto simp: itoa_eq_dec dec_int_def split: if_splits)
  show ?thesis
  proof (cases "m = MinInt64 \<or> n = MinInt64")
    case True
    with eq r show ?thesis using min itoa_min by metis
  next
    case False
    with eq r have "dec_int m = dec_int n" by (simp add: itoa_eq_dec)
    with r show ?thesis using ParseInt_dec_int by (metis sum.inject(2))
  qed
qed

lemma composite_loop:
  "fst (foldl (\<lambda>(b, first) p. ((if first then b else b @ ''|'') @ EncodeKeyArg F p, False)) (b, False) ps)
     = b @ concat (map (\<lambda>p. ''|'' @ EncodeKeyArg F p) ps)"
  by (induction ps arbitrary: b) auto

lemma CompositeID_eq: "CompositeID F ps = join ''|'' (map (EncodeKeyArg F) ps)"
proof -
  have j: "join ''|'' (x # xs) = x @ concat (map (\<lambda>p. ''|'' @ p) xs)" for x :: string and xs
    by (induction xs arbitrary: x) auto
  show ?thesis
    by (cases ps) (auto simp: CompositeID_def composite_loop j comp_def)
qed

text \<open>A length prefix makes the argument encoding self-delimiting.\<close>

lemma EncodeKeyArg_prefix:
  assumes eq: "EncodeKeyArg F v @ r = EncodeKeyArg F w @ r'"
    and l: "length (sprintCanonical F v) < 2 ^ 63" "length (sprintCanonical F w) < 2 ^ 63"
  shows "sprintCanonical F v = sprintCanonical F w \<and> r = r'"
proof -
  let ?s = "sprintCanonical F v" and ?t = "sprintCanonical F w"
  have "itoa (int (length ?s)) @ CHR '':'' # ?s @ r = itoa (int (length ?t)) @ CHR '':'' # ?t @ r'"
    using eq by (simp add: EncodeKeyArg_def Let_def)
  moreover have "int64 (int (length ?s))" "int64 (int (length ?t))" using l by (simp_all add: int64_def)
  ultimately have "itoa (int (length ?s)) = itoa (int (length ?t))" "?s @ r = ?t @ r'"
    using sep_inj [of "itoa (int (length ?s))" "CHR '':''"] itoa_no_colon by blast+
  moreover then have "length ?s = length ?t"
    using itoa_inj \<open>int64 (int (length ?s))\<close> \<open>int64 (int (length ?t))\<close> by (metis of_nat_eq_iff)
  ultimately show ?thesis by simp
qed

section \<open>Properties\<close>

text \<open>
  C15: \<open>parseInt64\<close> reads back what \<open>formatInt64\<close> writes, for every \<open>int64\<close> except
  \<open>MinInt64\<close>; there \<open>formatInt64\<close> writes the single byte \<open>-\<close>, which \<open>parseInt64\<close> rejects.
  The rendering never needs more than the 20 bytes of its buffer.
\<close>

theorem format_parse_roundtrip:
  assumes "int64 n"
  shows "parseInt64 (formatInt64 n) = (if n = MinInt64 then Inl ErrSyntax else Inr n)
    \<and> length (formatInt64 n) \<le> 20"
proof (rule conjI)
  have ne: "dec_int n \<noteq> []" by (simp add: dec_int_def)
  show "parseInt64 (formatInt64 n) = (if n = MinInt64 then Inl ErrSyntax else Inr n)"
    using assms ne
    by (auto simp: parseInt64_def formatInt64_eq_itoa itoa_eq_dec ParseInt_dec_int itoa_min
        ParseInt_dash)
  have "length (dec_nat (nat \<bar>n\<bar>)) \<le> 19"
    using assms by (intro dec_nat_length) (auto simp: int64_def abs_if nat_less_iff)
  then show "length (formatInt64 n) \<le> 20"
    using assms by (cases "n = MinInt64")
      (auto simp: formatInt64_eq_itoa itoa_min itoa_eq_dec dec_int_def abs_if split: if_splits)
qed

theorem format_parse_roundtrip_witness:
  "parseInt64 (formatInt64 (- 120)) = Inr (- 120) \<and> length (formatInt64 (- 120)) \<le> 20
    \<and> parseInt64 (formatInt64 (MinInt64)) = Inl ErrSyntax"
  using format_parse_roundtrip [of "- 120"] format_parse_roundtrip [of "MinInt64"]
  by (simp add: int64_def)

text \<open>
  C10: two composite primary keys of the same arity get the same row identifier exactly when
  their canonical renderings agree part by part, whatever separators the values contain.
\<close>

theorem CompositeID_injective:
  assumes "length ps = length qs"
    and "\<forall>v \<in> set ps \<union> set qs. length (sprintCanonical F v) < 2 ^ 63"
  shows "CompositeID F ps = CompositeID F qs \<longleftrightarrow> map (sprintCanonical F) ps = map (sprintCanonical F) qs"
  using assms unfolding CompositeID_eq
proof (induction ps qs rule: list_induct2')
  case (4 p ps q qs)
  have cons: "join ''|'' (map (EncodeKeyArg F) (x # xs)) =
      EncodeKeyArg F x @ (if xs = [] then [] else ''|'' @ join ''|'' (map (EncodeKeyArg F) xs))" for x xs
    by (cases xs) auto
  have l: "length (sprintCanonical F p) < 2 ^ 63" "length (sprintCanonical F q) < 2 ^ 63"
    using "4.prems"(2) by simp_all
  have enc: "EncodeKeyArg F p = EncodeKeyArg F q" if "sprintCanonical F p = sprintCanonical F q"
    using that by (simp add: EncodeKeyArg_def)
  have "EncodeKeyArg F p @ r = EncodeKeyArg F q @ r' \<longleftrightarrow> sprintCanonical F p = sprintCanonical F q \<and> r = r'" for r r'
    using EncodeKeyArg_prefix [OF _ l] enc by blast
  moreover have "ps = [] \<longleftrightarrow> qs = []" using "4.prems"(1) by (cases ps; cases qs) auto
  moreover have "join ''|'' (map (EncodeKeyArg F) ps) = join ''|'' (map (EncodeKeyArg F) qs) \<longleftrightarrow>
      map (sprintCanonical F) ps = map (sprintCanonical F) qs"
    using "4.prems" by (intro "4.IH") auto
  ultimately show ?case by (simp only: cons) simp
qed simp_all

theorem CompositeID_injective_witness:
  "CompositeID \<lparr>fmt_time = (\<lambda>_. []), fmt_rfc3339nano = (\<lambda>_. []), fmt_float64 = (\<lambda>_. []), fmt_float32 = (\<lambda>_. [])\<rparr>
     [VStr ''ab|cd'', VStr ''ef''] \<noteq>
   CompositeID \<lparr>fmt_time = (\<lambda>_. []), fmt_rfc3339nano = (\<lambda>_. []), fmt_float64 = (\<lambda>_. []), fmt_float32 = (\<lambda>_. [])\<rparr>
     [VStr ''ab'', VStr ''cd|ef'']"
  by (subst CompositeID_injective) (auto simp: sprintCanonical_def)

text \<open>
  C11: entity names carry no colon (they are \<open>namespace.Entity\<close> identifiers). Then the four
  key families of the shared memcached keyspace never collide: body keys of different rows or
  versions differ, a body key is never a pointer key, pointer, generation and query-result keys
  determine their row, entity and hash, and the v1 and v2 families are disjoint, even though row
  identifiers and hashes are arbitrary strings.
\<close>

theorem cache_keys_separate:
  assumes "CHR '':'' \<notin> set e" and "CHR '':'' \<notin> set e'" and "int64 v" and "int64 v'"
  shows "(CacheKey e i v = CacheKey e' i' v' \<longleftrightarrow> e = e' \<and> i = i' \<and> v = v')
    \<and> (PointerKey e i = PointerKey e' i' \<longleftrightarrow> e = e' \<and> i = i')
    \<and> CacheKey e i v \<noteq> PointerKey e' i'
    \<and> (GenerationKey e = GenerationKey e' \<longleftrightarrow> e = e')
    \<and> (QueryResultKey e h = QueryResultKey e' h' \<longleftrightarrow> e = e' \<and> h = h')
    \<and> GenerationKey e \<noteq> QueryResultKey e' h'
    \<and> {CacheKey e i v, PointerKey e i} \<inter> {GenerationKey e', QueryResultKey e' h'} = {}"
proof -
  note nc = itoa_no_colon [OF assms(3)] itoa_no_colon [OF assms(4)]
  have row: "e @ CHR '':'' # i @ CHR '':'' # t = e' @ CHR '':'' # i' @ CHR '':'' # t' \<longleftrightarrow> e = e' \<and> i = i' \<and> t = t'"
    if "CHR '':'' \<notin> set t" "CHR '':'' \<notin> set t'" for t t'
    using sep_inj [of e _ _ e'] last_sep_inj [of i _ t i' t'] assms(1,2) that by blast
  have ent: "e @ CHR '':'' # t = e' @ CHR '':'' # t' \<longleftrightarrow> e = e' \<and> t = t'" for t t'
    using sep_inj [of e _ _ e'] assms(1,2) by blast
  have ver: "itoa v \<noteq> ''ver''" using itoa_chars [OF assms(3), of "CHR ''v''"] by (auto simp: is_digit_def)
  have inj: "itoa v = itoa v' \<longleftrightarrow> v = v'" using itoa_inj assms(3,4) by blast
  show ?thesis
    using row [OF nc] row [of "''ver''" "''ver''"] row [OF nc(1), of "''ver''"] ver inj
    by (simp add: CacheKey_def PointerKey_def GenerationKey_def QueryResultKey_def ent)
qed

theorem cache_keys_separate_witness:
  "CacheKey ''shop.Order'' ''a:b'' 7 \<noteq> PointerKey ''shop.Order'' ''a:b:7''
    \<and> CacheKey ''shop.Order'' ''a:b'' 7 \<noteq> CacheKey ''shop.Order'' ''a'' 7"
  using cache_keys_separate [of "''shop.Order''" "''shop.Order''" 7 7 "''a:b''" "''a:b:7''"]
    cache_keys_separate [of "''shop.Order''" "''shop.Order''" 7 7 "''a:b''" "''a''"]
  by (simp add: int64_def)

end
