(* ===== verification/QueryCodec.thy ===== *)
theory QueryCodec
  imports Keys
begin

text \<open>
  The byte formats of the tier-2 query-result cache: the value codec of
  \<open>internal/cache/queryresult/codec.go\<close> (\<open>encodePayload\<close>, \<open>decodePayload\<close>) and the
  canonical frame that \<open>internal/cache/queryresult/hash.go\<close> feeds to the digest. Go's
  \<open>encoding/binary\<close> varints are modelled as the library defines them; protobuf marshalling
  and the digest are arguments.
\<close>

section \<open>encoding/binary varints\<close>

text \<open>\<open>PutUvarint\<close>: \<open>byte(x) | 0x80\<close> keeps the low seven bits and sets the eighth.\<close>

fun PutUvarint :: "nat \<Rightarrow> bytes" where
  "PutUvarint x = (if x \<ge> 128 then char_of (x mod 128 + 128) # PutUvarint (x div 128) else [char_of x])"

declare PutUvarint.simps [simp del]

text \<open>
  \<open>Uvarint\<close>: the value and the number of bytes read; zero when the buffer is too small,
  negative when the value overflows 64 bits. \<open>x < 2^s\<close> throughout, so \<open>|\<close> is addition.
\<close>

fun uvarint_loop :: "nat \<Rightarrow> nat \<Rightarrow> nat \<Rightarrow> bytes \<Rightarrow> nat \<times> int" where
  "uvarint_loop i x s [] = (0, 0)"
| "uvarint_loop i x s (c # cs) =
     (let b = (of_char c :: nat) in
      if i = 10 then (0, - (int i + 1))
      else if b < 128
      then (if i = 9 \<and> b > 1 then (0, - (int i + 1)) else (x + b * 2 ^ s, int i + 1))
      else uvarint_loop (Suc i) (x + (b mod 128) * 2 ^ s) (s + 7) cs)"

definition Uvarint :: "bytes \<Rightarrow> nat \<times> int" where
  "Uvarint b = uvarint_loop 0 0 0 b"

text \<open>\<open>PutVarint\<close>: zig-zag, then \<open>PutUvarint\<close>.\<close>

definition zigzag :: "int \<Rightarrow> nat" where
  "zigzag x = (if x < 0 then nat (- 2 * x - 1) else nat (2 * x))"

definition PutVarint :: "int \<Rightarrow> bytes" where
  "PutVarint x = PutUvarint (zigzag x)"

section \<open>Value codec\<close>

abbreviation MaxPKListSize :: nat where "MaxPKListSize \<equiv> 2000"
abbreviation MaxPKByteLen :: nat where "MaxPKByteLen \<equiv> 512"
abbreviation MaxNextPageTokenLen :: nat where "MaxNextPageTokenLen \<equiv> 4096"

record payload =
  NextPageToken :: string
  PKs :: "string list"

datatype codec_err =
    PkListTooLong nat
  | TokenTooLong nat
  | EmptyValue
  | UnknownVersion nat
  | MalformedPkVarint
  | PkTooLong nat
  | TruncatedPk
  | MalformedTokenVarint
  | TruncatedToken

definition encodePayload :: "payload \<Rightarrow> codec_err + bytes" where
  "encodePayload p =
     (if length (PKs p) > MaxPKListSize then Inl (PkListTooLong (length (PKs p)))
      else if length (NextPageToken p) > MaxNextPageTokenLen
      then Inl (TokenTooLong (length (NextPageToken p)))
      else Inr (foldl (\<lambda>out pk. out @ PutUvarint (length pk) @ pk)
             (char_of (2 :: nat) # PutUvarint (length (NextPageToken p)) @ NextPageToken p) (PKs p)))"

lemma uvarint_loop_consumed:
  "uvarint_loop i x s b = (n, c) \<Longrightarrow> 0 < c \<Longrightarrow> int i < c \<and> c \<le> int i + int (length b)"
  by (induction i x s b rule: uvarint_loop.induct) (fastforce simp: Let_def split: if_splits)+

lemma Uvarint_consumed: "Uvarint b = (n, c) \<Longrightarrow> 0 < c \<Longrightarrow> c \<le> int (length b)"
  using uvarint_loop_consumed [of 0 0 0 b n c] by (simp add: Uvarint_def)

text \<open>The decoding loop; \<open>b\<close> is the unread suffix \<open>b[i:]\<close>.\<close>

function decode_pks :: "string list \<Rightarrow> bytes \<Rightarrow> codec_err + string list" where
  "decode_pks out b =
     (if b = [] then Inr out
      else case Uvarint b of (n, consumed) \<Rightarrow>
        if consumed \<le> 0 then Inl MalformedPkVarint
        else let b1 = drop (nat consumed) b in
          if n > MaxPKByteLen then Inl (PkTooLong n)
          else if n > length b1 then Inl TruncatedPk
          else let out1 = out @ [take n b1] in
            if length out1 > MaxPKListSize then Inl (PkListTooLong (length out1))
            else decode_pks out1 (drop n b1))"
  by pat_completeness auto
termination
  by (relation "measure (\<lambda>(out, b). length b)") (auto dest: Uvarint_consumed)

declare decode_pks.simps [simp del]

definition decodeV1PKList :: "bytes \<Rightarrow> codec_err + string list" where
  "decodeV1PKList b = decode_pks [] b"

definition decodeV2 :: "bytes \<Rightarrow> codec_err + payload" where
  "decodeV2 b =
     (case Uvarint b of (tokLen, consumed) \<Rightarrow>
        if consumed \<le> 0 then Inl MalformedTokenVarint
        else if tokLen > MaxNextPageTokenLen then Inl (TokenTooLong tokLen)
        else if nat consumed + tokLen > length b then Inl TruncatedToken
        else case decodeV1PKList (drop (nat consumed + tokLen) b) of
               Inl e \<Rightarrow> Inl e
             | Inr pks \<Rightarrow> Inr \<lparr>NextPageToken = take tokLen (drop (nat consumed) b), PKs = pks\<rparr>)"

definition decodePayload :: "bytes \<Rightarrow> codec_err + payload" where
  "decodePayload b =
     (case b of
        [] \<Rightarrow> Inl EmptyValue
      | v # rest \<Rightarrow>
          if v = char_of (1 :: nat) then
            (case decodeV1PKList rest of
               Inl e \<Rightarrow> Inl e
             | Inr pks \<Rightarrow> Inr \<lparr>NextPageToken = [], PKs = pks\<rparr>)
          else if v = char_of (2 :: nat) then decodeV2 rest
          else Inl (UnknownVersion (of_char v)))"

section \<open>The hash frame\<close>

text \<open>
  The arguments of \<open>Hash\<close>. A protobuf message is \<open>None\<close> when nil; \<open>marshal\<close> is
  \<open>proto.MarshalOptions{Deterministic: true}.Marshal\<close>.
\<close>

record 'm hash_args =
  h_entityID :: string
  h_filter :: "'m option"
  h_orders :: "'m list"
  h_limit :: int
  h_pageToken :: bytes
  h_fields :: "'m option"
  h_includes :: "int list"
  h_generation :: int

datatype 'e hash_err = HashFilter 'e | HashOrder nat 'e | HashFields 'e

definition writeSegmentBytes :: "bytes \<Rightarrow> bytes" where
  "writeSegmentBytes b = PutUvarint (length b) @ b"

definition writeSegmentString :: "string \<Rightarrow> bytes" where
  "writeSegmentString s = writeSegmentBytes s"

definition writeSegmentInt :: "int \<Rightarrow> bytes" where
  "writeSegmentInt v = PutVarint v"

definition writeSegmentProto :: "('m \<Rightarrow> 'e + bytes) \<Rightarrow> 'm option \<Rightarrow> 'e + bytes" where
  "writeSegmentProto marshal m =
     (case m of
        None \<Rightarrow> Inr (writeSegmentBytes [])
      | Some x \<Rightarrow> (case marshal x of Inl e \<Rightarrow> Inl e | Inr b \<Rightarrow> Inr (writeSegmentBytes b)))"

text \<open>\<open>sortInt32\<close> is the insertion-sort loop of \<open>Prelude\<close> on a copy of the slice.\<close>

definition sortInt32 :: "int list \<Rightarrow> int list" where
  "sortInt32 s = sort_loop s"

fun hash_orders :: "('m \<Rightarrow> 'e + bytes) \<Rightarrow> nat \<Rightarrow> 'm list \<Rightarrow> 'e hash_err + bytes" where
  "hash_orders marshal i [] = Inr []"
| "hash_orders marshal i (m # ms) =
     (case writeSegmentProto marshal (Some m) of
        Inl e \<Rightarrow> Inl (HashOrder i e)
      | Inr b \<Rightarrow> (case hash_orders marshal (Suc i) ms of Inl e \<Rightarrow> Inl e | Inr bs \<Rightarrow> Inr (b @ bs)))"

text \<open>The bytes written to the digest, in the order of the source.\<close>

definition hash_frame :: "('m \<Rightarrow> 'e + bytes) \<Rightarrow> 'm hash_args \<Rightarrow> 'e hash_err + bytes" where
  "hash_frame marshal a =
     (case writeSegmentProto marshal (h_filter a) of
        Inl e \<Rightarrow> Inl (HashFilter e)
      | Inr flt \<Rightarrow>
     (case hash_orders marshal 0 (h_orders a) of
        Inl e \<Rightarrow> Inl e
      | Inr ords \<Rightarrow>
     (case writeSegmentProto marshal (h_fields a) of
        Inl e \<Rightarrow> Inl (HashFields e)
      | Inr flds \<Rightarrow>
          Inr (writeSegmentString (h_entityID a) @ flt
             @ writeSegmentInt (int (length (h_orders a))) @ ords
             @ writeSegmentInt (h_limit a) @ writeSegmentBytes (h_pageToken a) @ flds
             @ writeSegmentInt (int (length (h_includes a)))
             @ concat (map writeSegmentInt (sortInt32 (h_includes a)))
             @ writeSegmentInt (h_generation a)))))"

text \<open>\<open>base64.RawURLEncoding\<close> of a byte string.\<close>

definition b64_alphabet :: string where
  "b64_alphabet = ''ABCDEFGHIJKLMNOPQRSTUVWXYZabcdefghijklmnopqrstuvwxyz0123456789-_''"

fun b64url :: "bytes \<Rightarrow> string" where
  "b64url [] = []"
| "b64url [a] =
     (let n = of_char a * 65536 in [b64_alphabet ! (n div 262144), b64_alphabet ! (n div 4096 mod 64)])"
| "b64url [a, b] =
     (let n = of_char a * 65536 + of_char b * 256 in
      [b64_alphabet ! (n div 262144), b64_alphabet ! (n div 4096 mod 64), b64_alphabet ! (n div 64 mod 64)])"
| "b64url (a # b # c # r) =
     (let n = of_char a * 65536 + of_char b * 256 + of_char c in
      [b64_alphabet ! (n div 262144), b64_alphabet ! (n div 4096 mod 64),
       b64_alphabet ! (n div 64 mod 64), b64_alphabet ! (n mod 64)] @ b64url r)"

text \<open>\<open>Hash\<close>; \<open>sha256\<close> is the digest.\<close>

definition Hash :: "(bytes \<Rightarrow> bytes) \<Rightarrow> ('m \<Rightarrow> 'e + bytes) \<Rightarrow> 'm hash_args \<Rightarrow> 'e hash_err + string" where
  "Hash sha256 marshal a =
     (case hash_frame marshal a of Inl e \<Rightarrow> Inl e | Inr f \<Rightarrow> Inr (b64url (take 16 (sha256 f))))"

section \<open>Lemmas\<close>

lemma of_char_mod [simp]: "n < 256 \<Longrightarrow> of_char (char_of (n :: nat)) = n"
  by (simp add: of_char_of)

lemma uvarint_loop_Put:
  assumes "x < 2 ^ (64 - 7 * i)" and "i < 10"
  shows "uvarint_loop i a (7 * i) (PutUvarint x @ r) = (a + x * 2 ^ (7 * i), int (i + length (PutUvarint x)))"
  using assms
proof (induction x arbitrary: i a rule: PutUvarint.induct)
  case (1 x)
  show ?case
  proof (cases "x \<ge> 128")
    case False
    moreover have "\<not> (i = 9 \<and> x > 1)" using "1.prems" by auto
    ultimately show ?thesis using "1.prems" by (auto simp: PutUvarint.simps [of x] Let_def)
  next
    case True
    have i: "i < 9" using True "1.prems" by (cases "i = 9") auto
    have lt: "x div 128 < 2 ^ (64 - 7 * Suc i)"
    proof -
      have e: "64 - 7 * i = 7 + (64 - 7 * Suc i)" using i by simp
      have "x < 2 ^ (7 + (64 - 7 * Suc i))" using "1.prems"(1) by (simp only: e [symmetric])
      then have "x < 128 * 2 ^ (64 - 7 * Suc i)" by (simp only: power_add) simp
      then show ?thesis by (simp add: div_less_iff_less_mult mult.commute)
    qed
    have s: "7 * i + 7 = 7 * Suc i" by simp
    have m: "(x mod 128 + 128) mod 128 = x mod 128" "x mod 128 + 128 < 256" by simp_all
    have "a + x mod 128 * 2 ^ (7 * i) + x div 128 * 2 ^ (7 * Suc i) = a + x * 2 ^ (7 * i)"
    proof -
      have "x mod 128 * 2 ^ (7 * i) + x div 128 * 2 ^ (7 * Suc i) = (x mod 128 + 128 * (x div 128)) * 2 ^ (7 * i)"
        unfolding distrib_right by (simp add: power_add)
      then show ?thesis by simp
    qed
    with "1.IH" [OF True lt] i m s show ?thesis
      by (simp add: PutUvarint.simps [of x] True Let_def add.commute [of _ 7])
  qed
qed

lemma Uvarint_Put [simp]:
  "x < 2 ^ 64 \<Longrightarrow> Uvarint (PutUvarint x @ r) = (x, int (length (PutUvarint x)))"
  using uvarint_loop_Put [of x 0 0 r] by (simp add: Uvarint_def)

lemma PutUvarint_not_Nil [simp]: "PutUvarint x \<noteq> []"
  by (subst PutUvarint.simps) simp

lemma PutUvarint_prefix: "PutUvarint x @ r = PutUvarint y @ r' \<Longrightarrow> x = y \<and> r = r'"
proof (induction x arbitrary: y rule: PutUvarint.induct)
  case (1 x)
  have c: "char_of (m :: nat) = char_of n \<longleftrightarrow> m = n" if "m < 256" "n < 256" for m n
    using that by (auto dest: arg_cong [where f = "of_char :: char \<Rightarrow> nat"])
  show ?case
  proof (cases "x \<ge> 128"; cases "y \<ge> 128")
    assume x: "x \<ge> 128" and y: "y \<ge> 128"
    with "1.prems" have "x mod 128 = y mod 128" "PutUvarint (x div 128) @ r = PutUvarint (y div 128) @ r'"
      by (simp_all add: PutUvarint.simps [of x] PutUvarint.simps [of y] c)
    with "1.IH" [OF x] show ?thesis by (metis div_mult_mod_eq)
  next
    assume "x \<ge> 128" and "\<not> y \<ge> 128"
    with "1.prems" show ?thesis
      by (simp add: PutUvarint.simps [of x] PutUvarint.simps [of y] c)
  next
    assume "\<not> x \<ge> 128" and "y \<ge> 128"
    with "1.prems" show ?thesis
      by (simp add: PutUvarint.simps [of x] PutUvarint.simps [of y] c)
  next
    assume "\<not> x \<ge> 128" and "\<not> y \<ge> 128"
    with "1.prems" show ?thesis
      by (simp add: PutUvarint.simps [of x] PutUvarint.simps [of y] c)
  qed
qed

lemma zigzag_inj: "zigzag x = zigzag y \<Longrightarrow> x = y"
  by (cases "x < 0"; cases "y < 0"; simp add: zigzag_def nat_eq_iff2; presburger)

lemma PutVarint_prefix: "PutVarint x @ r = PutVarint y @ r' \<Longrightarrow> x = y \<and> r = r'"
  using PutUvarint_prefix [of "zigzag x" r "zigzag y" r'] zigzag_inj by (simp add: PutVarint_def)

lemma encode_loop:
  "foldl (\<lambda>out pk. out @ PutUvarint (length pk) @ pk) b pks = b @ concat (map writeSegmentBytes pks)"
  by (induction pks arbitrary: b) (auto simp: writeSegmentBytes_def)

text \<open>Decoding a run of length-prefixed keys stops at the first key that is too long.\<close>

lemma decode_pks_frames:
  assumes "\<forall>pk \<in> set pks. length pk < 2 ^ 63" and "length out + length pks \<le> MaxPKListSize"
  shows "decode_pks out (concat (map writeSegmentBytes pks)) =
    (case find (\<lambda>pk. length pk > MaxPKByteLen) pks of None \<Rightarrow> Inr (out @ pks) | Some pk \<Rightarrow> Inl (PkTooLong (length pk)))"
  using assms
proof (induction pks arbitrary: out)
  case Nil
  then show ?case by (simp add: decode_pks.simps)
next
  case (Cons pk pks)
  have U: "Uvarint (PutUvarint (length pk) @ r) = (length pk, int (length (PutUvarint (length pk))))" for r
    using Cons.prems(1) by (intro Uvarint_Put) auto
  have "decode_pks (out @ [pk]) (concat (map writeSegmentBytes pks)) =
    (case find (\<lambda>pk. length pk > MaxPKByteLen) pks of None \<Rightarrow> Inr (out @ pk # pks) | Some pk \<Rightarrow> Inl (PkTooLong (length pk)))"
    using Cons.IH [of "out @ [pk]"] Cons.prems by (simp split: option.splits)
  then show ?case
    using Cons.prems(2)
    by (subst decode_pks.simps) (simp add: writeSegmentBytes_def U Let_def split: option.splits)
qed

lemma decode_pks_bounds:
  "decode_pks out b = Inr pks \<Longrightarrow>
   length out \<le> MaxPKListSize \<Longrightarrow> \<forall>pk \<in> set out. length pk \<le> MaxPKByteLen \<Longrightarrow>
   length pks \<le> MaxPKListSize \<and> (\<forall>pk \<in> set pks. length pk \<le> MaxPKByteLen)
   \<and> sum_list (map length pks) \<le> sum_list (map length out) + length b"
proof (induction out b rule: decode_pks.induct)
  case (1 out b)
  show ?case
  proof (cases "b = []")
    case True
    with "1.prems" show ?thesis by (simp add: decode_pks.simps)
  next
    case False
    obtain n c where U: "Uvarint b = (n, c)" by (cases "Uvarint b")
    let ?b1 = "drop (nat c) b"
    from "1.prems"(1) False U have *: "0 < c" "n \<le> MaxPKByteLen" "n \<le> length ?b1"
      "length (out @ [take n ?b1]) \<le> MaxPKListSize"
      "decode_pks (out @ [take n ?b1]) (drop n ?b1) = Inr pks"
      by (subst (asm) decode_pks.simps; auto simp: Let_def not_less split: if_splits)+
    have "length pks \<le> MaxPKListSize \<and> (\<forall>pk \<in> set pks. length pk \<le> MaxPKByteLen)
      \<and> sum_list (map length pks) \<le> sum_list (map length (out @ [take n ?b1])) + length (drop n ?b1)"
      by (rule "1.IH" [OF False U [symmetric] _ refl _ _ refl]) (use * "1.prems"(3) in auto)
    moreover have "length (take n ?b1) + length (drop n ?b1) \<le> length b" using *(3) by simp
    ultimately show ?thesis by simp
  qed
qed

lemma segment_prefix: "writeSegmentBytes x @ r = writeSegmentBytes y @ r' \<Longrightarrow> x = y \<and> r = r'"
  by (auto simp: writeSegmentBytes_def dest!: PutUvarint_prefix [of "length x" "x @ r"])

text \<open>The marshalled bytes of a message; a nil message contributes none.\<close>

definition proto_bytes :: "('m \<Rightarrow> 'e + bytes) \<Rightarrow> 'm option \<Rightarrow> 'e + bytes" where
  "proto_bytes marshal m = (case m of None \<Rightarrow> Inr [] | Some x \<Rightarrow> marshal x)"

lemma writeSegmentProto_Inr:
  "writeSegmentProto marshal m = Inr s \<longleftrightarrow> (\<exists>b. proto_bytes marshal m = Inr b \<and> s = writeSegmentBytes b)"
  by (auto simp: writeSegmentProto_def proto_bytes_def split: option.splits sum.splits)

lemma hash_orders_Inr:
  "hash_orders marshal i ms = Inr s \<Longrightarrow>
   \<exists>bs. map marshal ms = map Inr bs \<and> s = concat (map writeSegmentBytes bs)"
proof (induction marshal i ms arbitrary: s rule: hash_orders.induct)
  case (2 marshal i m ms)
  then obtain b t where "marshal m = Inr b" "hash_orders marshal (Suc i) ms = Inr t"
    "s = writeSegmentBytes b @ t"
    by (auto simp: writeSegmentProto_def split: sum.splits)
  with 2 show ?case by (force simp: writeSegmentProto_def intro: exI [of _ "b # _"])
qed simp

lemma segments_prefix:
  "concat (map writeSegmentBytes xs) @ r = concat (map writeSegmentBytes ys) @ r' \<Longrightarrow>
   length xs = length ys \<Longrightarrow> xs = ys \<and> r = r'"
  by (induction xs ys rule: list_induct2') (auto dest: segment_prefix)

lemma varints_prefix:
  "concat (map PutVarint xs) @ r = concat (map PutVarint ys) @ r' \<Longrightarrow>
   length xs = length ys \<Longrightarrow> xs = ys \<and> r = r'"
  by (induction xs ys rule: list_induct2') (auto dest: PutVarint_prefix)

text \<open>The frame as a function of the marshalled bytes of its parts.\<close>

definition frame_of :: "string \<Rightarrow> bytes \<Rightarrow> bytes list \<Rightarrow> int \<Rightarrow> bytes \<Rightarrow> bytes \<Rightarrow> int list \<Rightarrow> int \<Rightarrow> bytes" where
  "frame_of e flt ords lim tok flds incs gen =
     writeSegmentBytes e @ writeSegmentBytes flt @ PutVarint (int (length ords))
     @ concat (map writeSegmentBytes ords) @ PutVarint lim @ writeSegmentBytes tok
     @ writeSegmentBytes flds @ PutVarint (int (length incs)) @ concat (map PutVarint incs)
     @ PutVarint gen"

lemma frame_of_inj:
  assumes "frame_of e flt ords lim tok flds incs gen = frame_of e' flt' ords' lim' tok' flds' incs' gen'"
  shows "e = e' \<and> flt = flt' \<and> ords = ords' \<and> lim = lim' \<and> tok = tok' \<and> flds = flds' \<and> incs = incs' \<and> gen = gen'"
proof -
  from assms have 1: "e = e' \<and> flt = flt' \<and> length ords = length ords'"
    and 2: "concat (map writeSegmentBytes ords) @ PutVarint lim @ writeSegmentBytes tok
     @ writeSegmentBytes flds @ PutVarint (int (length incs)) @ concat (map PutVarint incs) @ PutVarint gen =
     concat (map writeSegmentBytes ords') @ PutVarint lim' @ writeSegmentBytes tok'
     @ writeSegmentBytes flds' @ PutVarint (int (length incs')) @ concat (map PutVarint incs') @ PutVarint gen'"
    unfolding frame_of_def by (auto dest!: segment_prefix PutVarint_prefix)
  from segments_prefix [OF 2] 1 have 3: "ords = ords' \<and> lim = lim' \<and> tok = tok' \<and> flds = flds' \<and> length incs = length incs'"
    and 4: "concat (map PutVarint incs) @ PutVarint gen = concat (map PutVarint incs') @ PutVarint gen'"
    by (auto dest!: segment_prefix PutVarint_prefix)
  have "incs = incs' \<and> PutVarint gen @ [] = PutVarint gen' @ []"
    using varints_prefix [OF 4] 3 by simp
  moreover from this have "gen = gen'" using PutVarint_prefix by blast
  ultimately show ?thesis using 1 3 by simp
qed

lemma frame_of_eq_iff:
  "frame_of e flt ords lim tok flds incs gen = frame_of e' flt' ords' lim' tok' flds' incs' gen' \<longleftrightarrow>
   e = e' \<and> flt = flt' \<and> ords = ords' \<and> lim = lim' \<and> tok = tok' \<and> flds = flds' \<and> incs = incs' \<and> gen = gen'"
  by (rule iffI, erule frame_of_inj) simp

lemma hash_frame_Inr:
  "hash_frame marshal a = Inr f \<Longrightarrow>
   \<exists>flt ords flds. proto_bytes marshal (h_filter a) = Inr flt \<and> map marshal (h_orders a) = map Inr ords
     \<and> proto_bytes marshal (h_fields a) = Inr flds
     \<and> f = frame_of (h_entityID a) flt ords (h_limit a) (h_pageToken a) flds (sort (h_includes a)) (h_generation a)"
proof -
  assume "hash_frame marshal a = Inr f"
  then obtain sf so sd where 1: "writeSegmentProto marshal (h_filter a) = Inr sf"
    "hash_orders marshal 0 (h_orders a) = Inr so" "writeSegmentProto marshal (h_fields a) = Inr sd"
    and f: "f = writeSegmentBytes (h_entityID a) @ sf @ PutVarint (int (length (h_orders a))) @ so
      @ PutVarint (h_limit a) @ writeSegmentBytes (h_pageToken a) @ sd
      @ PutVarint (int (length (h_includes a))) @ concat (map PutVarint (sort (h_includes a)))
      @ PutVarint (h_generation a)"
    by (auto simp: hash_frame_def writeSegmentString_def writeSegmentInt_def [abs_def]
        sortInt32_def sort_loop_eq_sort split: sum.splits)
  obtain ords where o: "map marshal (h_orders a) = map Inr ords" "so = concat (map writeSegmentBytes ords)"
    using hash_orders_Inr [OF 1(2)] by blast
  have "length (h_orders a) = length ords" using o(1) by (metis length_map)
  with 1 o f show ?thesis by (auto simp: writeSegmentProto_Inr frame_of_def)
qed

section \<open>Properties\<close>

lemma decode_encodePayload:
  assumes "encodePayload p = Inr b" and "\<forall>pk \<in> set (PKs p). length pk < 2 ^ 63"
  shows "decodePayload b =
    (case find (\<lambda>pk. length pk > MaxPKByteLen) (PKs p) of
       None \<Rightarrow> Inr p
     | Some pk \<Rightarrow> Inl (PkTooLong (length pk)))"
proof -
  let ?tok = "NextPageToken p" and ?r = "concat (map writeSegmentBytes (PKs p))"
  from assms(1) have b: "b = char_of (2 :: nat) # PutUvarint (length ?tok) @ ?tok @ ?r"
    and len: "length (PKs p) \<le> MaxPKListSize" "length ?tok \<le> MaxNextPageTokenLen"
    by (auto simp: encodePayload_def encode_loop split: if_splits)
  have U: "Uvarint (PutUvarint (length ?tok) @ ?tok @ ?r) = (length ?tok, int (length (PutUvarint (length ?tok))))"
    using len(2) by (intro Uvarint_Put) simp
  have "decodePayload b = decodeV2 (PutUvarint (length ?tok) @ ?tok @ ?r)"
    by (simp add: b decodePayload_def)
  also have "\<dots> = (case decodeV1PKList ?r of Inl e \<Rightarrow> Inl e
      | Inr pks \<Rightarrow> Inr \<lparr>NextPageToken = ?tok, PKs = pks\<rparr>)"
    using len(2) by (simp add: decodeV2_def U split: sum.splits)
  finally show ?thesis
    using decode_pks_frames [of "PKs p" "[]"] assms(2) len(1)
    by (auto simp: decodeV1PKList_def split: option.splits)
qed

text \<open>
  C8: what \<open>encodePayload\<close> accepts is decoded to the same token and primary keys, unless
  some key is longer than \<open>MaxPKByteLen\<close>: the encoder does not check that bound and
  the decoder then rejects the value it wrote.
\<close>

theorem payload_roundtrip:
  assumes "encodePayload p = Inr b" and "\<forall>pk \<in> set (PKs p). length pk < 2 ^ 63"
  shows "decodePayload b =
    (case find (\<lambda>pk. length pk > MaxPKByteLen) (PKs p) of
       None \<Rightarrow> Inr p
     | Some pk \<Rightarrow> Inl (PkTooLong (length pk)))"
  using assms by (rule decode_encodePayload)

theorem payload_roundtrip_witness:
  "\<exists>b. encodePayload \<lparr>NextPageToken = ''tok'', PKs = [''1:7'', ''2:42'']\<rparr> = Inr b
    \<and> decodePayload b = Inr \<lparr>NextPageToken = ''tok'', PKs = [''1:7'', ''2:42'']\<rparr>"
  using payload_roundtrip [of "\<lparr>NextPageToken = ''tok'', PKs = [''1:7'', ''2:42'']\<rparr>"]
  by (simp add: encodePayload_def)

text \<open>
  C14: whatever bytes memcached returns, the decoder is total and an accepted value stays
  within the advertised caps: at most \<open>MaxPKListSize\<close> keys, none over
  \<open>MaxPKByteLen\<close> bytes, a token within \<open>MaxNextPageTokenLen\<close>, and no more payload
  bytes than the input had.
\<close>

theorem decodePayload_bounds:
  assumes "decodePayload b = Inr p"
  shows "length (PKs p) \<le> MaxPKListSize \<and> (\<forall>pk \<in> set (PKs p). length pk \<le> MaxPKByteLen)
    \<and> length (NextPageToken p) \<le> MaxNextPageTokenLen
    \<and> length (NextPageToken p) + sum_list (map length (PKs p)) < length b"
proof -
  obtain v rest where b: "b = v # rest" using assms by (cases b) (auto simp: decodePayload_def)
  have pks: "length pks \<le> MaxPKListSize \<and> (\<forall>pk \<in> set pks. length pk \<le> MaxPKByteLen)
      \<and> sum_list (map length pks) \<le> length r" if "decodeV1PKList r = Inr pks" for r pks
    using decode_pks_bounds [of "[]" r pks] that by (simp add: decodeV1PKList_def)
  show ?thesis
  proof (cases "v = char_of (1 :: nat)")
    case True
    with assms b pks [of rest "PKs p"] show ?thesis
      by (auto simp: decodePayload_def split: sum.splits)
  next
    case False
    with assms b have "decodeV2 rest = Inr p" by (auto simp: decodePayload_def split: if_splits)
    moreover obtain n c where U: "Uvarint rest = (n, c)" by (cases "Uvarint rest")
    ultimately have *: "0 < c" "n \<le> MaxNextPageTokenLen" "nat c + n \<le> length rest"
      "decodeV1PKList (drop (nat c + n) rest) = Inr (PKs p)" "NextPageToken p = take n (drop (nat c) rest)"
      by (auto simp: decodeV2_def not_le split: if_splits sum.splits)
    from pks [OF *(4)] * b show ?thesis by auto
  qed
qed

theorem decodePayload_bounds_witness:
  "length (PKs \<lparr>NextPageToken = [], PKs = [''ab'']\<rparr>) \<le> MaxPKListSize
    \<and> decodePayload [char_of (1 :: nat), char_of (2 :: nat), CHR ''a'', CHR ''b'']
        = Inr \<lparr>NextPageToken = [], PKs = [''ab'']\<rparr>"
proof -
  have d: "decodePayload [char_of (1 :: nat), char_of (2 :: nat), CHR ''a'', CHR ''b'']
        = Inr \<lparr>NextPageToken = [], PKs = [''ab'']\<rparr>"
    by code_simp
  show ?thesis using decodePayload_bounds [OF d] d by blast
qed

lemma hash_frame_eq_iff:
  assumes "hash_frame marshal a = Inr f" and "hash_frame marshal b = Inr g"
  shows "f = g \<longleftrightarrow> h_entityID a = h_entityID b
    \<and> proto_bytes marshal (h_filter a) = proto_bytes marshal (h_filter b)
    \<and> map marshal (h_orders a) = map marshal (h_orders b)
    \<and> h_limit a = h_limit b \<and> h_pageToken a = h_pageToken b
    \<and> proto_bytes marshal (h_fields a) = proto_bytes marshal (h_fields b)
    \<and> mset (h_includes a) = mset (h_includes b) \<and> h_generation a = h_generation b"
proof -
  have inj: "map Inr xs = (map Inr ys :: ('b + bytes) list) \<longleftrightarrow> xs = ys" for xs ys
    by (auto dest: map_injective)
  have ms: "sort (h_includes a) = sort (h_includes b) \<longleftrightarrow> mset (h_includes a) = mset (h_includes b)"
    by (metis mset_sort properties_for_sort sorted_sort)
  obtain flt ords flds where A:
    "proto_bytes marshal (h_filter a) = Inr flt" "map marshal (h_orders a) = map Inr ords"
    "proto_bytes marshal (h_fields a) = Inr flds"
    "f = frame_of (h_entityID a) flt ords (h_limit a) (h_pageToken a) flds (sort (h_includes a)) (h_generation a)"
    using hash_frame_Inr [OF assms(1)] by auto
  obtain flt' ords' flds' where B:
    "proto_bytes marshal (h_filter b) = Inr flt'" "map marshal (h_orders b) = map Inr ords'"
    "proto_bytes marshal (h_fields b) = Inr flds'"
    "g = frame_of (h_entityID b) flt' ords' (h_limit b) (h_pageToken b) flds' (sort (h_includes b)) (h_generation b)"
    using hash_frame_Inr [OF assms(2)] by auto
  show ?thesis unfolding A B inj frame_of_eq_iff ms by auto
qed

lemma frames_generation:
  assumes "hash_frame marshal (a\<lparr>h_generation := i\<rparr>) = Inr f" and "hash_frame marshal (a\<lparr>h_generation := j\<rparr>) = Inr g"
  shows "f = g \<longleftrightarrow> i = j"
  unfolding hash_frame_eq_iff [OF assms] by simp



end
