(* ===== verification/Contracts.thy ===== *)
theory Contracts
  imports Prelude
begin

text \<open>
  The Go interfaces through which the packages use each other, as locales: the methods the
  client calls, and the laws the client relies on. Each is interpreted in the theory of the
  package that implements it, and its client lemmas are proved once, inside it.
\<close>

text \<open>
  \<open>invalidate.VersionSetter\<close> together with the reader's \<open>CurrentVersion\<close>: a write of
  a version pointer is refused unless the guard read a strictly smaller pointer first.
\<close>

locale version_setter =
  fixes set_version :: "string \<Rightarrow> string \<Rightarrow> int \<Rightarrow> duration \<Rightarrow> 's \<Rightarrow> ('e + unit) \<times> 's"
    and is_stale :: "'e \<Rightarrow> bool"
    and current :: "string \<Rightarrow> string \<Rightarrow> 's \<Rightarrow> ('e + int) \<times> 's"
  assumes refuse_nonpositive:
      "v \<le> 0 \<Longrightarrow> \<exists>e. set_version ent rid v ttl s = (Inl e, s) \<and> \<not> is_stale e"
    and stale_read:
      "set_version ent rid v ttl s = (Inl e, s') \<Longrightarrow> is_stale e
        \<Longrightarrow> \<exists>c. current ent rid s = (Inr c, s') \<and> v \<le> c"
    and accepted_read:
      "set_version ent rid v ttl s = (Inr u, s') \<Longrightarrow> \<exists>c s1. current ent rid s = (Inr c, s1) \<and> c < v"
    and current_range:
      "current ent rid s = (Inr c, s') \<Longrightarrow> 0 \<le> c \<and> c \<le> 2 ^ 40"
begin

lemma settled_positive:
  assumes "set_version ent rid v ttl s = (r, s')" and "case r of Inl e \<Rightarrow> is_stale e | Inr _ \<Rightarrow> True"
  shows "0 < v"
proof (rule ccontr)
  assume "\<not> 0 < v"
  then obtain e where "set_version ent rid v ttl s = (Inl e, s)" "\<not> is_stale e"
    using refuse_nonpositive [of v] by (metis linorder_not_less)
  with assms show False by auto
qed

lemma settled_read:
  assumes "set_version ent rid v ttl s = (r, s')" and "case r of Inl e \<Rightarrow> is_stale e | Inr _ \<Rightarrow> True"
  shows "\<exists>c s1. current ent rid s = (Inr c, s1) \<and> (r = Inr () \<longrightarrow> c < v) \<and> (r \<noteq> Inr () \<longrightarrow> v \<le> c \<and> s1 = s')"
  using assms stale_read accepted_read by (cases r) (metis Inl_Inr_False sum.simps(5), auto)

lemma stale_bounded:
  assumes "set_version ent rid v ttl s = (Inl e, s')" and "is_stale e"
  shows "v \<le> 2 ^ 40"
  using stale_read [OF assms] current_range by force

end

text \<open>
  \<open>read.PointerCache\<close> (a subset of \<open>runtime.Cache\<close>): a version that was read is 0 for "no
  pointer" or a plausible positive one, and a missing pointer is not reported as an error.
\<close>

locale pointer_cache =
  fixes current_version :: "string \<Rightarrow> string \<Rightarrow> 's \<Rightarrow> ('e + int) \<times> 's"
    and is_miss :: "'e \<Rightarrow> bool"
  assumes version_range: "current_version ent rid s = (Inr c, s') \<Longrightarrow> 0 \<le> c \<and> c \<le> 2 ^ 40"
    and version_not_miss: "current_version ent rid s = (Inl e, s') \<Longrightarrow> \<not> is_miss e"
begin

text \<open>The version a refill stores a body under: the pointer, or 1 without one.\<close>

definition refill_version :: "string \<Rightarrow> string \<Rightarrow> 's \<Rightarrow> int" where
  "refill_version ent rid s =
     (let v = (case fst (current_version ent rid s) of Inl _ \<Rightarrow> 0 | Inr v \<Rightarrow> v) in if v = 0 then 1 else v)"

lemma refill_version_range: "1 \<le> refill_version ent rid s \<and> refill_version ent rid s \<le> 2 ^ 40"
  using version_range [of ent rid s] by (cases "current_version ent rid s") (auto simp: refill_version_def split: sum.splits)

end

end
