(* ===== verification/Memcached.thy ===== *)
theory Memcached
  imports QueryCodec Contracts
begin

text \<open>
  \<open>internal/cache/memcached/client.go\<close>: the context-aware wrapper around the gomemcache
  client, with the monotonic guard on version pointers and the generation counters.

  The gomemcache client and the server behind it are not part of the repository: they are the
  record \<open>memcache\<close> of operations on an arbitrary state \<open>'s\<close>, an argument of every
  definition. The context is read from the same state, so that it can expire between two
  calls. \<open>exact_server\<close> states what the memcached protocol promises of the operations
  that report success, for a run in which no entry expires or is evicted.
\<close>

section \<open>The gomemcache client\<close>

datatype server_err = SCacheMiss | SNotStored | SOther nat

record item =
  Key :: string
  Value :: bytes
  Expiration :: int

record 's memcache =
  ctx_Err :: "'s \<Rightarrow> nat option"
  mc_Get :: "string \<Rightarrow> 's \<Rightarrow> (server_err + item) \<times> 's"
  mc_GetMulti :: "string list \<Rightarrow> 's \<Rightarrow> (server_err + (string \<times> item) list) \<times> 's"
  mc_Set :: "item \<Rightarrow> 's \<Rightarrow> (server_err + unit) \<times> 's"
  mc_Add :: "item \<Rightarrow> 's \<Rightarrow> (server_err + unit) \<times> 's"
  mc_Delete :: "string \<Rightarrow> 's \<Rightarrow> (server_err + unit) \<times> 's"
  mc_Increment :: "string \<Rightarrow> nat \<Rightarrow> 's \<Rightarrow> (server_err + nat) \<times> 's"

section \<open>The wrapper\<close>

datatype mc_err =
    CtxErr nat
  | ErrCacheMiss
  | Server server_err
  | CorruptPointer parse_err
  | ImplausibleVersion int
  | NonPositiveVersion int
  | GuardRead mc_err
  | ErrStaleVersion
  | CorruptCounter parse_err
  | ImplausibleCounter int

datatype new_err = NoAddresses

record config =
  Addrs :: "string list"
  Timeout :: duration
  MaxIdleConns :: int

definition DefaultConfig :: "string list \<Rightarrow> config" where
  "DefaultConfig addrs = \<lparr>Addrs = addrs, Timeout = 100 * millisecond, MaxIdleConns = 8\<rparr>"

text \<open>
  \<open>New\<close>: the connection settings the client ends up with, over the defaults
  \<open>dflt\<close> that gomemcache's constructor sets.
\<close>

definition New :: "duration \<times> int \<Rightarrow> config \<Rightarrow> new_err + config" where
  "New dflt cfg =
     (if length (Addrs cfg) = 0 then Inl NoAddresses
      else Inr \<lparr>Addrs = Addrs cfg,
                Timeout = (if Timeout cfg > 0 then Timeout cfg else fst dflt),
                MaxIdleConns = (if MaxIdleConns cfg > 0 then MaxIdleConns cfg else snd dflt)\<rparr>)"

definition thirtyDays :: duration where "thirtyDays = 30 * 24 * hour"

definition ttlToExpiration :: "duration \<Rightarrow> int" where
  "ttlToExpiration ttl =
     (if ttl \<le> 0 then 0
      else let ttl = (if ttl > thirtyDays then thirtyDays else ttl) in ttl div second)"

definition Client_Get :: "'s memcache \<Rightarrow> string \<Rightarrow> 's \<Rightarrow> (mc_err + bytes) \<times> 's" where
  "Client_Get mc key s =
     (case ctx_Err mc s of
        Some e \<Rightarrow> (Inl (CtxErr e), s)
      | None \<Rightarrow>
          (case mc_Get mc key s of
             (Inl e, s1) \<Rightarrow> (Inl (if e = SCacheMiss then ErrCacheMiss else Server e), s1)
           | (Inr it, s1) \<Rightarrow> (Inr (Value it), s1)))"

definition Client_GetMulti ::
  "'s memcache \<Rightarrow> string list \<Rightarrow> 's \<Rightarrow> (mc_err + (string \<rightharpoonup> bytes)) \<times> 's" where
  "Client_GetMulti mc keys s =
     (case ctx_Err mc s of
        Some e \<Rightarrow> (Inl (CtxErr e), s)
      | None \<Rightarrow>
          (case mc_GetMulti mc keys s of
             (Inl e, s1) \<Rightarrow> (Inl (Server e), s1)
           | (Inr items, s1) \<Rightarrow> (Inr (foldl (\<lambda>out (k, it). out(k \<mapsto> Value it)) Map.empty items), s1)))"

definition Client_Set ::
  "'s memcache \<Rightarrow> string \<Rightarrow> bytes \<Rightarrow> duration \<Rightarrow> 's \<Rightarrow> (mc_err + unit) \<times> 's" where
  "Client_Set mc key v ttl s =
     (case ctx_Err mc s of
        Some e \<Rightarrow> (Inl (CtxErr e), s)
      | None \<Rightarrow>
          (case mc_Set mc \<lparr>Key = key, Value = v, Expiration = ttlToExpiration ttl\<rparr> s of
             (Inl e, s1) \<Rightarrow> (Inl (Server e), s1)
           | (Inr u, s1) \<Rightarrow> (Inr u, s1)))"

definition Client_Delete :: "'s memcache \<Rightarrow> string \<Rightarrow> 's \<Rightarrow> (mc_err + unit) \<times> 's" where
  "Client_Delete mc key s =
     (case ctx_Err mc s of
        Some e \<Rightarrow> (Inl (CtxErr e), s)
      | None \<Rightarrow>
          (case mc_Delete mc key s of
             (Inl e, s1) \<Rightarrow> (if e \<noteq> SCacheMiss then Inl (Server e) else Inr (), s1)
           | (Inr u, s1) \<Rightarrow> (Inr (), s1)))"

definition CurrentVersion ::
  "'s memcache \<Rightarrow> string \<Rightarrow> string \<Rightarrow> 's \<Rightarrow> (mc_err + int) \<times> 's" where
  "CurrentVersion mc entity rid s =
     (case Client_Get mc (PointerKey entity rid) s of
        (Inl e, s1) \<Rightarrow> (if e = ErrCacheMiss then Inr 0 else Inl e, s1)
      | (Inr val, s1) \<Rightarrow>
          ((case parseInt64 val of
              Inl pe \<Rightarrow> Inl (CorruptPointer pe)
            | Inr v \<Rightarrow> if v \<le> 0 \<or> v > 2 ^ 40 then Inl (ImplausibleVersion v) else Inr v), s1))"

definition SetVersion ::
  "'s memcache \<Rightarrow> string \<Rightarrow> string \<Rightarrow> int \<Rightarrow> duration \<Rightarrow> 's \<Rightarrow> (mc_err + unit) \<times> 's" where
  "SetVersion mc entity rid version ttl s =
     (if version \<le> 0 then (Inl (NonPositiveVersion version), s)
      else case CurrentVersion mc entity rid s of
             (Inl e, s1) \<Rightarrow> (Inl (GuardRead e), s1)
           | (Inr cur, s1) \<Rightarrow>
               if cur \<ge> version then (Inl ErrStaleVersion, s1)
               else Client_Set mc (PointerKey entity rid) (formatInt64 version) ttl s1)"

text \<open>
  \<open>errors.Is\<close> unwraps: an error wrapped with \<open>\%w\<close> is stale when the inner one is.
\<close>

fun IsStale :: "mc_err \<Rightarrow> bool" where
  "IsStale ErrStaleVersion = True"
| "IsStale (GuardRead e) = IsStale e"
| "IsStale _ = False"

definition Increment ::
  "'s memcache \<Rightarrow> string \<Rightarrow> nat \<Rightarrow> 's \<Rightarrow> (mc_err + int) \<times> 's" where
  "Increment mc key delta s =
     (let ret = (\<lambda>n :: nat. if n > 2 ^ 62 then Inl (ImplausibleCounter (int n)) else Inr (wrap64 (int n)))
      in case ctx_Err mc s of
           Some e \<Rightarrow> (Inl (CtxErr e), s)
         | None \<Rightarrow>
             (case mc_Increment mc key delta s of
                (Inr n, s1) \<Rightarrow> (ret n, s1)
              | (Inl e, s1) \<Rightarrow>
                  if e \<noteq> SCacheMiss then (Inl (Server e), s1)
                  else case mc_Add mc \<lparr>Key = key, Value = formatInt64 (wrap64 (int delta)),
                                       Expiration = ttlToExpiration thirtyDays\<rparr> s1 of
                         (Inr _, s2) \<Rightarrow> (Inr (wrap64 (int delta)), s2)
                       | (Inl e, s2) \<Rightarrow>
                           if e \<noteq> SNotStored then (Inl (Server e), s2)
                           else case mc_Increment mc key delta s2 of
                                  (Inl e, s3) \<Rightarrow> (Inl (Server e), s3)
                                | (Inr n, s3) \<Rightarrow> (ret n, s3)))"

definition CounterValue :: "'s memcache \<Rightarrow> string \<Rightarrow> 's \<Rightarrow> (mc_err + int) \<times> 's" where
  "CounterValue mc key s =
     (case ctx_Err mc s of
        Some e \<Rightarrow> (Inl (CtxErr e), s)
      | None \<Rightarrow>
          (case mc_Get mc key s of
             (Inl e, s1) \<Rightarrow> (if e = SCacheMiss then Inr 0 else Inl (Server e), s1)
           | (Inr it, s1) \<Rightarrow>
               ((case parseInt64 (Value it) of
                   Inl pe \<Rightarrow> Inl (CorruptCounter pe)
                 | Inr v \<Rightarrow> if v < 0 \<or> v > 2 ^ 62 then Inl (ImplausibleCounter v) else Inr v), s1)))"

section \<open>What the memcached protocol promises\<close>

text \<open>
  \<open>view s\<close> is the content of the server. A reported error of a write leaves open whether
  the write happened; a successful read or write is exact.
\<close>

definition exact_server :: "('s \<Rightarrow> string \<rightharpoonup> bytes) \<Rightarrow> 's memcache \<Rightarrow> bool" where
  "exact_server view mc \<longleftrightarrow>
     (\<forall>k s r s'. mc_Get mc k s = (r, s') \<longrightarrow> view s' = view s
        \<and> (r = Inl SCacheMiss \<longrightarrow> view s k = None)
        \<and> (\<forall>it. r = Inr it \<longrightarrow> view s k = Some (Value it)))
   \<and> (\<forall>it s r s'. mc_Set mc it s = (r, s') \<longrightarrow>
        view s' = (view s)(Key it \<mapsto> Value it) \<or> (r \<noteq> Inr () \<and> view s' = view s))
   \<and> (\<forall>it s r s'. mc_Add mc it s = (r, s') \<longrightarrow>
        (r = Inr () \<longrightarrow> view s (Key it) = None \<and> view s' = (view s)(Key it \<mapsto> Value it))
        \<and> (r = Inl SNotStored \<longrightarrow> view s (Key it) \<noteq> None \<and> view s' = view s)
        \<and> (\<forall>j. j \<noteq> Key it \<longrightarrow> view s' j = view s j))
   \<and> (\<forall>k d s r s'. mc_Increment mc k d s = (r, s') \<longrightarrow>
        (r = Inl SCacheMiss \<longrightarrow> view s k = None \<and> view s' = view s)
        \<and> (\<forall>n. r = Inr n \<longrightarrow> (\<exists>b. view s k = Some b \<and> n = (dec_val 0 b + d) mod 2 ^ 64)
              \<and> view s' = (view s)(k \<mapsto> dec_nat n))
        \<and> (\<forall>j. j \<noteq> k \<longrightarrow> view s' j = view s j))"

lemma exact_Get:
  "exact_server view mc \<Longrightarrow> mc_Get mc k s = (r, s') \<Longrightarrow> view s' = view s
     \<and> (r = Inl SCacheMiss \<longrightarrow> view s k = None) \<and> (\<forall>it. r = Inr it \<longrightarrow> view s k = Some (Value it))"
  by (rule exact_server_def [THEN iffD1, THEN conjunct1, THEN spec, THEN spec, THEN spec, THEN spec, THEN mp])

lemma exact_Set:
  "exact_server view mc \<Longrightarrow> mc_Set mc it s = (r, s') \<Longrightarrow>
     view s' = (view s)(Key it \<mapsto> Value it) \<or> (r \<noteq> Inr () \<and> view s' = view s)"
  by (rule exact_server_def [THEN iffD1, THEN conjunct2, THEN conjunct1, THEN spec, THEN spec, THEN spec, THEN spec, THEN mp])

lemma exact_Add:
  "exact_server view mc \<Longrightarrow> mc_Add mc it s = (r, s') \<Longrightarrow>
     (r = Inr () \<longrightarrow> view s (Key it) = None \<and> view s' = (view s)(Key it \<mapsto> Value it))
     \<and> (r = Inl SNotStored \<longrightarrow> view s (Key it) \<noteq> None \<and> view s' = view s)
     \<and> (\<forall>j. j \<noteq> Key it \<longrightarrow> view s' j = view s j)"
  by (rule exact_server_def [THEN iffD1, THEN conjunct2, THEN conjunct2, THEN conjunct1, THEN spec, THEN spec, THEN spec, THEN spec, THEN mp])

lemma exact_Increment:
  "exact_server view mc \<Longrightarrow> mc_Increment mc k d s = (r, s') \<Longrightarrow>
     (r = Inl SCacheMiss \<longrightarrow> view s k = None \<and> view s' = view s)
     \<and> (\<forall>n. r = Inr n \<longrightarrow> (\<exists>b. view s k = Some b \<and> n = (dec_val 0 b + d) mod 2 ^ 64)
           \<and> view s' = (view s)(k \<mapsto> dec_nat n))
     \<and> (\<forall>j. j \<noteq> k \<longrightarrow> view s' j = view s j)"
  by (rule exact_server_def [THEN iffD1, THEN conjunct2, THEN conjunct2, THEN conjunct2, THEN spec, THEN spec, THEN spec, THEN spec, THEN spec, THEN mp])

text \<open>A server that keeps its entries in a map; it never fails and never evicts.\<close>

definition kv_server :: "(string \<rightharpoonup> bytes) memcache" where
  "kv_server = \<lparr>
     ctx_Err = (\<lambda>s. None),
     mc_Get = (\<lambda>k s. case s k of None \<Rightarrow> (Inl SCacheMiss, s)
        | Some v \<Rightarrow> (Inr \<lparr>Key = k, Value = v, Expiration = 0\<rparr>, s)),
     mc_GetMulti = (\<lambda>ks s. (Inr (map (\<lambda>k. (k, \<lparr>Key = k, Value = the (s k), Expiration = 0\<rparr>))
        (filter (\<lambda>k. s k \<noteq> None) ks)), s)),
     mc_Set = (\<lambda>it s. (Inr (), s(Key it \<mapsto> Value it))),
     mc_Add = (\<lambda>it s. if s (Key it) = None then (Inr (), s(Key it \<mapsto> Value it)) else (Inl SNotStored, s)),
     mc_Delete = (\<lambda>k s. if s k = None then (Inl SCacheMiss, s) else (Inr (), s(k := None))),
     mc_Increment = (\<lambda>k d s. case s k of None \<Rightarrow> (Inl SCacheMiss, s)
        | Some b \<Rightarrow> let n = (dec_val 0 b + d) mod 2 ^ 64 in (Inr n, s(k \<mapsto> dec_nat n)))\<rparr>"

lemma kv_server_exact: "exact_server (\<lambda>s. s) kv_server"
  unfolding exact_server_def kv_server_def
  by (intro conjI allI) (auto simp: Let_def split: option.splits if_splits)

section \<open>Reading and publishing version pointers\<close>

lemma CurrentVersion_range:
  "CurrentVersion mc ent rid s = (Inr c, s') \<Longrightarrow> 0 \<le> c \<and> c \<le> 2 ^ 40"
  by (auto simp: CurrentVersion_def split: prod.splits sum.splits if_splits)

lemma CurrentVersion_not_stale:
  "CurrentVersion mc ent rid s = (Inl e, s') \<Longrightarrow> \<not> IsStale e"
  by (auto simp: CurrentVersion_def Client_Get_def split: prod.splits sum.splits if_splits option.splits)

lemma Client_Set_not_stale:
  "Client_Set mc k v ttl s = (Inl e, s') \<Longrightarrow> \<not> IsStale e"
  by (auto simp: Client_Set_def split: prod.splits sum.splits option.splits)

interpretation client: version_setter "SetVersion mc" IsStale "CurrentVersion mc" for mc
proof (unfold_locales, goal_cases)
  case (2 ent rid v ttl s e s')
  then show ?case
    by (auto simp: SetVersion_def split: prod.splits sum.splits if_splits
        dest: CurrentVersion_not_stale Client_Set_not_stale)
next
  case (3 ent rid v ttl s u s')
  then show ?case
    by (auto simp: SetVersion_def split: prod.splits sum.splits if_splits)
next
  case (4 ent rid s c s')
  then show ?case by (rule CurrentVersion_range)
qed (simp add: SetVersion_def)

lemma CurrentVersion_not_miss:
  "CurrentVersion mc ent rid s = (Inl e, s') \<Longrightarrow> e \<noteq> ErrCacheMiss"
  by (auto simp: CurrentVersion_def split: prod.splits sum.splits if_splits)

interpretation client_pointers: pointer_cache "CurrentVersion mc" "\<lambda>e. e = ErrCacheMiss" for mc
  by unfold_locales (auto dest: CurrentVersion_range CurrentVersion_not_miss)

text \<open>The version a stored pointer stands for; 0 when there is none or it is not a number.\<close>

definition pointer :: "(string \<rightharpoonup> bytes) \<Rightarrow> string \<Rightarrow> string \<Rightarrow> int" where
  "pointer m ent rid = (case m (PointerKey ent rid) of
     None \<Rightarrow> 0 | Some b \<Rightarrow> (case parseInt64 b of Inl _ \<Rightarrow> 0 | Inr v \<Rightarrow> v))"

lemma parse_format: "0 < n \<Longrightarrow> int64 n \<Longrightarrow> parseInt64 (formatInt64 n) = Inr n"
  by (simp add: parseInt64_def formatInt64_eq_itoa itoa_eq_dec ParseInt_dec_int int64_iff)
     (simp add: dec_int_def)

lemma pointer_update [simp]:
  "0 < v \<Longrightarrow> int64 v \<Longrightarrow> pointer (m(PointerKey ent rid \<mapsto> formatInt64 v)) ent rid = v"
  by (simp add: pointer_def parse_format)

lemma CurrentVersion_exact:
  assumes "exact_server view mc" and "CurrentVersion mc ent rid s = (r, s')"
  shows "view s' = view s \<and> (\<forall>c. r = Inr c \<longrightarrow> c = pointer (view s) ent rid)"
  using assms(2) exact_Get [OF assms(1), of "PointerKey ent rid" s]
  by (auto simp: CurrentVersion_def Client_Get_def pointer_def split: prod.splits sum.splits option.splits if_splits)

lemma Client_Set_exact:
  assumes "exact_server view mc" and "Client_Set mc k v ttl s = (r, s')"
  shows "view s' = (view s)(k \<mapsto> v) \<or> (r \<noteq> Inr () \<and> view s' = view s)"
proof (cases "ctx_Err mc s")
  case None
  let ?it = "\<lparr>Key = k, Value = v, Expiration = ttlToExpiration ttl\<rparr>"
  obtain q s1 where q: "mc_Set mc ?it s = (q, s1)" by fastforce
  from exact_Set [OF assms(1) q] assms(2) None q show ?thesis
    by (cases q) (auto simp: Client_Set_def)
qed (use assms(2) in \<open>auto simp: Client_Set_def\<close>)

lemma SetVersion_mono:
  assumes "exact_server view mc" and "int64 v" and "SetVersion mc ent rid v ttl s = (r, s')"
  shows "pointer (view s) ent rid \<le> pointer (view s') ent rid
    \<and> (\<forall>k. k \<noteq> PointerKey ent rid \<longrightarrow> view s' k = view s k)
    \<and> (r = Inr () \<longrightarrow> pointer (view s) ent rid < v \<and> pointer (view s') ent rid = v)
    \<and> (\<forall>e. r = Inl e \<and> IsStale e \<longrightarrow> v \<le> pointer (view s) ent rid \<and> view s' = view s)"
proof (cases "v \<le> 0")
  case True
  with assms(3) show ?thesis by (auto simp: SetVersion_def)
next
  case pos: False
  obtain q s1 where q: "CurrentVersion mc ent rid s = (q, s1)" by fastforce
  note cur = CurrentVersion_exact [OF assms(1) q]
  show ?thesis
  proof (cases "\<exists>c. q = Inr c \<and> c < v")
    case False
    with assms(3) pos q cur show ?thesis
      by (cases q) (auto simp: SetVersion_def dest: CurrentVersion_not_stale)
  next
    case True
    with assms(3) pos q have set: "Client_Set mc (PointerKey ent rid) (formatInt64 v) ttl s1 = (r, s')"
      by (auto simp: SetVersion_def)
    from Client_Set_exact [OF assms(1) set] True cur pos assms(2) Client_Set_not_stale [of mc _ _ _ s1 _ s']
    show ?thesis using set by auto
  qed
qed

text \<open>
  C3: publishing a version pointer is monotonic. Whatever a call of \<open>SetVersion\<close> returns,
  the pointer of the row does not go down and no other key changes; success means the pointer
  was smaller and is now exactly the version; a stale answer means the pointer already was at
  or above it and nothing was written.
\<close>

theorem SetVersion_monotonic:
  assumes "exact_server view mc" and "int64 v" and "SetVersion mc ent rid v ttl s = (r, s')"
  shows "pointer (view s) ent rid \<le> pointer (view s') ent rid
    \<and> (\<forall>k. k \<noteq> PointerKey ent rid \<longrightarrow> view s' k = view s k)
    \<and> (r = Inr () \<longrightarrow> pointer (view s) ent rid < v \<and> pointer (view s') ent rid = v)
    \<and> (\<forall>e. r = Inl e \<and> IsStale e \<longrightarrow> v \<le> pointer (view s) ent rid \<and> view s' = view s)"
  using assms by (rule SetVersion_mono)

theorem SetVersion_monotonic_witness:
  "SetVersion kv_server ''shop.Order'' ''7'' 3 0 (Map.empty :: string \<rightharpoonup> bytes)
      = (Inr (), [PointerKey ''shop.Order'' ''7'' \<mapsto> ''3''])
   \<and> pointer (Map.empty :: string \<rightharpoonup> bytes) ''shop.Order'' ''7'' < 3"
proof -
  have f: "formatInt64 3 = ''3''" by code_simp
  have s: "SetVersion kv_server ''shop.Order'' ''7'' 3 0 (Map.empty :: string \<rightharpoonup> bytes)
      = (Inr (), [PointerKey ''shop.Order'' ''7'' \<mapsto> ''3''])"
    by (simp add: SetVersion_def CurrentVersion_def Client_Get_def Client_Set_def kv_server_def f)
  from SetVersion_monotonic [OF kv_server_exact _ s] s show ?thesis by (simp add: int64_def)
qed

text \<open>The calls the workers make for one row, in the order the server sees them.\<close>

fun publish :: "'s memcache \<Rightarrow> string \<Rightarrow> string \<Rightarrow> duration \<Rightarrow> int list \<Rightarrow> 's \<Rightarrow> (mc_err + unit) list \<times> 's" where
  "publish mc ent rid ttl [] s = ([], s)"
| "publish mc ent rid ttl (v # vs) s =
     (let (r, s1) = SetVersion mc ent rid v ttl s; (rs, s2) = publish mc ent rid ttl vs s1 in (r # rs, s2))"

definition settled :: "mc_err + unit \<Rightarrow> bool" where
  "settled r = (case r of Inl e \<Rightarrow> IsStale e | Inr _ \<Rightarrow> True)"

lemma SetVersion_settled:
  assumes "exact_server view mc" and "int64 v" and "SetVersion mc ent rid v ttl s = (r, s')" and "settled r"
  shows "pointer (view s') ent rid = max (pointer (view s) ent rid) v"
proof -
  obtain q s1 where q: "CurrentVersion mc ent rid s = (q, s1)" by fastforce
  note cur = CurrentVersion_exact [OF assms(1) q]
  from assms(3,4) have pos: "0 < v"
    by (intro client.settled_positive [OF assms(3)]) (simp add: settled_def)
  from client.settled_read [OF assms(3)] assms(4) obtain c where c: "q = Inr c"
    by (auto simp: settled_def q)
  show ?thesis
  proof (cases "c < v")
    case True
    with assms(3) pos q c have set: "Client_Set mc (PointerKey ent rid) (formatInt64 v) ttl s1 = (r, s')"
      by (simp add: SetVersion_def)
    with assms(4) have "r = Inr ()"
      by (auto simp: settled_def dest: Client_Set_not_stale split: sum.splits)
    with Client_Set_exact [OF assms(1) set] cur c True pos assms(2) show ?thesis by auto
  next
    case False
    with assms(3) pos q c cur show ?thesis by (auto simp: SetVersion_def)
  qed
qed

text \<open>
  C6: the order in which versions of a row are published does not matter. When every call of a
  run is settled (written or stale), the pointer ends at the maximum of its start value and all
  the versions published.
\<close>

theorem publish_reaches_max:
  assumes "exact_server view mc" and "\<forall>v\<in>set vs. int64 v"
    and "publish mc ent rid ttl vs s = (rs, s')" and "\<forall>r\<in>set rs. settled r"
  shows "pointer (view s') ent rid = Max (insert (pointer (view s) ent rid) (set vs))"
  using assms(2-4)
proof (induction vs arbitrary: s rs)
  case (Cons v vs)
  obtain r s1 where r: "SetVersion mc ent rid v ttl s = (r, s1)" by fastforce
  obtain rs1 s2 where rs: "publish mc ent rid ttl vs s1 = (rs1, s2)" by fastforce
  from Cons.prems r rs have eq: "rs = r # rs1" "s2 = s'" by auto
  with Cons.IH [of s1 rs1] Cons.prems rs
  have "pointer (view s') ent rid = Max (insert (pointer (view s1) ent rid) (set vs))" by simp
  also have "pointer (view s1) ent rid = max (pointer (view s) ent rid) v"
    using SetVersion_settled [OF assms(1) _ r] Cons.prems eq by simp
  also have "Max (insert (max (pointer (view s) ent rid) v) (set vs))
      = Max (insert (pointer (view s) ent rid) (set (v # vs)))"
    by (cases "vs = []") (simp_all add: max.assoc)
  finally show ?case .
qed simp

theorem publish_reaches_max_witness:
  "pointer (snd (publish kv_server ''e'' ''1'' 0 [4, 2] (Map.empty :: string \<rightharpoonup> bytes))) ''e'' ''1'' = 4"
proof -
  have f: "formatInt64 4 = ''4''" by code_simp
  have g: "parseInt64 ''4'' = Inr 4" using parse_format [of 4] by (simp add: f int64_def)
  have p: "publish kv_server ''e'' ''1'' 0 [4, 2] (Map.empty :: string \<rightharpoonup> bytes)
      = ([Inr (), Inl ErrStaleVersion], [PointerKey ''e'' ''1'' \<mapsto> ''4''])"
    by (simp add: SetVersion_def CurrentVersion_def Client_Get_def Client_Set_def kv_server_def f g)
  have [simp]: "pointer (Map.empty :: string \<rightharpoonup> bytes) ''e'' ''1'' = 0" by (simp add: pointer_def)
  from publish_reaches_max [OF kv_server_exact _ p] p show ?thesis
    by (simp add: settled_def int64_def)
qed

section \<open>Two workers at once\<close>

text \<open>
  \<open>SetVersion\<close> is a read followed by a write. The two halves, as two workers can
  interleave them: \<open>SetVersion_guard\<close> is the part up to the comparison, and answers whether
  the write is to be made.
\<close>

definition SetVersion_guard ::
  "'s memcache \<Rightarrow> string \<Rightarrow> string \<Rightarrow> int \<Rightarrow> 's \<Rightarrow> (mc_err + unit) \<times> 's" where
  "SetVersion_guard mc entity rid version s =
     (if version \<le> 0 then (Inl (NonPositiveVersion version), s)
      else case CurrentVersion mc entity rid s of
             (Inl e, s1) \<Rightarrow> (Inl (GuardRead e), s1)
           | (Inr cur, s1) \<Rightarrow> if cur \<ge> version then (Inl ErrStaleVersion, s1) else (Inr (), s1))"

definition SetVersion_write ::
  "'s memcache \<Rightarrow> string \<Rightarrow> string \<Rightarrow> int \<Rightarrow> duration \<Rightarrow> 's \<Rightarrow> (mc_err + unit) \<times> 's" where
  "SetVersion_write mc entity rid version ttl s =
     Client_Set mc (PointerKey entity rid) (formatInt64 version) ttl s"

lemma SetVersion_phases:
  "SetVersion mc ent rid v ttl s =
     (case SetVersion_guard mc ent rid v s of
        (Inl e, s1) \<Rightarrow> (Inl e, s1) | (Inr _, s1) \<Rightarrow> SetVersion_write mc ent rid v ttl s1)"
  by (auto simp: SetVersion_def SetVersion_guard_def SetVersion_write_def split: prod.splits sum.splits)



section \<open>Counters\<close>

text \<open>The counter a key stands for: absent is 0, otherwise the decimal number stored.\<close>

definition counter_is :: "(string \<rightharpoonup> bytes) \<Rightarrow> string \<Rightarrow> nat \<Rightarrow> bool" where
  "counter_is m k n \<longleftrightarrow> (m k = None \<and> n = 0) \<or> m k = Some (dec_nat n)"

lemma counter_is_unique: "counter_is m k n \<Longrightarrow> counter_is m k n' \<Longrightarrow> n = n'"
  by (auto simp: counter_is_def)

lemma counter_is_update [simp]: "counter_is (m(k \<mapsto> dec_nat n)) k n' \<longleftrightarrow> n' = n"
  by (auto simp: counter_is_def)

lemma format_nat: "n < 2 ^ 63 \<Longrightarrow> formatInt64 (int n) = dec_nat n"
  by (simp add: formatInt64_eq_itoa itoa_nat)

lemma parse_dec_nat: "n < 2 ^ 63 \<Longrightarrow> parseInt64 (dec_nat n) = Inr (int n)"
  using ParseInt_dec_int [of "int n"] by (simp add: parseInt64_def int64_def dec_int_def)

lemma CounterValue_exact:
  assumes "exact_server view mc" and "CounterValue mc k s = (r, s')" and "counter_is (view s) k n" and "n \<le> 2 ^ 62"
  shows "view s' = view s \<and> (\<forall>v. r = Inr v \<longrightarrow> v = int n)"
proof (cases "ctx_Err mc s")
  case None
  obtain q s1 where q: "mc_Get mc k s = (q, s1)" by fastforce
  from assms(4) have p: "parseInt64 (dec_nat n) = Inr (int n)" by (intro parse_dec_nat) simp
  from exact_Get [OF assms(1) q] assms(2,3) None q p show ?thesis
    by (auto simp: CounterValue_def counter_is_def split: sum.splits if_splits)
qed (use assms in \<open>auto simp: CounterValue_def\<close>)

lemma Increment_exact:
  assumes ex: "exact_server view mc" and inc: "Increment mc k d s = (Inr n, s')"
    and cnt: "counter_is (view s) k c" and small: "c + d \<le> 2 ^ 62"
  shows "n = int (c + d) \<and> view s' = (view s)(k \<mapsto> dec_nat (c + d))"
proof -
  from small have w: "(c + d) mod 2 ^ 64 = c + d" "wrap64 (int (c + d)) = int (c + d)"
      "wrap64 (int d) = int d" "formatInt64 (int d) = dec_nat d"
    by (auto intro!: wrap64_int64 format_nat simp: int64_def)
  from inc have ctx: "ctx_Err mc s = None" by (auto simp: Increment_def split: option.splits)
  obtain q s1 where q: "mc_Increment mc k d s = (q, s1)" by fastforce
  note q' = exact_Increment [OF ex q]
  show ?thesis
  proof (cases q)
    case (Inr m)
    then obtain b where b: "view s k = Some b" "m = (dec_val 0 b + d) mod 2 ^ 64" "view s1 = (view s)(k \<mapsto> dec_nat m)"
      using q' by auto
    with cnt w(1) have "m = c + d" by (simp add: counter_is_def)
    with b(3) inc ctx q Inr w show ?thesis by (simp add: Increment_def split: if_splits)
  next
    case (Inl e)
    with inc ctx q have e: "e = SCacheMiss" by (auto simp: Increment_def split: if_splits)
    with q' Inl have none: "view s k = None" "view s1 = view s" by auto
    with cnt have c: "c = 0" by (simp add: counter_is_def)
    let ?it = "\<lparr>Key = k, Value = formatInt64 (wrap64 (int d)), Expiration = ttlToExpiration thirtyDays\<rparr>"
    obtain a s2 where a: "mc_Add mc ?it s1 = (a, s2)" by fastforce
    from exact_Add [OF ex a] none have "a \<noteq> Inl SNotStored" "a = Inr () \<Longrightarrow> view s2 = (view s)(k \<mapsto> dec_nat d)"
      using w by auto
    with inc ctx q Inl e a c w show ?thesis
      by (auto simp: Increment_def split: if_splits sum.splits)
  qed
qed

lemma Increment_others:
  assumes ex: "exact_server view mc" and inc: "Increment mc k d s = (r, s')" and "j \<noteq> k"
  shows "view s' j = view s j"
proof (cases "ctx_Err mc s")
  case None
  let ?it = "\<lparr>Key = k, Value = formatInt64 (wrap64 (int d)), Expiration = ttlToExpiration thirtyDays\<rparr>"
  obtain q s1 where q: "mc_Increment mc k d s = (q, s1)" by fastforce
  obtain a s2 where a: "mc_Add mc ?it s1 = (a, s2)" by fastforce
  obtain q' s3 where q': "mc_Increment mc k d s2 = (q', s3)" by fastforce
  have "view s1 j = view s j" "view s2 j = view s1 j" "view s3 j = view s2 j"
    using exact_Increment [OF ex q] exact_Add [OF ex a] exact_Increment [OF ex q'] assms(3) by auto
  moreover have "s' \<in> {s1, s2, s3}"
    using inc None q a q' by (auto simp: Increment_def split: sum.splits if_splits)
  ultimately show ?thesis by auto
qed (use inc in \<open>auto simp: Increment_def\<close>)

text \<open>
  C13: a generation counter counts. A successful \<open>Increment\<close> returns the old value plus
  the step, leaves every other key alone, and a following \<open>CounterValue\<close> reads the value
  returned; this covers the first call, which seeds a missing key.
\<close>

theorem Increment_counts:
  assumes "exact_server view mc" and "counter_is (view s) k c" and "c + d \<le> 2 ^ 62"
    and "Increment mc k d s = (Inr n, s')" and "CounterValue mc k s' = (Inr v, s'')"
  shows "n = int (c + d) \<and> v = n \<and> view s'' = (view s)(k \<mapsto> dec_nat (c + d))"
  using Increment_exact [OF assms(1,4,2,3)] CounterValue_exact [OF assms(1,5) _ assms(3)] by simp

theorem Increment_counts_witness:
  "Increment kv_server ''k'' 1 (Map.empty :: string \<rightharpoonup> bytes) = (Inr 1, [''k'' \<mapsto> dec_nat 1])
    \<and> fst (CounterValue kv_server ''k'' [''k'' \<mapsto> dec_nat 1]) = Inr 1"
proof -
  have p: "parseInt64 (dec_nat 1) = Inr 1" "formatInt64 1 = dec_nat 1" "wrap64 1 = 1"
    using parse_dec_nat [of 1] format_nat [of 1] by (simp_all add: wrap64_def)
  have i: "Increment kv_server ''k'' 1 (Map.empty :: string \<rightharpoonup> bytes) = (Inr 1, [''k'' \<mapsto> dec_nat 1])"
    using p by (simp add: Increment_def kv_server_def)
  have c: "CounterValue kv_server ''k'' [''k'' \<mapsto> dec_nat 1] = (Inr 1, [''k'' \<mapsto> dec_nat 1])"
    using p by (simp add: CounterValue_def kv_server_def)
  from Increment_counts [OF kv_server_exact _ _ i c, of 0] i c show ?thesis by (simp add: counter_is_def)
qed

section \<open>Expirations\<close>

text \<open>
  C16: the expiration sent to memcached is a relative one (at most 30 days, so never read as a
  Unix timestamp) and never outlives the TTL asked for, except that every TTL below one second,
  positive ones included, is sent as 0, which memcached takes as "never expires".
\<close>

theorem ttlToExpiration_bounds:
  "0 \<le> ttlToExpiration ttl \<and> ttlToExpiration ttl \<le> 2592000
    \<and> (ttlToExpiration ttl = 0 \<longleftrightarrow> ttl < second)
    \<and> (second \<le> ttl \<longrightarrow> ttlToExpiration ttl * second \<le> ttl
         \<and> (ttl \<le> thirtyDays \<longrightarrow> ttl < (ttlToExpiration ttl + 1) * second))"
proof (cases "ttl \<le> 0")
  case False
  let ?t = "if ttl > thirtyDays then thirtyDays else ttl"
  have t: "?t = ?t div second * second + ?t mod second" "0 \<le> ?t mod second" "?t mod second < second"
    by simp_all
  from False have e: "ttlToExpiration ttl = ?t div second" by (simp add: ttlToExpiration_def)
  show ?thesis unfolding e using False t by (auto simp: thirtyDays_def split: if_splits)
qed (simp add: ttlToExpiration_def)

theorem ttlToExpiration_bounds_witness:
  "second \<le> (90 * second :: int) \<and> ttlToExpiration (90 * second) * second \<le> 90 * second
    \<and> ttlToExpiration (500 * millisecond) = 0"
  using ttlToExpiration_bounds [of "90 * second"] ttlToExpiration_bounds [of "500 * millisecond"] by simp

end
