(* ===== verification/QueryCache.thy ===== *)
theory QueryCache
  imports Memcached
begin

text \<open>
  \<open>internal/cache/queryresult/cache.go\<close>: the tier-2 cache of query results, a page of primary
  keys stored under the entity and the hash of the query, and retired as a whole by bumping the
  generation counter that the hash folds in. A nil \<open>*Cache\<close> is \<open>None\<close>.
\<close>

record entry =
  e_PKs :: "string list"
  e_NextPageToken :: string

datatype qc_err = NilCache | Mc mc_err | Codec codec_err

definition Generation :: "'s memcache option \<Rightarrow> string \<Rightarrow> 's \<Rightarrow> (qc_err + int) \<times> 's" where
  "Generation c entity s =
     (case c of
        None \<Rightarrow> (Inr 0, s)
      | Some mc \<Rightarrow>
          (case CounterValue mc (GenerationKey entity) s of
             (Inl e, s1) \<Rightarrow> (Inr 0, s1)
           | (Inr v, s1) \<Rightarrow> (Inr v, s1)))"

definition BumpGeneration :: "'s memcache option \<Rightarrow> string \<Rightarrow> 's \<Rightarrow> (qc_err + int) \<times> 's" where
  "BumpGeneration c entity s =
     (case c of
        None \<Rightarrow> (Inl NilCache, s)
      | Some mc \<Rightarrow>
          (case Increment mc (GenerationKey entity) 1 s of
             (Inl e, s1) \<Rightarrow> (Inl (Mc e), s1)
           | (Inr v, s1) \<Rightarrow> (Inr v, s1)))"

text \<open>\<open>Inr None\<close> is a miss, \<open>Inr (Some e)\<close> a hit; an error comes with \<open>hit = false\<close>.\<close>

definition Lookup :: "'s memcache option \<Rightarrow> string \<Rightarrow> string \<Rightarrow> 's \<Rightarrow> (qc_err + entry option) \<times> 's" where
  "Lookup c entity hash s =
     (case c of
        None \<Rightarrow> (Inr None, s)
      | Some mc \<Rightarrow>
          (case Client_Get mc (QueryResultKey entity hash) s of
             (Inl e, s1) \<Rightarrow> (if e = ErrCacheMiss then Inr None else Inl (Mc e), s1)
           | (Inr raw, s1) \<Rightarrow>
               ((case decodePayload raw of
                   Inl e \<Rightarrow> Inl (Codec e)
                 | Inr p \<Rightarrow> Inr (Some \<lparr>e_PKs = PKs p, e_NextPageToken = NextPageToken p\<rparr>)), s1)))"

definition Store ::
  "'s memcache option \<Rightarrow> string \<Rightarrow> string \<Rightarrow> string list \<Rightarrow> string \<Rightarrow> duration \<Rightarrow> 's \<Rightarrow> (qc_err + unit) \<times> 's" where
  "Store c entity hash pks nextPageToken ttl s =
     (case c of
        None \<Rightarrow> (Inr (), s)
      | Some mc \<Rightarrow>
          if ttl \<le> 0 then (Inr (), s)
          else case encodePayload \<lparr>NextPageToken = nextPageToken, PKs = pks\<rparr> of
                 Inl e \<Rightarrow> (Inl (Codec e), s)
               | Inr enc \<Rightarrow>
                   (case Client_Set mc (QueryResultKey entity hash) enc ttl s of
                      (Inl e, s1) \<Rightarrow> (Inl (Mc e), s1)
                    | (Inr u, s1) \<Rightarrow> (Inr u, s1)))"

section \<open>Lemmas\<close>

lemma Client_Get_exact:
  assumes "exact_server view mc" and "Client_Get mc k s = (r, s')"
  shows "view s' = view s \<and> (\<forall>b. r = Inr b \<longrightarrow> view s k = Some b) \<and> (r = Inl ErrCacheMiss \<longrightarrow> view s k = None)"
  using assms(2) exact_Get [OF assms(1), of k s]
  by (auto simp: Client_Get_def split: prod.splits sum.splits option.splits if_splits)

lemma Lookup_exact:
  assumes "exact_server view mc" and "Lookup (Some mc) ent h s = (Inr r, s')"
  shows "view s' = view s \<and> (case view s (QueryResultKey ent h) of
      None \<Rightarrow> r = None
    | Some b \<Rightarrow> (\<exists>p. decodePayload b = Inr p \<and> r = Some \<lparr>e_PKs = PKs p, e_NextPageToken = NextPageToken p\<rparr>))"
proof -
  obtain q s1 where q: "Client_Get mc (QueryResultKey ent h) s = (q, s1)" by fastforce
  from Client_Get_exact [OF assms(1) q] assms(2) q show ?thesis
    by (auto simp: Lookup_def split: sum.splits option.splits if_splits)
qed

lemma Store_exact:
  assumes "exact_server view mc" and "0 < ttl" and "Store (Some mc) ent h pks tok ttl s = (Inr (), s')"
  shows "\<exists>b. encodePayload \<lparr>NextPageToken = tok, PKs = pks\<rparr> = Inr b \<and> view s' = (view s)(QueryResultKey ent h \<mapsto> b)"
proof -
  from assms(2,3) obtain b where b: "encodePayload \<lparr>NextPageToken = tok, PKs = pks\<rparr> = Inr b"
    by (auto simp: Store_def split: sum.splits)
  obtain q s1 where q: "Client_Set mc (QueryResultKey ent h) b ttl s = (q, s1)" by fastforce
  from Client_Set_exact [OF assms(1) q] assms(2,3) b q show ?thesis
    by (auto simp: Store_def split: sum.splits)
qed

lemma GenerationKey_not_result: "GenerationKey e \<noteq> QueryResultKey e h"
  by (simp add: GenerationKey_def QueryResultKey_def)

lemma QueryResultKey_inj [simp]: "QueryResultKey e h = QueryResultKey e h' \<longleftrightarrow> h = h'"
  by (simp add: QueryResultKey_def)

lemma b64_alphabet_inj: "i < 64 \<Longrightarrow> j < 64 \<Longrightarrow> b64_alphabet ! i = b64_alphabet ! j \<Longrightarrow> i = j"
proof -
  have "distinct b64_alphabet" "length b64_alphabet = 64" by (simp_all add: b64_alphabet_def)
  then show "i < 64 \<Longrightarrow> j < 64 \<Longrightarrow> b64_alphabet ! i = b64_alphabet ! j \<Longrightarrow> i = j"
    by (simp add: nth_eq_iff_index_eq)
qed

text \<open>Four alphabet characters give back the 24 bits they encode.\<close>

lemma b64_digits_inj:
  fixes m n :: nat
  assumes "m < 16777216" and "n < 16777216"
    and "b64_alphabet ! (m div 262144) = b64_alphabet ! (n div 262144)"
    and "b64_alphabet ! (m div 4096 mod 64) = b64_alphabet ! (n div 4096 mod 64)"
    and "b64_alphabet ! (m div 64 mod 64) = b64_alphabet ! (n div 64 mod 64)"
    and "b64_alphabet ! (m mod 64) = b64_alphabet ! (n mod 64)"
  shows "m = n"
proof -
  have d: "x = x div 262144 * 262144 + x div 4096 mod 64 * 4096 + x div 64 mod 64 * 64 + x mod 64" for x :: nat
  proof -
    have "x div 4096 = x div 64 div 64" "x div 262144 = x div 64 div 64 div 64"
      by (simp_all flip: div_mult2_eq)
    moreover have "x = t * 262144 + c * 4096 + b * 64 + a" if "x = q * 64 + a" "q = r * 64 + b" "r = t * 64 + c" for q r t a b c
      using that by simp
    ultimately show ?thesis by (metis div_mult_mod_eq)
  qed
  have "m div 262144 < 64" "n div 262144 < 64" using assms(1,2) by auto
  then have e: "m div 262144 = n div 262144" "m div 4096 mod 64 = n div 4096 mod 64"
      "m div 64 mod 64 = n div 64 mod 64" "m mod 64 = n mod 64"
    using assms(3-6) by (auto intro: b64_alphabet_inj)
  show ?thesis using d [of m] d [of n] unfolding e by simp
qed

lemma bytes3_inj:
  fixes a b c a' b' c' :: char
  assumes "of_char a * 65536 + of_char b * 256 + of_char c
         = (of_char a' * 65536 + of_char b' * 256 + of_char c' :: nat)"
  shows "a = a' \<and> b = b' \<and> c = c'"
proof -
  have lt: "(of_char x :: nat) < 256" for x :: char by simp
  have low: "x = x' \<and> c = c'" if "x * 256 + c = x' * 256 + c'" "c < 256" "c' < 256" for x x' c c' :: nat
  proof -
    from that(1) have "(x * 256 + c) div 256 = (x' * 256 + c') div 256" by (rule arg_cong)
    with that(2,3) have "x = x'" by simp
    with that(1) show ?thesis by simp
  qed
  have "(of_char a :: nat) = of_char a' \<and> (of_char b :: nat) = of_char b' \<and> (of_char c :: nat) = of_char c'"
    using low [of "of_char a * 256 + of_char b" "of_char c" "of_char a' * 256 + of_char b'" "of_char c'"]
      low [of "of_char a" "of_char b" "of_char a'" "of_char b'"] assms lt by (simp add: algebra_simps)
  then show ?thesis by simp
qed

text \<open>The bits of up to three bytes, padded with zeros as the encoder pads them.\<close>

lemma b64_short_inj:
  fixes m n :: nat
  assumes "m < 16777216" and "n < 16777216" and "m mod 64 = 0" and "n mod 64 = 0"
    and "b64_alphabet ! (m div 262144) = b64_alphabet ! (n div 262144)"
    and "b64_alphabet ! (m div 4096 mod 64) = b64_alphabet ! (n div 4096 mod 64)"
    and "b64_alphabet ! (m div 64 mod 64) = b64_alphabet ! (n div 64 mod 64)"
  shows "m = n"
  using assms by (intro b64_digits_inj) auto

lemma byte_sum_lt:
  "of_char a * 65536 + of_char b * 256 + of_char c < (16777216 :: nat)"
proof -
  have "(of_char a :: nat) \<le> 255" "(of_char b :: nat) \<le> 255" "(of_char c :: nat) \<le> 255"
    by (simp_all add: Suc_leI flip: less_Suc_eq_le)
  then show ?thesis by linarith
qed

lemma b64url_inj: "length x = length y \<Longrightarrow> b64url x = b64url y \<Longrightarrow> x = y"
proof (induction x arbitrary: y rule: b64url.induct)
  case (2 a)
  from "2.prems"(1) obtain a' where y: "y = [a']" by (metis length_0_conv length_Suc_conv)
  let ?m = "of_char a * 65536 :: nat" and ?n = "of_char a' * 65536 :: nat"
  have lt: "?m < 16777216" "?n < 16777216"
    using byte_sum_lt [of a "char_of (0 :: nat)" "char_of (0 :: nat)"] byte_sum_lt [of a' "char_of (0 :: nat)" "char_of (0 :: nat)"] by simp_all
  have pad: "?m mod 64 = 0" "?n mod 64 = 0" "?m div 64 mod 64 = 0" "?n div 64 mod 64 = 0"
    by (simp_all add: div_mult_swap [symmetric] mod_eq_0_iff_dvd)
  note eq = "2.prems"(2) [unfolded y b64url.simps Let_def list.inject]
  have "?m = ?n" by (rule b64_short_inj [OF lt pad(1,2)]) (use eq in \<open>simp_all only: pad\<close>)
  then show ?case using y bytes3_inj [of a "char_of (0 :: nat)" "char_of (0 :: nat)" a' "char_of (0 :: nat)" "char_of (0 :: nat)"] by simp
next
  case (3 a b)
  from "3.prems"(1) obtain a' b' where y: "y = [a', b']" by (metis length_0_conv length_Suc_conv)
  let ?m = "of_char a * 65536 + of_char b * 256 :: nat" and ?n = "of_char a' * 65536 + of_char b' * 256 :: nat"
  have lt: "?m < 16777216" "?n < 16777216"
    using byte_sum_lt [of a b "char_of (0 :: nat)"] byte_sum_lt [of a' b' "char_of (0 :: nat)"] by simp_all
  have pad: "?m mod 64 = 0" "?n mod 64 = 0" by (simp_all add: mod_eq_0_iff_dvd dvd_add dvd_mult)
  note eq = "3.prems"(2) [unfolded y b64url.simps Let_def list.inject]
  have "?m = ?n" by (rule b64_short_inj [OF lt pad]) (use eq in \<open>simp_all only:\<close>)
  then show ?case using y bytes3_inj [of a b "char_of (0 :: nat)" a' b' "char_of (0 :: nat)"] by simp
next
  case (4 a b c r)
  from "4.prems"(1) obtain a' b' c' r' where y: "y = a' # b' # c' # r'" by (metis length_Suc_conv)
  let ?m = "of_char a * 65536 + of_char b * 256 + of_char c :: nat"
  let ?n = "of_char a' * 65536 + of_char b' * 256 + of_char c' :: nat"
  note eq = "4.prems"(2) [unfolded y b64url.simps Let_def append_Cons append_Nil list.inject]
  have "?m = ?n" by (rule b64_digits_inj [OF byte_sum_lt byte_sum_lt]) (use eq in \<open>simp_all only:\<close>)
  from bytes3_inj [OF this] "4.IH" [OF refl, of r'] "4.prems"(1) eq y show ?case by simp
qed simp

lemma Hash_eq_frames:
  assumes "Hash sha256 marshal a = Inr h" and "Hash sha256 marshal b = Inr h"
    and "\<forall>f. length (sha256 f) = 32"
  shows "\<exists>f g. hash_frame marshal a = Inr f \<and> hash_frame marshal b = Inr g \<and> take 16 (sha256 f) = take 16 (sha256 g)"
  using assms b64url_inj by (fastforce simp: Hash_def split: sum.splits)

lemma Bump_exact:
  assumes "exact_server view mc" and "counter_is (view s) (GenerationKey ent) g" and "g < 2 ^ 62"
    and "BumpGeneration (Some mc) ent s = (Inr n, s')"
  shows "n = int (g + 1) \<and> view s' = (view s)(GenerationKey ent \<mapsto> dec_nat (g + 1))"
proof -
  from assms(4) have "Increment mc (GenerationKey ent) 1 s = (Inr n, s')"
    by (auto simp: BumpGeneration_def split: prod.splits sum.splits)
  from Increment_exact [OF assms(1) this assms(2)] assms(3) show ?thesis by simp
qed

text \<open>The frame of an unfiltered query of entity \<open>e\<close> with limit 10, up to the generation.\<close>

definition hash_prefix :: bytes where
  "hash_prefix = writeSegmentString ''e'' @ writeSegmentBytes [] @ writeSegmentInt 0
     @ writeSegmentInt 10 @ writeSegmentBytes [] @ writeSegmentBytes [] @ writeSegmentInt 0"



text \<open>
  C4: bumping the generation of an entity retires its cached pages. A page stored under the
  hash of the current generation is not found by the same query once the counter was bumped and
  read back: the counter moved by one, the hash changed (unless the two frames collide under the
  truncated digest) and the new key holds nothing.
\<close>

theorem bump_retires_pages:
  assumes "exact_server view mc" and "counter_is (view s) (GenerationKey (h_entityID a)) g" and "g < 2 ^ 62"
    and "\<forall>f. length (sha256 f) = 32"
    and "Hash sha256 marshal (a\<lparr>h_generation := int g\<rparr>) = Inr h"
    and "0 < ttl" and "Store (Some mc) (h_entityID a) h pks tok ttl s = (Inr (), s1)"
    and "BumpGeneration (Some mc) (h_entityID a) s1 = (Inr n, s2)"
    and "CounterValue mc (GenerationKey (h_entityID a)) s2 = (Inr g', s3)"
    and "Hash sha256 marshal (a\<lparr>h_generation := g'\<rparr>) = Inr h'"
    and "\<forall>f f'. hash_frame marshal (a\<lparr>h_generation := int g\<rparr>) = Inr f
           \<and> hash_frame marshal (a\<lparr>h_generation := g'\<rparr>) = Inr f'
           \<and> take 16 (sha256 f) = take 16 (sha256 f') \<longrightarrow> f = f'"
    and "view s (QueryResultKey (h_entityID a) h') = None"
    and "Lookup (Some mc) (h_entityID a) h' s3 = (Inr r, s4)"
  shows "g' = int g + 1 \<and> n = g' \<and> h' \<noteq> h \<and> r = None"
proof -
  let ?e = "h_entityID a"
  obtain b where b: "view s1 = (view s)(QueryResultKey ?e h \<mapsto> b)"
    using Store_exact [OF assms(1,6,7)] by blast
  with assms(2) have c: "counter_is (view s1) (GenerationKey ?e) g"
    by (simp add: counter_is_def GenerationKey_not_result)
  note bump = Bump_exact [OF assms(1) c assms(3,8)]
  have c2: "counter_is (view s2) (GenerationKey ?e) (g + 1)" using bump by simp
  have read: "view s3 = view s2 \<and> g' = int (g + 1)"
    using CounterValue_exact [OF assms(1,9) c2] assms(3) by simp
  have "h' \<noteq> h"
  proof
    assume "h' = h"
    with assms(10) have h': "Hash sha256 marshal (a\<lparr>h_generation := g'\<rparr>) = Inr h" by simp
    then obtain f f' where "hash_frame marshal (a\<lparr>h_generation := int g\<rparr>) = Inr f"
        "hash_frame marshal (a\<lparr>h_generation := g'\<rparr>) = Inr f'" "f = f'"
      using Hash_eq_frames [OF assms(5) h' assms(4)] assms(11) by blast
    from frames_generation [OF this(1,2)] this(3) read show False by simp
  qed
  moreover have "view s3 (QueryResultKey ?e h') = None"
    using read bump b assms(12) \<open>h' \<noteq> h\<close> by (simp add: GenerationKey_not_result [symmetric])
  ultimately show ?thesis using Lookup_exact [OF assms(1,13)] read bump by simp
qed

theorem bump_retires_pages_witness:
  "\<exists>h h' s1 s2 s3 s4. Store (Some kv_server) ''e'' h [] [] second Map.empty = (Inr (), s1)
     \<and> BumpGeneration (Some kv_server) ''e'' s1 = (Inr 1, s2) \<and> CounterValue kv_server (GenerationKey ''e'') s2 = (Inr 1, s3)
     \<and> h' \<noteq> h \<and> Lookup (Some kv_server) ''e'' h' s3 = (Inr None, s4)"
proof -
  let ?a = "\<lparr>h_entityID = ''e'', h_filter = None, h_orders = [], h_limit = 10, h_pageToken = [],
    h_fields = None, h_includes = [], h_generation = 0\<rparr> :: bytes hash_args"
  let ?m = "Inr :: bytes \<Rightarrow> unit + bytes"
  let ?sha = "\<lambda>f :: bytes. take 32 (f @ replicate 32 CHR ''x'')"
  let ?k = "QueryResultKey ''e''"
  have F: "hash_frame ?m (?a\<lparr>h_generation := i\<rparr>) = Inr (hash_prefix @ writeSegmentInt i)" for i
    by (simp add: hash_frame_def writeSegmentProto_def sortInt32_def sort_loop_def sort_outer.simps hash_prefix_def)
  have L: "length hash_prefix = 8" by code_simp
  have W: "writeSegmentInt 0 = [char_of (0 :: nat)]" "writeSegmentInt 1 = [char_of (2 :: nat)]" by code_simp+
  obtain h where h: "Hash ?sha ?m (?a\<lparr>h_generation := int 0\<rparr>) = Inr h" by (simp only: Hash_def F sum.case)
  obtain h' where h': "Hash ?sha ?m (?a\<lparr>h_generation := 1\<rparr>) = Inr h'" by (simp only: Hash_def F sum.case)
  obtain b where b: "encodePayload \<lparr>NextPageToken = [], PKs = []\<rparr> = Inr b" by (simp add: encodePayload_def)
  let ?s1 = "[?k h \<mapsto> b]" and ?s2 = "[?k h \<mapsto> b, GenerationKey ''e'' \<mapsto> dec_nat 1]"
  have p: "parseInt64 (dec_nat 1) = Inr 1" "formatInt64 1 = dec_nat 1" "wrap64 1 = 1"
    using parse_dec_nat [of 1] format_nat [of 1] by (simp_all add: wrap64_def)
  have st: "Store (Some kv_server) ''e'' h [] [] second Map.empty = (Inr (), ?s1)"
    by (simp add: Store_def Client_Set_def kv_server_def b)
  have bu: "BumpGeneration (Some kv_server) ''e'' ?s1 = (Inr 1, ?s2)"
    by (simp add: BumpGeneration_def Increment_def kv_server_def p GenerationKey_not_result)
  have rd: "CounterValue kv_server (GenerationKey ''e'') ?s2 = (Inr 1, ?s2)"
    using p by (simp add: CounterValue_def kv_server_def)
  have "decodePayload b = Inr \<lparr>NextPageToken = [], PKs = []\<rparr>" using decode_encodePayload [OF b] by simp
  then obtain r where lo: "Lookup (Some kv_server) ''e'' h' ?s2 = (Inr r, ?s2)"
    by (cases "h' = h") (simp_all add: Lookup_def Client_Get_def kv_server_def GenerationKey_not_result [symmetric])
  have "1 = int 0 + (1 :: int) \<and> 1 = (1 :: int) \<and> h' \<noteq> h \<and> r = None"
    by (rule bump_retires_pages [where a = ?a and ?sha256.0 = ?sha and marshal = ?m and g = 0 and s = Map.empty
          and ?s1.0 = ?s1 and ?s2.0 = ?s2 and ?s3.0 = ?s2 and ?s4.0 = ?s2 and ttl = second, OF kv_server_exact])
       (use st bu rd lo h h' in \<open>simp_all add: counter_is_def F [of 0, simplified] F [of 1, simplified] L W min_def\<close>)
  then show ?thesis using st bu rd lo by metis
qed

end
