(* ===== verification/StubCache.thy ===== *)
theory StubCache
  imports Memcached
begin

text \<open>
  The cache of a sandbox, \<open>internal/runtime/sandbox/cache.go\<close>: every read is a miss, every
  version is 0 and the calls of \<open>Set\<close> are recorded for the test to read. The state is the
  list of the recorded calls, oldest first.
\<close>

record SetCall =
  sc_Key :: string
  sc_Value :: bytes
  sc_TTL :: duration
  sc_At :: instant

definition NewCache :: "SetCall list" where
  "NewCache = []"

definition Stub_Get :: "string \<Rightarrow> SetCall list \<Rightarrow> (mc_err + bytes) \<times> SetCall list" where
  "Stub_Get k s = (Inl ErrCacheMiss, s)"

definition Stub_Set :: "instant \<Rightarrow> string \<Rightarrow> bytes \<Rightarrow> duration \<Rightarrow> SetCall list \<Rightarrow> (mc_err + unit) \<times> SetCall list" where
  "Stub_Set now k v t s = (Inr (), s @ [\<lparr>sc_Key = k, sc_Value = v, sc_TTL = t, sc_At = now\<rparr>])"

definition Stub_CurrentVersion :: "string \<Rightarrow> string \<Rightarrow> SetCall list \<Rightarrow> (mc_err + int) \<times> SetCall list" where
  "Stub_CurrentVersion ent rid s = (Inr 0, s)"

definition LastSets :: "SetCall list \<Rightarrow> SetCall list" where
  "LastSets s = s"

definition Stub_Reset :: "SetCall list \<Rightarrow> SetCall list" where
  "Stub_Reset s = []"

end
