(* ===== verification/ReadCache.thy ===== *)
theory ReadCache
  imports Complex_Main QueryCache StubCache
begin

text \<open>
  \<open>internal/cache/read/read.go\<close>: the read path over the in-process LRU (tier 0), memcached
  (tier 1) and the loader, and \<open>Cache\<close> of \<open>internal/runtime/sandbox/cache.go\<close>, the stub that the
  sandbox plugs in as the same interface.

  The LRU of hashicorp/golang-lru and the call deduplication of \<open>singleflight\<close> are not in the
  repository. The LRU is the record \<open>lru\<close> of its operations, \<open>lru_laws\<close> what its
  documentation says of them. Of singleflight a call sees whether it leads and runs the
  function, or joins a running call and gets its result. The state \<open>'s\<close> is everything outside
  the reader: the server and the database, which the loader reads and others may write.
  Durations and \<open>rand.Float64\<close> enter as exact numbers.
\<close>

section \<open>Interfaces\<close>

record ('s, 'e) pointer_cache_ops =
  pc_Get :: "string \<Rightarrow> 's \<Rightarrow> ('e + bytes) \<times> 's"
  pc_Set :: "string \<Rightarrow> bytes \<Rightarrow> duration \<Rightarrow> 's \<Rightarrow> ('e + unit) \<times> 's"
  pc_CurrentVersion :: "string \<Rightarrow> string \<Rightarrow> 's \<Rightarrow> ('e + int) \<times> 's"

definition client_cache :: "'s memcache \<Rightarrow> ('s, mc_err) pointer_cache_ops" where
  "client_cache mc = \<lparr>pc_Get = Client_Get mc, pc_Set = Client_Set mc, pc_CurrentVersion = CurrentVersion mc\<rparr>"

record tier0Entry =
  body :: bytes
  loadedAt :: instant
  ttl :: duration

record 'l lru =
  lru_Get :: "string \<Rightarrow> 'l \<Rightarrow> tier0Entry option \<times> 'l"
  lru_Add :: "string \<Rightarrow> tier0Entry \<Rightarrow> 'l \<Rightarrow> 'l"
  lru_Remove :: "string \<Rightarrow> 'l \<Rightarrow> 'l"

definition lru_laws :: "('l \<Rightarrow> string \<rightharpoonup> tier0Entry) \<Rightarrow> 'l lru \<Rightarrow> bool" where
  "lru_laws peek L \<longleftrightarrow>
     (\<forall>k l. fst (lru_Get L k l) = peek l k \<and> peek (snd (lru_Get L k l)) = peek l)
   \<and> (\<forall>k e l. peek (lru_Add L k e l) k = Some e)
   \<and> (\<forall>k e l j. j \<noteq> k \<longrightarrow> peek (lru_Add L k e l) j \<in> {None, peek l j})
   \<and> (\<forall>k l. peek (lru_Remove L k l) = (peek l)(k := None))"

datatype sf_role = Lead | Join "nat + bytes"

section \<open>The reader\<close>

record reader_config =
  LRUSize :: int
  MaxValueBytes :: int
  DefaultTTL :: duration
  XFetchBeta :: real

definition Reader_DefaultConfig :: reader_config where
  "Reader_DefaultConfig = \<lparr>LRUSize = 1024, MaxValueBytes = 2 ^ 20, DefaultTTL = 10 * minute, XFetchBeta = 1\<rparr>"

record ('s, 'e, 'l) reader =
  r_cache :: "('s, 'e) pointer_cache_ops"
  cfg :: reader_config
  tier0 :: "'l lru option"

definition Reader_New :: "(int \<Rightarrow> 'err + 'l lru) \<Rightarrow> ('s, 'e) pointer_cache_ops \<Rightarrow> reader_config \<Rightarrow> 'err + ('s, 'e, 'l) reader" where
  "Reader_New lru_new c cf =
     (if LRUSize cf > 0
      then (case lru_new (LRUSize cf) of
              Inl e \<Rightarrow> Inl e
            | Inr l \<Rightarrow> Inr \<lparr>r_cache = c, cfg = cf, tier0 = Some l\<rparr>)
      else Inr \<lparr>r_cache = c, cfg = cf, tier0 = None\<rparr>)"

definition entityIDKey :: "string \<Rightarrow> string \<Rightarrow> string" where
  "entityIDKey entity rid = entity @ '':'' @ rid"

definition tier0Remaining :: "reader_config \<Rightarrow> instant \<Rightarrow> tier0Entry \<Rightarrow> duration" where
  "tier0Remaining cf now e =
     (if ttl e = 0 then DefaultTTL cf
      else let remaining = ttl e - (now - loadedAt e) in if remaining < 0 then 0 else remaining)"

definition tier0Lookup ::
  "('s, 'e, 'l) reader \<Rightarrow> instant \<Rightarrow> string \<Rightarrow> string \<Rightarrow> 'l \<Rightarrow> (string \<times> int \<times> duration) option \<times> 'l" where
  "tier0Lookup r now entity rid l =
     (case tier0 r of
        None \<Rightarrow> (None, l)
      | Some L \<Rightarrow>
          (case lru_Get L (entityIDKey entity rid) l of
             (None, l1) \<Rightarrow> (None, l1)
           | (Some v, l1) \<Rightarrow> (Some (entityIDKey entity rid, 0, tier0Remaining (cfg r) now v), l1)))"

datatype 'e read_err = CacheErr 'e | Tier0Miss | LoadErr nat | CtxDone nat

definition tier0Body :: "('s, 'e, 'l) reader \<Rightarrow> string \<Rightarrow> 'l \<Rightarrow> ('e read_err + bytes) \<times> 'l" where
  "tier0Body r key l =
     (case tier0 r of
        None \<Rightarrow> (Inl Tier0Miss, l)
      | Some L \<Rightarrow>
          (case lru_Get L key l of
             (None, l1) \<Rightarrow> (Inl Tier0Miss, l1)
           | (Some v, l1) \<Rightarrow> (Inr (body v), l1)))"

definition tier0Store ::
  "('s, 'e, 'l) reader \<Rightarrow> instant \<Rightarrow> string \<Rightarrow> string \<Rightarrow> bytes \<Rightarrow> duration \<Rightarrow> 'l \<Rightarrow> 'l" where
  "tier0Store r now entity rid b t l =
     (case tier0 r of
        None \<Rightarrow> l
      | Some L \<Rightarrow> lru_Add L (entityIDKey entity rid) \<lparr>body = b, loadedAt = now, ttl = t\<rparr> l)"

definition Invalidate :: "('s, 'e, 'l) reader \<Rightarrow> string \<Rightarrow> string \<Rightarrow> 'l \<Rightarrow> 'l" where
  "Invalidate r entity rid l =
     (case tier0 r of None \<Rightarrow> l | Some L \<Rightarrow> lru_Remove L (entityIDKey entity rid) l)"

text \<open>\<open>Inl None\<close> is \<open>runtime.ErrCacheMiss\<close> raised here; \<open>Inl (Some e)\<close> an error of the cache.\<close>

definition tier1Lookup ::
  "('s, 'e, 'l) reader \<Rightarrow> string \<Rightarrow> string \<Rightarrow> 's \<Rightarrow> ('e option + bytes) \<times> 's" where
  "tier1Lookup r entity rid s =
     (case pc_CurrentVersion (r_cache r) entity rid s of
        (Inl e, s1) \<Rightarrow> (Inl (Some e), s1)
      | (Inr ver, s1) \<Rightarrow>
          if ver = 0 then (Inl None, s1)
          else case pc_Get (r_cache r) (CacheKey entity rid ver) s1 of
                 (Inl e, s2) \<Rightarrow> (Inl (Some e), s2)
               | (Inr b, s2) \<Rightarrow> (Inr b, s2))"

text \<open>\<open>x\<close> is the number \<open>rand.Float64\<close> returns.\<close>

definition xfetchShouldRefresh :: "reader_config \<Rightarrow> real \<Rightarrow> duration \<Rightarrow> bool" where
  "xfetchShouldRefresh cf x remaining =
     (if XFetchBeta cf \<le> 0 \<or> remaining \<le> 0 then False
      else if x = 0 then True
      else - XFetchBeta cf * ln x > real_of_int remaining / 10 ^ 9)"

text \<open>The function that singleflight runs for the leading call: load, then refill both tiers.\<close>

definition Reader_load ::
  "('s, 'e, 'l) reader \<Rightarrow> instant \<Rightarrow> ('s \<Rightarrow> (nat + bytes) \<times> 's) \<Rightarrow> string \<Rightarrow> string \<Rightarrow> 'l \<Rightarrow> 's
     \<Rightarrow> (nat + bytes) \<times> 'l \<times> 's" where
  "Reader_load r now loader entity rid l s =
     (case loader s of
        (Inl e, s1) \<Rightarrow> (Inl e, l, s1)
      | (Inr fresh, s1) \<Rightarrow>
          (let (cv, s2) = pc_CurrentVersion (r_cache r) entity rid s1;
               v = (case cv of Inl _ \<Rightarrow> 0 | Inr v \<Rightarrow> v);
               newVer = (if v = 0 then 1 else v);
               bk = CacheKey entity rid newVer;
               s3 = snd (pc_Set (r_cache r) bk fresh (DefaultTTL (cfg r)) s2);
               l1 = (if MaxValueBytes (cfg r) = 0 \<or> int (length fresh) \<le> MaxValueBytes (cfg r)
                     then tier0Store r now entity rid fresh (DefaultTTL (cfg r)) l else l)
           in (Inr fresh, l1, s3)))"

text \<open>
  \<open>Get\<close>: \<open>now\<close> and \<open>x\<close> are read by the tier-0 lookup and the XFetch rule, \<open>now'\<close> by the
  refill. \<open>done\<close> is \<open>Some e\<close> when the context is done before the shared result arrives;
  the load goes on without the caller then.
\<close>

definition Reader_miss ::
  "('s, 'e, 'l) reader \<Rightarrow> instant \<Rightarrow> sf_role \<Rightarrow> nat option \<Rightarrow> ('s \<Rightarrow> (nat + bytes) \<times> 's)
     \<Rightarrow> string \<Rightarrow> string \<Rightarrow> 'l \<Rightarrow> 's \<Rightarrow> ('e read_err + bytes) \<times> 'l \<times> 's" where
  "Reader_miss r now' role dn loader entity rid l s =
     (case tier1Lookup r entity rid s of
        (Inr b, s1) \<Rightarrow> (Inr b, tier0Store r now' entity rid b (DefaultTTL (cfg r)) l, s1)
      | (Inl _, s1) \<Rightarrow>
          (let (res, l2, s2) = (case role of
                 Lead \<Rightarrow> Reader_load r now' loader entity rid l s1
               | Join res \<Rightarrow> (res, l, s1))
           in case dn of
                Some e \<Rightarrow> (Inl (CtxDone e), l2, s2)
              | None \<Rightarrow> ((case res of Inl e \<Rightarrow> Inl (LoadErr e) | Inr b \<Rightarrow> Inr b), l2, s2)))"

definition Reader_Get ::
  "('s, 'e, 'l) reader \<Rightarrow> instant \<Rightarrow> real \<Rightarrow> instant \<Rightarrow> sf_role \<Rightarrow> nat option \<Rightarrow> ('s \<Rightarrow> (nat + bytes) \<times> 's)
     \<Rightarrow> string \<Rightarrow> string \<Rightarrow> 'l \<Rightarrow> 's \<Rightarrow> ('e read_err + bytes) \<times> 'l \<times> 's" where
  "Reader_Get r now x now' role dn loader entity rid l s =
     (case tier0Lookup r now entity rid l of
        (Some (bodyKey, _, remaining), l1) \<Rightarrow>
          if \<not> xfetchShouldRefresh (cfg r) x remaining
          then (let (b, l2) = tier0Body r bodyKey l1 in (b, l2, s))
          else Reader_miss r now' role dn loader entity rid l1 s
      | (None, l1) \<Rightarrow> Reader_miss r now' role dn loader entity rid l1 s)"

section \<open>The version header\<close>

definition be_bytes :: "nat \<Rightarrow> bytes" where
  "be_bytes n = map (\<lambda>i. char_of (n div 256 ^ (7 - i) mod 256)) [0..<8]"

definition be_val :: "bytes \<Rightarrow> nat" where
  "be_val b = foldl (\<lambda>a c. a * 256 + of_char c) 0 b"

definition encodeVer :: "int \<Rightarrow> bytes \<Rightarrow> bytes" where
  "encodeVer ver b = be_bytes (nat (ver mod 2 ^ 64)) @ b"

definition decodeVer :: "bytes \<Rightarrow> (int \<times> bytes) option" where
  "decodeVer b = (if length b < 8 then None else Some (wrap64 (int (be_val (take 8 b))), drop 8 b))"

lemma be_digits:
  fixes n :: nat
  shows "foldl (\<lambda>a c. a * 256 + of_char c) 0 (map (\<lambda>i. char_of (n div 256 ^ (k - Suc i) mod 256)) [0..<k]) = n mod 256 ^ k"
proof (induction k arbitrary: n)
  case (Suc k)
  have M: "map (\<lambda>i. char_of (n div 256 ^ (Suc k - Suc i) mod 256)) [0..<k]
      = map (\<lambda>i. char_of (n div 256 div 256 ^ (k - Suc i) mod 256)) [0..<k]"
  proof (intro map_cong refl)
    fix i assume "i \<in> set [0..<k]"
    then have "256 ^ (Suc k - Suc i) = (256 :: nat) * 256 ^ (k - Suc i)"
      by (simp add: Suc_diff_Suc flip: power_Suc)
    then show "char_of (n div 256 ^ (Suc k - Suc i) mod 256) = (char_of (n div 256 div 256 ^ (k - Suc i) mod 256) :: char)"
      by (simp only: div_mult2_eq)
  qed
  have "foldl (\<lambda>a c. a * 256 + of_char c) 0 (map (\<lambda>i. char_of (n div 256 ^ (Suc k - Suc i) mod 256)) [0..<Suc k])
      = (n div 256) mod 256 ^ k * 256 + n mod 256"
    by (simp only: upt_Suc le0 if_True map_append foldl_append M Suc.IH) simp
  also have "\<dots> = n mod 256 ^ Suc k" by (simp add: mod_mult2_eq mult.commute)
  finally show ?case .
qed simp

lemma decode_encodeVer: "int64 v \<Longrightarrow> decodeVer (encodeVer v b) = Some (v, b)"
proof -
  assume v: "int64 v"
  have "length (be_bytes n) = 8" for n by (simp add: be_bytes_def)
  moreover have "be_val (be_bytes n) = n mod 2 ^ 64" for n
    using be_digits [of n 8] by (simp add: be_val_def be_bytes_def)
  moreover have "wrap64 (v mod 2 ^ 64) = v"
    using v unfolding wrap64_def int64_def by (simp add: mod_add_left_eq)
  ultimately show ?thesis by (simp add: decodeVer_def encodeVer_def)
qed

section \<open>The sandbox's stub\<close>

definition stub_cache :: "instant \<Rightarrow> (SetCall list, mc_err) pointer_cache_ops" where
  "stub_cache now = \<lparr>pc_Get = Stub_Get, pc_Set = Stub_Set now, pc_CurrentVersion = Stub_CurrentVersion\<rparr>"

interpretation stub_pointers: pointer_cache Stub_CurrentVersion "\<lambda>e. e = ErrCacheMiss"
  by unfold_locales (auto simp: Stub_CurrentVersion_def)

section \<open>Lemmas\<close>

lemma lru_Get_law: "lru_laws peek L \<Longrightarrow> fst (lru_Get L k l) = peek l k \<and> peek (snd (lru_Get L k l)) = peek l"
  by (simp add: lru_laws_def)

lemma lru_Add_law: "lru_laws peek L \<Longrightarrow> peek (lru_Add L k e l) k = Some e"
  by (simp add: lru_laws_def)

lemma lru_Remove_law: "lru_laws peek L \<Longrightarrow> peek (lru_Remove L k l) = (peek l)(k := None)"
  by (simp add: lru_laws_def)

lemma tier0Lookup_Some:
  assumes "lru_laws peek L" and "tier0 r = Some L" and "peek l (entityIDKey ent rid) = Some e"
  shows "\<exists>l1. tier0Lookup r now ent rid l = (Some (entityIDKey ent rid, 0, tier0Remaining (cfg r) now e), l1) \<and> peek l1 = peek l"
  using lru_Get_law [OF assms(1), of "entityIDKey ent rid" l] assms(2,3)
  by (cases "lru_Get L (entityIDKey ent rid) l") (auto simp: tier0Lookup_def)

lemma tier0Lookup_None:
  assumes "lru_laws peek L" and "tier0 r = Some L" and "peek l (entityIDKey ent rid) = None"
  shows "\<exists>l1. tier0Lookup r now ent rid l = (None, l1) \<and> peek l1 = peek l"
  using lru_Get_law [OF assms(1), of "entityIDKey ent rid" l] assms(2,3)
  by (cases "lru_Get L (entityIDKey ent rid) l") (auto simp: tier0Lookup_def)

lemma tier0Body_Some:
  assumes "lru_laws peek L" and "tier0 r = Some L" and "peek l k = Some e"
  shows "\<exists>l1. tier0Body r k l = (Inr (body e), l1) \<and> peek l1 = peek l"
  using lru_Get_law [OF assms(1), of k l] assms(2,3)
  by (cases "lru_Get L k l") (auto simp: tier0Body_def)

lemma tier1Lookup_exact:
  assumes "exact_server view mc" and "r_cache r = client_cache mc" and "tier1Lookup r ent rid s = (q, s')"
  shows "view s' = view s \<and> (\<forall>b. q = Inr b \<longrightarrow> 0 < pointer (view s) ent rid
      \<and> view s (CacheKey ent rid (pointer (view s) ent rid)) = Some b)"
proof -
  obtain c s1 where c: "CurrentVersion mc ent rid s = (c, s1)" by fastforce
  obtain g s2 where g: "Client_Get mc (CacheKey ent rid (pointer (view s) ent rid)) s1 = (g, s2)" by fastforce
  note [simp] = assms(2) client_cache_def c g
  from CurrentVersion_exact [OF assms(1) c] Client_Get_exact [OF assms(1) g] assms(3) CurrentVersion_range [of mc ent rid s _ s1]
  show ?thesis by (cases c) (auto simp: tier1Lookup_def split: if_splits sum.splits)
qed

lemma Reader_miss_source:
  assumes "exact_server view mc" and "r_cache r = client_cache mc"
    and "Reader_miss r now' Lead dn loader ent rid l s = (Inr b, l', s')"
  shows "(0 < pointer (view s) ent rid \<and> view s (CacheKey ent rid (pointer (view s) ent rid)) = Some b)
    \<or> (\<exists>s1. view s1 = view s \<and> fst (loader s1) = Inr b)"
proof -
  obtain q s1 where q: "tier1Lookup r ent rid s = (q, s1)" by fastforce
  note t1 = tier1Lookup_exact [OF assms(1,2) q]
  show ?thesis
  proof (cases q)
    case (Inr c)
    with q t1 assms(3) show ?thesis by (auto simp: Reader_miss_def)
  next
    case (Inl e)
    with q assms(3) have "fst (loader s1) = Inr b"
      by (auto simp: Reader_miss_def Reader_load_def Let_def split: prod.splits sum.splits option.splits)
    with t1 show ?thesis by blast
  qed
qed

text \<open>An LRU that is never full: a map.\<close>

definition map_lru :: "(string \<rightharpoonup> tier0Entry) lru" where
  "map_lru = \<lparr>lru_Get = (\<lambda>k l. (l k, l)), lru_Add = (\<lambda>k e l. l(k \<mapsto> e)), lru_Remove = (\<lambda>k l. l(k := None))\<rparr>"

lemma map_lru_laws: "lru_laws (\<lambda>l. l) map_lru"
  by (simp add: lru_laws_def map_lru_def)


definition example_reader :: "(string \<rightharpoonup> bytes, mc_err, string \<rightharpoonup> tier0Entry) reader" where
  "example_reader = \<lparr>r_cache = client_cache kv_server, cfg = Reader_DefaultConfig, tier0 = Some map_lru\<rparr>"


text \<open>
  C18: an entry whose TTL has run out is served. For every random number and every loader, a
  tier-0 entry that expired is returned as it is, without asking memcached or the database:
  the XFetch rule answers "do not refresh" when nothing remains, and no other check looks at the TTL.
\<close>

theorem expired_entry_served:
  assumes "lru_laws peek L" and "tier0 r = Some L"
    and "peek l (entityIDKey ent rid) = Some e" and "0 < ttl e" and "loadedAt e + ttl e \<le> now"
  shows "\<exists>l'. Reader_Get r now x now' role dn loader ent rid l s = (Inr (body e), l', s) \<and> peek l' = peek l"
proof -
  from assms(4,5) have rem: "tier0Remaining (cfg r) now e = 0" by (simp add: tier0Remaining_def Let_def)
  obtain l1 where l1: "tier0Lookup r now ent rid l = (Some (entityIDKey ent rid, 0, 0), l1)" "peek l1 = peek l"
    using tier0Lookup_Some [OF assms(1-3), of now] rem by auto
  obtain l2 where "tier0Body r (entityIDKey ent rid) l1 = (Inr (body e), l2)" "peek l2 = peek l1"
    using tier0Body_Some [OF assms(1,2), of l1 "entityIDKey ent rid" e] assms(3) l1(2) by auto
  with l1 show ?thesis by (simp add: Reader_Get_def xfetchShouldRefresh_def)
qed

theorem expired_entry_served_witness:
  "\<exists>l'. Reader_Get example_reader (24 * hour) (1 / 2) 0 Lead None (\<lambda>s. (Inr ''new'', s)) ''e'' ''1''
      [entityIDKey ''e'' ''1'' \<mapsto> \<lparr>body = ''old'', loadedAt = 0, ttl = minute\<rparr>] Map.empty = (Inr ''old'', l', Map.empty)"
  using expired_entry_served [OF map_lru_laws, of example_reader _ "''e''" "''1''" "\<lparr>body = ''old'', loadedAt = 0, ttl = minute\<rparr>" "24 * hour"]
  by (fastforce simp: example_reader_def)

text \<open>
  C19: the version a loaded body is cached under is read after the load. If the pointer moves to
  \<open>w\<close> while the loader runs, the body loaded before the move is stored under version \<open>w\<close>, in the
  LRU as well, and is what memcached then holds for the current pointer.
\<close>

theorem refill_uses_later_version:
  assumes "exact_server view mc" and "r_cache r = client_cache mc"
    and "tier1Lookup r ent rid s = (Inl m, s1)" and "loader s1 = (Inr old, s2)"
    and "CurrentVersion mc ent rid s2 = (Inr w, s3)" and "0 < w"
    and "Client_Set mc (CacheKey ent rid w) old (DefaultTTL (cfg r)) s3 = (Inr (), s4)"
    and "CacheKey ent rid w \<noteq> PointerKey ent rid"
  shows "\<exists>l'. Reader_miss r now' Lead None loader ent rid l s = (Inr old, l', s4)
    \<and> pointer (view s4) ent rid = w \<and> view s4 (CacheKey ent rid w) = Some old"
proof -
  from Client_Set_exact [OF assms(1,7)] have v: "view s4 = (view s3)(CacheKey ent rid w \<mapsto> old)" by simp
  from CurrentVersion_exact [OF assms(1,5)] have "view s3 = view s2" "w = pointer (view s2) ent rid" by auto
  with v assms(8) have "pointer (view s4) ent rid = w" by (simp add: pointer_def)
  with v assms(2-7) show ?thesis
    by (simp add: Reader_miss_def Reader_load_def client_cache_def)
qed

theorem refill_uses_later_version_witness:
  "\<exists>l' s'. Reader_miss example_reader 0 Lead None
       (\<lambda>s. (Inr ''row v1'', s(PointerKey ''e'' ''1'' \<mapsto> formatInt64 2))) ''e'' ''1'' Map.empty Map.empty = (Inr ''row v1'', l', s')
     \<and> pointer s' ''e'' ''1'' = 2 \<and> s' (CacheKey ''e'' ''1'' 2) = Some ''row v1''"
proof -
  let ?s2 = "[PointerKey ''e'' ''1'' \<mapsto> formatInt64 2]"
  let ?ld = "\<lambda>s :: string \<rightharpoonup> bytes. (Inr ''row v1'' :: nat + bytes, s(PointerKey ''e'' ''1'' \<mapsto> formatInt64 2))"
  have p: "parseInt64 (formatInt64 2) = Inr 2" by (simp add: parse_format int64_def)
  have t1: "tier1Lookup example_reader ''e'' ''1'' Map.empty = (Inl None, Map.empty)"
    by (simp add: tier1Lookup_def example_reader_def client_cache_def CurrentVersion_def Client_Get_def kv_server_def)
  have cv: "CurrentVersion kv_server ''e'' ''1'' ?s2 = (Inr 2, ?s2)"
    by (simp add: CurrentVersion_def Client_Get_def kv_server_def p)
  have st: "Client_Set kv_server (CacheKey ''e'' ''1'' 2) ''row v1'' (DefaultTTL (cfg example_reader)) ?s2
      = (Inr (), ?s2(CacheKey ''e'' ''1'' 2 \<mapsto> ''row v1''))"
    by (simp add: Client_Set_def kv_server_def)
  have i: "itoa 2 = ''2''" by code_simp
  have ne: "CacheKey ''e'' ''1'' 2 \<noteq> PointerKey ''e'' ''1''" by (simp add: CacheKey_def PointerKey_def i)
  have r: "r_cache example_reader = client_cache kv_server" by (simp add: example_reader_def)
  show ?thesis
    using refill_uses_later_version [OF kv_server_exact r t1 _ cv _ st ne, of ?ld 0 Map.empty] by auto
qed

end
