(* ===== verification/Worker.thy ===== *)
theory Worker
  imports ReadCache
begin

text \<open>
  \<open>internal/cache/invalidate\<close>: \<open>outbox.go\<close>, which records a cache invalidation inside the write
  transaction, and \<open>worker.go\<close>, which drains the records into memcached, the LRU and the
  generation counters. The two tables are lists of rows; each SQL statement of the source is a
  function on them. What Postgres decides (which rows other sessions lock, which statements
  fail) is the record \<open>pg_env\<close>. The three interfaces of the worker are the record
  \<open>worker_deps\<close> of methods on a state \<open>'w\<close>; a method may also panic. Logging and
  metrics are left out.
\<close>

section \<open>Tables\<close>

record outbox_row =
  o_id :: int
  o_entity :: string
  o_row_id :: string
  o_new_version :: int
  o_kind :: string
  o_enqueued_at :: instant
  o_attempts :: int
  o_last_error :: "string option"
  o_last_error_at :: "instant option"

record outbox_db =
  invs :: "outbox_row list"
  dead :: "outbox_row list"
  seq :: int

section \<open>outbox.go\<close>

datatype outbox_err = RequiredArgs | BadSchema string | TxExec

definition ident_start :: "char \<Rightarrow> bool" where
  "ident_start c \<longleftrightarrow> (let n = of_char c :: nat in 97 \<le> n \<and> n \<le> 122 \<or> 65 \<le> n \<and> n \<le> 90 \<or> n = 95)"

definition validateSchema :: "string \<Rightarrow> outbox_err option" where
  "validateSchema s =
     (case s of
        [] \<Rightarrow> Some (BadSchema s)
      | c # cs \<Rightarrow> if ident_start c \<and> list_all (\<lambda>d. ident_start d \<or> is_digit d) cs then None else Some (BadSchema s))"

definition NewOutbox :: string where "NewOutbox = ''atlantis''"

text \<open>
  The \<open>INSERT\<close> with the column defaults of the migration: a fresh id from the sequence,
  \<open>enqueued_at = now()\<close>, no attempts, no error.
\<close>

definition insert_invalidation :: "instant \<Rightarrow> string \<Rightarrow> string \<Rightarrow> int \<Rightarrow> string \<Rightarrow> outbox_db \<Rightarrow> outbox_db" where
  "insert_invalidation now entity rid v kind db =
     db\<lparr>invs := invs db @ [\<lparr>o_id = seq db, o_entity = entity, o_row_id = rid, o_new_version = v, o_kind = kind,
          o_enqueued_at = now, o_attempts = 0, o_last_error = None, o_last_error_at = None\<rparr>],
        seq := seq db + 1\<rparr>"

definition Enqueue ::
  "bool \<Rightarrow> instant \<Rightarrow> string \<Rightarrow> string \<Rightarrow> string \<Rightarrow> int \<Rightarrow> outbox_db \<Rightarrow> (outbox_err + unit) \<times> outbox_db" where
  "Enqueue exec_fails now o_Schema entity rid newVersion db =
     (if entity = [] \<or> rid = [] then (Inl RequiredArgs, db)
      else let schema = (if o_Schema = [] then ''atlantis'' else o_Schema)
           in case validateSchema schema of
                Some e \<Rightarrow> (Inl e, db)
              | None \<Rightarrow> if exec_fails then (Inl TxExec, db)
                        else (Inr (), insert_invalidation now entity rid newVersion ''invalidation'' db))"

definition EnqueueGenerationBump ::
  "bool \<Rightarrow> instant \<Rightarrow> string \<Rightarrow> string \<Rightarrow> outbox_db \<Rightarrow> (outbox_err + unit) \<times> outbox_db" where
  "EnqueueGenerationBump exec_fails now o_Schema entity db =
     (if entity = [] then (Inl RequiredArgs, db)
      else let schema = (if o_Schema = [] then ''atlantis'' else o_Schema)
           in case validateSchema schema of
                Some e \<Rightarrow> (Inl e, db)
              | None \<Rightarrow> if exec_fails then (Inl TxExec, db)
                        else (Inr (), insert_invalidation now entity entity 0 ''generation_bump'' db))"

section \<open>worker.go: configuration\<close>

record worker_config =
  w_Schema :: string
  DrainInterval :: duration
  BatchSize :: int
  PointerTTL :: duration
  AlertLag :: duration
  BumpDebounce :: duration
  MaxAttempts :: int

definition DefaultWorkerConfig :: worker_config where
  "DefaultWorkerConfig = \<lparr>w_Schema = ''atlantis'', DrainInterval = 250 * millisecond, BatchSize = 100,
     PointerTTL = 24 * hour, AlertLag = 5 * minute, BumpDebounce = 100 * millisecond, MaxAttempts = 100\<rparr>"

datatype 'e dep_err = DErr 'e | DPanic nat

record ('w, 'e) worker_deps =
  d_SetVersion :: "string \<Rightarrow> string \<Rightarrow> int \<Rightarrow> duration \<Rightarrow> 'w \<Rightarrow> ('e dep_err + unit) \<times> 'w"
  d_IsStale :: "'e \<Rightarrow> bool"
  d_Invalidate :: "(string \<Rightarrow> string \<Rightarrow> 'w \<Rightarrow> 'w) option"
  d_BumpGeneration :: "(string \<Rightarrow> 'w \<Rightarrow> ('e dep_err + int) \<times> 'w) option"
  d_IsTimeout :: "'e \<Rightarrow> bool"

record worker =
  w_cfg :: worker_config
  lastBump :: "string \<rightharpoonup> instant"
  lastDrainNS :: instant

definition NewWorker :: "instant \<Rightarrow> worker_config \<Rightarrow> outbox_err + worker" where
  "NewWorker now cf =
     (let schema = (if w_Schema cf = [] then ''atlantis'' else w_Schema cf)
      in case validateSchema schema of
           Some e \<Rightarrow> Inl e
         | None \<Rightarrow> Inr \<lparr>
             w_cfg = \<lparr>w_Schema = schema,
               DrainInterval = (if DrainInterval cf = 0 then 250 * millisecond else DrainInterval cf),
               BatchSize = (if BatchSize cf = 0 then 100 else BatchSize cf),
               PointerTTL = (if PointerTTL cf = 0 then 24 * hour else PointerTTL cf),
               AlertLag = (if AlertLag cf = 0 then 5 * minute else AlertLag cf),
               BumpDebounce = (if BumpDebounce cf = 0 then 100 * millisecond else BumpDebounce cf),
               MaxAttempts = (if MaxAttempts cf \<le> 0 then 100 else MaxAttempts cf)\<rparr>,
             lastBump = Map.empty, lastDrainNS = now\<rparr>)"

definition LastDrainAt :: "worker \<Rightarrow> instant" where
  "LastDrainAt w = lastDrainNS w"

section \<open>worker.go: the drain transaction\<close>

datatype stmt = DeleteRow int | MarkFailure int | MoveToDLQ int

record pg_env =
  begin_fails :: bool
  claim_fails :: bool
  stmt_fails :: "stmt \<Rightarrow> bool"
  commit_fails :: bool
  row_locked :: "int \<Rightarrow> bool"

text \<open>A transaction: its view of the tables, and whether a failed statement has aborted it.\<close>

record tx =
  t_db :: outbox_db
  t_aborted :: bool

text \<open>
  The \<open>WHERE\<close> clause of the claim. \<open>power(2, attempts) * interval '100 milliseconds'\<close> is
  computed before \<open>LEAST\<close> caps it; an interval holds a 64-bit number of microseconds, so the
  product raises an error (\<open>None\<close>) from 47 attempts on.
\<close>

definition eligible :: "instant \<Rightarrow> outbox_row \<Rightarrow> bool option" where
  "eligible now r =
     (case o_last_error_at r of
        None \<Rightarrow> Some True
      | Some t \<Rightarrow>
          if 2 ^ nat (o_attempts r) * 100000 \<ge> (2 :: int) ^ 63 then None
          else Some (now > t + min (2 ^ nat (o_attempts r) * (100 * millisecond)) hour))"

fun claim_scan :: "pg_env \<Rightarrow> instant \<Rightarrow> nat \<Rightarrow> outbox_row list \<Rightarrow> (unit + outbox_row list)" where
  "claim_scan env now 0 rs = Inr []"
| "claim_scan env now (Suc n) [] = Inr []"
| "claim_scan env now (Suc n) (r # rs) =
     (case eligible now r of
        None \<Rightarrow> Inl ()
      | Some ok \<Rightarrow>
          if ok \<and> \<not> row_locked env (o_id r)
          then (case claim_scan env now n rs of Inl e \<Rightarrow> Inl e | Inr out \<Rightarrow> Inr (r # out))
          else claim_scan env now (Suc n) rs)"

definition claimInTx :: "worker_config \<Rightarrow> pg_env \<Rightarrow> instant \<Rightarrow> tx \<Rightarrow> unit + outbox_row list" where
  "claimInTx cf env now t =
     (if claim_fails env \<or> BatchSize cf < 0 then Inl ()
      else claim_scan env now (nat (BatchSize cf)) (sort_key o_enqueued_at (invs (t_db t))))"

text \<open>
  \<open>tx.Exec\<close>: nothing runs in an aborted transaction, and a failing statement aborts it.
  The first component tells whether the statement succeeded.
\<close>

definition tx_exec :: "pg_env \<Rightarrow> stmt \<Rightarrow> (outbox_db \<Rightarrow> outbox_db option) \<Rightarrow> tx \<Rightarrow> bool \<times> tx" where
  "tx_exec env st f t =
     (if t_aborted t then (False, t)
      else if stmt_fails env st then (False, t\<lparr>t_aborted := True\<rparr>)
      else case f (t_db t) of
             None \<Rightarrow> (False, t\<lparr>t_aborted := True\<rparr>)
           | Some db \<Rightarrow> (True, t\<lparr>t_db := db\<rparr>))"

definition deleteInTx :: "pg_env \<Rightarrow> int \<Rightarrow> tx \<Rightarrow> bool \<times> tx" where
  "deleteInTx env i t =
     tx_exec env (DeleteRow i) (\<lambda>db. Some (db\<lparr>invs := delete_where (\<lambda>r. o_id r = i) (invs db)\<rparr>)) t"

text \<open>The dead-letter \<open>INSERT\<close> fails on a duplicate primary key.\<close>

definition dead_letter :: "instant \<Rightarrow> string \<Rightarrow> outbox_row \<Rightarrow> outbox_row" where
  "dead_letter now msg r = r\<lparr>o_attempts := o_attempts r + 1, o_last_error := Some msg, o_last_error_at := Some now\<rparr>"

definition moveToDLQInTx :: "pg_env \<Rightarrow> instant \<Rightarrow> int \<Rightarrow> string \<Rightarrow> tx \<Rightarrow> tx" where
  "moveToDLQInTx env now i sanitizedErr t =
     snd (tx_exec env (MoveToDLQ i)
       (\<lambda>db. let moved = filter (\<lambda>r. o_id r = i) (invs db)
             in if moved \<noteq> [] \<and> i \<in> set (map o_id (dead db)) then None
                else Some (db\<lparr>invs := delete_where (\<lambda>r. o_id r = i) (invs db),
                              dead := dead db @ map (dead_letter now sanitizedErr) moved\<rparr>)) t)"

datatype 'e apply_err = ADep "'e" | APanic nat | UnknownKind string | EmptyEntity

definition sanitizeError :: "('w, 'e) worker_deps \<Rightarrow> 'e apply_err option \<Rightarrow> string" where
  "sanitizeError d err =
     (case err of
        None \<Rightarrow> []
      | Some (ADep e) \<Rightarrow> if d_IsTimeout d e then ''timeout'' else ''apply_failed''
      | Some _ \<Rightarrow> ''apply_failed'')"

definition markFailureInTx ::
  "('w, 'e) worker_deps \<Rightarrow> worker_config \<Rightarrow> pg_env \<Rightarrow> instant \<Rightarrow> outbox_row \<Rightarrow> 'e apply_err \<Rightarrow> tx \<Rightarrow> tx" where
  "markFailureInTx d cf env now r applyErr t =
     (let msg = sanitizeError d (Some applyErr)
      in if o_attempts r + 1 \<ge> MaxAttempts cf then moveToDLQInTx env now (o_id r) msg t
         else snd (tx_exec env (MarkFailure (o_id r))
                (\<lambda>db. Some (db\<lparr>invs := update_where (\<lambda>q. o_id q = o_id r) (dead_letter now msg) (invs db)\<rparr>)) t))"

section \<open>worker.go: applying one row\<close>

definition dep_result :: "('e dep_err + 'a) \<Rightarrow> 'e apply_err + 'a" where
  "dep_result q = (case q of Inl (DErr e) \<Rightarrow> Inl (ADep e) | Inl (DPanic n) \<Rightarrow> Inl (APanic n) | Inr a \<Rightarrow> Inr a)"

definition applyInvalidation ::
  "('w, 'e) worker_deps \<Rightarrow> outbox_row \<Rightarrow> worker \<times> 'w \<Rightarrow> ('e apply_err + unit) \<times> worker \<times> 'w" where
  "applyInvalidation d r st =
     (let (w, x) = st;
          (q, x1) = d_SetVersion d (o_entity r) (o_row_id r) (o_new_version r) (PointerTTL (w_cfg w)) x
      in case q of
           Inl (DErr e) \<Rightarrow> (if d_IsStale d e then Inr () else Inl (ADep e), w, x1)
         | _ \<Rightarrow> (dep_result q, w, x1))"

text \<open>
  \<open>now\<close> is read by both \<open>time.Since(last)\<close> and \<open>time.Now()\<close>. The roll-back after a
  failed bump compares the entry just written with \<open>last\<close>; a map lookup of a missing key
  gives the zero time.
\<close>

definition zero_time :: instant where "zero_time = - 62135596800000000000"

definition applyGenerationBump ::
  "('w, 'e) worker_deps \<Rightarrow> instant \<Rightarrow> outbox_row \<Rightarrow> worker \<times> 'w \<Rightarrow> ('e apply_err + unit) \<times> worker \<times> 'w" where
  "applyGenerationBump d now r st =
     (case d_BumpGeneration d of
        None \<Rightarrow> (Inr (), st)
      | Some bump \<Rightarrow>
          if o_entity r = [] then (Inl EmptyEntity, st)
          else let (w, x) = st;
                   seen = (lastBump w (o_entity r) \<noteq> None);
                   last = (case lastBump w (o_entity r) of None \<Rightarrow> zero_time | Some t \<Rightarrow> t)
               in if seen \<and> now - last < BumpDebounce (w_cfg w) then (Inr (), w, x)
                  else let w1 = w\<lparr>lastBump := (lastBump w)(o_entity r \<mapsto> now)\<rparr>;
                           (q, x1) = bump (o_entity r) x
                       in case q of
                            Inr _ \<Rightarrow> (Inr (), w1, x1)
                          | Inl (DPanic n) \<Rightarrow> (Inl (APanic n), w1, x1)
                          | Inl (DErr e) \<Rightarrow>
                              (Inl (ADep e),
                               (if (case lastBump w1 (o_entity r) of None \<Rightarrow> zero_time | Some t \<Rightarrow> t) = last \<or> \<not> seen
                                then w1\<lparr>lastBump := (lastBump w1)(o_entity r := None)\<rparr> else w1), x1))"

definition apply_row ::
  "('w, 'e) worker_deps \<Rightarrow> instant \<Rightarrow> outbox_row \<Rightarrow> worker \<times> 'w \<Rightarrow> ('e apply_err + unit) \<times> worker \<times> 'w" where
  "apply_row d now r st =
     (if o_kind r = [] \<or> o_kind r = ''invalidation'' then applyInvalidation d r st
      else if o_kind r = ''generation_bump'' then applyGenerationBump d now r st
      else (Inl (UnknownKind (o_kind r)), st))"

text \<open>
  \<open>processRow\<close>; a panic inside \<open>apply\<close> is recovered and counts as a failure. \<open>now\<close> is
  the Go clock, \<open>tnow\<close> the transaction's \<open>now()\<close>.
\<close>

definition processRow ::
  "('w, 'e) worker_deps \<Rightarrow> pg_env \<Rightarrow> instant \<Rightarrow> instant \<Rightarrow> outbox_row \<Rightarrow> worker \<times> 'w \<times> tx \<Rightarrow> worker \<times> 'w \<times> tx" where
  "processRow d env now tnow r st =
     (let (w, x, t) = st; (q, w1, x1) = apply_row d now r (w, x)
      in case q of
           Inl e \<Rightarrow> (w1, x1, markFailureInTx d (w_cfg w1) env tnow r e t)
         | Inr _ \<Rightarrow>
             (let x2 = (case d_Invalidate d of
                          Some drop_lru \<Rightarrow> if o_kind r = [] \<or> o_kind r = ''invalidation''
                                      then drop_lru (o_entity r) (o_row_id r) x1 else x1
                        | None \<Rightarrow> x1)
              in (w1, x2, snd (deleteInTx env (o_id r) t))))"

text \<open>
  \<open>drainOnce\<close>. \<open>clk\<close> gives the Go clock at the row it processes. A commit of an aborted
  transaction rolls back; the memcached and LRU effects stay either way.
\<close>

definition drainOnce ::
  "('w, 'e) worker_deps \<Rightarrow> pg_env \<Rightarrow> (int \<Rightarrow> instant) \<Rightarrow> instant \<Rightarrow> worker \<times> 'w \<times> outbox_db \<Rightarrow> int \<times> worker \<times> 'w \<times> outbox_db" where
  "drainOnce d env clk tnow st =
     (let (w, x, db) = st
      in if begin_fails env then (0, w, x, db)
         else case claimInTx (w_cfg w) env tnow \<lparr>t_db = db, t_aborted = False\<rparr> of
                Inl _ \<Rightarrow> (0, w, x, db)
              | Inr rows \<Rightarrow>
                  (let w0 = w\<lparr>lastDrainNS := tnow\<rparr>
                   in if rows = [] then (0, w0, x, db)
                      else let (w1, x1, t) = foldl (\<lambda>s r. processRow d env (clk (o_id r)) tnow r s)
                                              (w0, x, \<lparr>t_db = db, t_aborted = False\<rparr>) rows
                           in (int (length rows), w1, x1,
                               (if commit_fails env \<or> t_aborted t then db else t_db t))))"

text \<open>
  \<open>Drain\<close>, over the conditions each round meets: the context's error, Postgres and the clocks.
  \<open>None\<close> means it is still looping when the rounds given run out.
\<close>

fun Drain ::
  "('w, 'e) worker_deps \<Rightarrow> (nat option \<times> pg_env \<times> (int \<Rightarrow> instant) \<times> instant) list \<Rightarrow> worker \<times> 'w \<times> outbox_db
     \<Rightarrow> ((nat + unit) \<times> worker \<times> 'w \<times> outbox_db) option" where
  "Drain d [] st = None"
| "Drain d ((cerr, env, clk, tnow) # rounds) st =
     (case cerr of
        Some e \<Rightarrow> Some (Inl e, st)
      | None \<Rightarrow> (let (n, st1) = drainOnce d env clk tnow st
                 in if n = 0 then Some (Inr (), st1) else Drain d rounds st1))"

text \<open>
  The loop of \<open>Run\<close> over the wake-ups it selects: the ticker and the notification channel both
  drain once, the end of the context ends it. Each round brings its Postgres and clocks.
\<close>

datatype wakeup = Tick | Notify | CtxDoneRun nat

fun run_loop ::
  "('w, 'e) worker_deps \<Rightarrow> (wakeup \<times> pg_env \<times> (int \<Rightarrow> instant) \<times> instant) list \<Rightarrow> worker \<times> 'w \<times> outbox_db
     \<Rightarrow> (nat \<times> worker \<times> 'w \<times> outbox_db) option" where
  "run_loop d [] st = None"
| "run_loop d ((ev, env, clk, tnow) # rest) st =
     (case ev of
        CtxDoneRun e \<Rightarrow> Some (e, st)
      | _ \<Rightarrow> run_loop d rest (snd (drainOnce d env clk tnow st)))"

definition Worker_Run ::
  "('w, 'e) worker_deps \<Rightarrow> pg_env \<times> (int \<Rightarrow> instant) \<times> instant \<Rightarrow> (wakeup \<times> pg_env \<times> (int \<Rightarrow> instant) \<times> instant) list
     \<Rightarrow> worker \<times> 'w \<times> outbox_db \<Rightarrow> (nat \<times> worker \<times> 'w \<times> outbox_db) option" where
  "Worker_Run d first rest st = (let (env, clk, tnow) = first in run_loop d rest (snd (drainOnce d env clk tnow st)))"

section \<open>worker.go: sweeping\<close>

datatype sweep_err = SweepTooYoung duration | SweepExec

definition SweepOldRows :: "bool \<Rightarrow> instant \<Rightarrow> duration \<Rightarrow> outbox_db \<Rightarrow> (sweep_err + int) \<times> outbox_db" where
  "SweepOldRows exec_fails now olderThan db =
     (if olderThan < minute then (Inl (SweepTooYoung olderThan), db)
      else if exec_fails then (Inl SweepExec, db)
      else let old = (\<lambda>r. o_enqueued_at r < now - olderThan div second * second)
           in (Inr (int (length (filter old (invs db)))), db\<lparr>invs := delete_where old (invs db)\<rparr>))"

section \<open>Invariant and fate of rows\<close>

definition outbox_inv :: "outbox_db \<Rightarrow> bool" where
  "outbox_inv db \<longleftrightarrow> distinct (map o_id (invs db @ dead db))
     \<and> (\<forall>r\<in>set (invs db) \<union> set (dead db). o_id r < seq db)"

text \<open>What a drain does to the tables for one row whose \<open>apply\<close> answered \<open>q\<close>.\<close>

definition settle_row :: "('w, 'e) worker_deps \<Rightarrow> worker_config \<Rightarrow> instant \<Rightarrow> outbox_row \<Rightarrow> 'e apply_err + unit \<Rightarrow> outbox_db \<Rightarrow> outbox_db" where
  "settle_row d cf tnow r q db =
     (case q of
        Inr _ \<Rightarrow> db\<lparr>invs := delete_where (\<lambda>p. o_id p = o_id r) (invs db)\<rparr>
      | Inl e \<Rightarrow>
          let f = dead_letter tnow (sanitizeError d (Some e))
          in if o_attempts r + 1 \<ge> MaxAttempts cf
             then db\<lparr>invs := delete_where (\<lambda>p. o_id p = o_id r) (invs db),
                     dead := dead db @ map f (filter (\<lambda>p. o_id p = o_id r) (invs db))\<rparr>
             else db\<lparr>invs := update_where (\<lambda>p. o_id p = o_id r) f (invs db)\<rparr>)"

lemma dead_letter_id [simp]: "o_id (dead_letter now msg r) = o_id r"
  by (simp add: dead_letter_def)

lemma apply_row_cfg [simp]: "apply_row d now r (w, x) = (q, w', x') \<Longrightarrow> w_cfg w' = w_cfg w"
  by (auto simp: apply_row_def applyInvalidation_def applyGenerationBump_def Let_def
      split: if_splits option.splits prod.splits sum.splits dep_err.splits)

lemma processRow_tx:
  assumes "processRow d env now tnow r (w, x, t) = (w', x', t')" and "\<not> t_aborted t'"
  shows "\<not> t_aborted t \<and> w_cfg w' = w_cfg w \<and> (\<exists>q x1. apply_row d now r (w, x) = (q, w', x1)
    \<and> t_db t' = settle_row d (w_cfg w) tnow r q (t_db t))"
proof -
  obtain q w1 x1 where q: "apply_row d now r (w, x) = (q, w1, x1)" by (rule prod_cases3)
  show ?thesis
  proof (cases q)
    case (Inl e)
    with assms q show ?thesis
      by (auto simp: processRow_def markFailureInTx_def moveToDLQInTx_def tx_exec_def settle_row_def Let_def
          split: if_splits option.splits)
  next
    case (Inr u)
    with assms q show ?thesis
      by (auto simp: processRow_def deleteInTx_def tx_exec_def settle_row_def Let_def split: if_splits option.splits)
  qed
qed

lemma settle_row_ids:
  assumes "outbox_inv db" and "r \<in> set (invs db)"
  shows "outbox_inv (settle_row d cf tnow r q db)"
proof -
  let ?i = "\<lambda>p. o_id p = o_id r"
  from assms(1) have di: "distinct (map o_id (invs db))" "distinct (map o_id (dead db))"
      "o_id ` set (invs db) \<inter> o_id ` set (dead db) = {}"
    by (auto simp: outbox_inv_def)
  have del: "distinct (map o_id (delete_where ?i (invs db)))" using di(1) by (rule distinct_map_delete_where)
  have upd: "map o_id (update_where ?i (dead_letter tnow m) (invs db)) = map o_id (invs db)" for m
    by (rule map_update_where) simp
  have lt: "o_id p < seq db" if "p \<in> set (invs db) \<union> set (dead db)" for p
    using assms(1) that by (simp add: outbox_inv_def)
  show ?thesis
  proof (cases q)
    case (Inl e)
    show ?thesis
    proof (cases "o_attempts r + 1 \<ge> MaxAttempts cf")
      case True
      with Inl del di lt assms(2) show ?thesis
        by (auto simp: settle_row_def outbox_inv_def Let_def filter_key_unique [OF di(1) assms(2)])
    next
      case False
      from upd have ids: "o_id ` set (update_where ?i (dead_letter tnow m) (invs db)) = o_id ` set (invs db)" for m
        by (metis list.set_map)
      from False Inl upd di lt assms(1) ids show ?thesis
        by (auto simp: settle_row_def outbox_inv_def Let_def) (metis (no_types, lifting) UnI1 imageE imageI lt)
    qed
  next
    case (Inr u)
    with del di lt show ?thesis by (auto simp: settle_row_def outbox_inv_def)
  qed
qed

lemma claim_scan_sub:
  "claim_scan env now n rs = Inr out \<Longrightarrow>
     set out \<subseteq> set rs \<and> length out \<le> n \<and> (distinct (map o_id rs) \<longrightarrow> distinct (map o_id out))"
proof (induction env now n rs arbitrary: out rule: claim_scan.induct)
  case (3 env now n r rs)
  then show ?case
    by (auto split: option.splits if_splits sum.splits) (blast, (metis image_eqI subsetD)?)+
qed auto

lemma claimInTx_sub:
  assumes "claimInTx cf env now t = Inr out" and "distinct (map o_id (invs (t_db t)))"
  shows "set out \<subseteq> set (invs (t_db t)) \<and> distinct (map o_id out) \<and> int (length out) \<le> BatchSize cf"
proof -
  let ?rs = "sort_key o_enqueued_at (invs (t_db t))"
  from assms(1) have c: "claim_scan env now (nat (BatchSize cf)) ?rs = Inr out" and b: "0 \<le> BatchSize cf"
    by (auto simp: claimInTx_def split: if_splits)
  have "distinct (map o_id ?rs)" using assms(2) by (simp add: distinct_map)
  with claim_scan_sub [OF c] b show ?thesis by auto
qed

text \<open>
  The fate of a claimed row \<open>r\<close> in the tables \<open>db'\<close> after the drain: applied and gone, or
  still there with one more attempt, or, when that was the last attempt, a dead letter.
\<close>

definition fate ::
  "('w, 'e) worker_deps \<Rightarrow> (int \<Rightarrow> instant) \<Rightarrow> instant \<Rightarrow> worker_config \<Rightarrow> outbox_db \<Rightarrow> outbox_row \<Rightarrow> bool" where
  "fate d clk tnow cf db' r \<longleftrightarrow>
     (\<exists>msg. o_attempts r + 1 < MaxAttempts cf \<and> dead_letter tnow msg r \<in> set (invs db'))
   \<or> (\<exists>msg. o_attempts r + 1 \<ge> MaxAttempts cf \<and> dead_letter tnow msg r \<in> set (dead db'))
   \<or> (\<exists>w x w' x'. apply_row d (clk (o_id r)) r (w, x) = (Inr (), w', x'))
       \<and> o_id r \<notin> o_id ` (set (invs db') \<union> set (dead db'))"

lemma settle_row_others:
  assumes "p \<in> set (invs db)" and "o_id p \<noteq> o_id r"
  shows "p \<in> set (invs (settle_row d cf tnow r q db))"
  using assms by (auto simp: settle_row_def Let_def set_update_where split: sum.splits)

lemma settle_row_dead: "set (dead db) \<subseteq> set (dead (settle_row d cf tnow r q db))"
  by (auto simp: settle_row_def Let_def split: sum.splits)

lemma settle_row_no_new:
  "o_id ` set (invs (settle_row d cf tnow r q db)) \<subseteq> o_id ` set (invs db)
   \<and> o_id ` set (dead (settle_row d cf tnow r q db)) \<subseteq> o_id ` (set (dead db) \<union> (set (invs db) \<inter> {p. o_id p = o_id r}))"
  by (auto simp: settle_row_def Let_def set_update_where image_iff split: sum.splits)
     (metis (mono_tags, lifting) IntI UnI2 mem_Collect_eq, metis)

lemma settle_row_fate:
  assumes "outbox_inv db" and "r \<in> set (invs db)" and "apply_row d (clk (o_id r)) r (w, x) = (q, w', x')"
  shows "fate d clk tnow cf (settle_row d cf tnow r q db) r"
proof -
  from assms(1) have di: "distinct (map o_id (invs db))" and dj: "o_id ` set (invs db) \<inter> o_id ` set (dead db) = {}"
    by (auto simp: outbox_inv_def)
  show ?thesis
  proof (cases q)
    case (Inl e)
    then show ?thesis using assms(2)
      by (auto simp: fate_def settle_row_def Let_def set_update_where filter_key_unique [OF di assms(2)])
  next
    case (Inr u)
    have "o_id r \<notin> o_id ` set (dead db)" using dj assms(2) by blast
    with Inr assms(3) show ?thesis
      unfolding fate_def by (auto simp: settle_row_def image_iff)
  qed
qed

lemma fate_settle_other:
  assumes "fate d clk tnow cf db r" and "o_id r \<noteq> o_id s" 
  shows "fate d clk tnow cf (settle_row d cf tnow s q db) r"
proof -
  let ?db = "settle_row d cf tnow s q db"
  consider (retry) msg where "o_attempts r + 1 < MaxAttempts cf" "dead_letter tnow msg r \<in> set (invs db)"
    | (dlq) msg where "o_attempts r + 1 \<ge> MaxAttempts cf" "dead_letter tnow msg r \<in> set (dead db)"
    | (gone) w x w' x' where "apply_row d (clk (o_id r)) r (w, x) = (Inr (), w', x')" "o_id r \<notin> o_id ` (set (invs db) \<union> set (dead db))"
    using assms(1) unfolding fate_def by blast
  then show ?thesis
  proof cases
    case retry
    have "dead_letter tnow msg r \<in> set (invs ?db)"
      by (rule settle_row_others [OF retry(2)]) (simp add: assms(2))
    with retry(1) show ?thesis unfolding fate_def by blast
  next
    case dlq
    with settle_row_dead [of db] show ?thesis unfolding fate_def by blast
  next
    case gone
    then have "o_id r \<notin> o_id ` (set (invs ?db) \<union> set (dead ?db))"
      using settle_row_no_new [of d cf tnow s q db] assms(2) by blast
    with gone(1) show ?thesis unfolding fate_def by blast
  qed
qed

lemma fold_aborted:
  "foldl (\<lambda>s r. processRow d env (clk (o_id r)) tnow r s) (w, x, t) rows = (w', x', t') \<Longrightarrow> t_aborted t \<Longrightarrow> t_aborted t'"
proof (induction rows arbitrary: w x t)
  case (Cons s rows)
  obtain w2 x2 t2 where "processRow d env (clk (o_id s)) tnow s (w, x, t) = (w2, x2, t2)" by (rule prod_cases3)
  with Cons show ?case using processRow_tx [of d env "clk (o_id s)" tnow s w x t w2 x2 t2] by auto
qed simp

lemma settle_row_keeps_failed:
  assumes "r \<in> set (invs db)"
  shows "o_id r \<in> o_id ` (set (invs (settle_row d cf tnow r (Inl e) db)) \<union> set (dead (settle_row d cf tnow r (Inl e) db)))"
proof -
  have "dead_letter tnow (sanitizeError d (Some e)) r
      \<in> set (invs (settle_row d cf tnow r (Inl e) db)) \<union> set (dead (settle_row d cf tnow r (Inl e) db))"
    using assms by (auto simp: settle_row_def Let_def set_update_where)
  from imageI [OF this, of o_id] show ?thesis by simp
qed

lemma settle_row_keeps_ids:
  assumes "i \<noteq> o_id r" and "i \<in> o_id ` (set (invs db) \<union> set (dead db))"
  shows "i \<in> o_id ` (set (invs (settle_row d cf tnow r q db)) \<union> set (dead (settle_row d cf tnow r q db)))"
proof -
  from assms(2) obtain p where p: "p \<in> set (invs db) \<union> set (dead db)" "i = o_id p" by blast
  with assms(1) settle_row_others [of p db r] settle_row_dead [of db] show ?thesis by blast
qed

lemma fold_keeps_ids:
  assumes "foldl (\<lambda>s r. processRow d env (clk (o_id r)) tnow r s) (w, x, t) rows = (w', x', t')"
    and "\<not> t_aborted t'" and "i \<notin> o_id ` set rows" and "i \<in> o_id ` (set (invs (t_db t)) \<union> set (dead (t_db t)))"
  shows "i \<in> o_id ` (set (invs (t_db t')) \<union> set (dead (t_db t')))"
  using assms
proof (induction rows arbitrary: w x t)
  case (Cons r rows)
  obtain w1 x1 t1 where p: "processRow d env (clk (o_id r)) tnow r (w, x, t) = (w1, x1, t1)" by (rule prod_cases3)
  have f: "foldl (\<lambda>s r. processRow d env (clk (o_id r)) tnow r s) (w1, x1, t1) rows = (w', x', t')"
    using Cons.prems(1) p by simp
  have na: "\<not> t_aborted t1" using fold_aborted [OF f] Cons.prems(2) by blast
  from processRow_tx [OF p na] obtain q where "t_db t1 = settle_row d (w_cfg w) tnow r q (t_db t)" by blast
  with Cons.prems(3,4) have "i \<in> o_id ` (set (invs (t_db t1)) \<union> set (dead (t_db t1)))"
    using settle_row_keeps_ids [of i r "t_db t"] by simp
  with Cons.IH [OF f Cons.prems(2)] Cons.prems(3) show ?case by simp
qed simp

lemma settle_row_rest:
  assumes "set rows \<subseteq> set (invs db)" and "o_id r \<notin> o_id ` set rows"
  shows "set rows \<subseteq> set (invs (settle_row d cf tnow r q db))"
proof
  fix s assume s: "s \<in> set rows"
  then have "o_id s \<noteq> o_id r" using assms(2) by (metis image_eqI)
  then show "s \<in> set (invs (settle_row d cf tnow r q db))" using assms(1) s by (blast intro: settle_row_others)
qed

lemma drain_fold:
  assumes "foldl (\<lambda>s r. processRow d env (clk (o_id r)) tnow r s) (w, x, t) rows = (w', x', t')"
    and "\<not> t_aborted t'" and "outbox_inv (t_db t)" and "set rows \<subseteq> set (invs (t_db t))" and "distinct (map o_id rows)"
  shows "\<not> t_aborted t \<and> outbox_inv (t_db t') \<and> w_cfg w' = w_cfg w
    \<and> (\<forall>r\<in>set rows. fate d clk tnow (w_cfg w) (t_db t') r)
    \<and> (\<forall>p\<in>set (invs (t_db t)). o_id p \<notin> o_id ` set rows \<longrightarrow> p \<in> set (invs (t_db t')))
    \<and> set (dead (t_db t)) \<subseteq> set (dead (t_db t'))
    \<and> (\<forall>f. fate d clk tnow (w_cfg w) (t_db t) f \<and> o_id f \<notin> o_id ` set rows \<longrightarrow> fate d clk tnow (w_cfg w) (t_db t') f)"
  using assms
proof (induction rows arbitrary: w x t)
  case Nil
  then show ?case by simp
next
  case (Cons r rows)
  obtain w1 x1 t1 where p: "processRow d env (clk (o_id r)) tnow r (w, x, t) = (w1, x1, t1)" by (rule prod_cases3)
  have f: "foldl (\<lambda>s r. processRow d env (clk (o_id r)) tnow r s) (w1, x1, t1) rows = (w', x', t')"
    using Cons.prems(1) p by simp
  have r: "r \<in> set (invs (t_db t))" "o_id r \<notin> o_id ` set rows" using Cons.prems(4,5) by auto
  have na: "\<not> t_aborted t1" using fold_aborted [OF f] Cons.prems(2) by blast
  from processRow_tx [OF p na] obtain q y where q: "\<not> t_aborted t" "w_cfg w1 = w_cfg w"
      "apply_row d (clk (o_id r)) r (w, x) = (q, w1, y)" "t_db t1 = settle_row d (w_cfg w) tnow r q (t_db t)"
    by blast
  have inv1: "outbox_inv (t_db t1)" using settle_row_ids [OF Cons.prems(3) r(1)] q(4) by simp
  have sub1: "set rows \<subseteq> set (invs (t_db t1))"
    unfolding q(4) by (rule settle_row_rest) (use Cons.prems(4) r(2) in auto)
  note IH = Cons.IH [OF f Cons.prems(2) inv1 sub1, unfolded q(2)]
  have f1: "fate d clk tnow (w_cfg w) (t_db t1) r"
    using settle_row_fate [where clk = clk, OF Cons.prems(3) r(1) q(3)] q(4) by simp
  have f2: "fate d clk tnow (w_cfg w) (t_db t1) g" if "fate d clk tnow (w_cfg w) (t_db t) g" "o_id g \<noteq> o_id r" for g
    using fate_settle_other [OF that] q(4) by simp
  have others: "p \<in> set (invs (t_db t1))" if "p \<in> set (invs (t_db t))" "o_id p \<noteq> o_id r" for p
    using settle_row_others [OF that] q(4) by simp
  have "set (dead (t_db t)) \<subseteq> set (dead (t_db t1))" using settle_row_dead q(4) by simp
  with IH q(1) Cons.prems(5) f1 f2 others r(2) show ?case by auto
qed

lemma drainOnce_cases:
  assumes "drainOnce d env clk tnow (w, x, db) = (n, w', x', db')"
  obtains (idle) "n = 0" "x' = x" "db' = db"
  | (ran) rows t where "claimInTx (w_cfg w) env tnow \<lparr>t_db = db, t_aborted = False\<rparr> = Inr rows"
      "n = int (length rows)" "rows \<noteq> []"
      "foldl (\<lambda>s r. processRow d env (clk (o_id r)) tnow r s) (w\<lparr>lastDrainNS := tnow\<rparr>, x, \<lparr>t_db = db, t_aborted = False\<rparr>) rows = (w', x', t)"
      "db' = (if commit_fails env \<or> t_aborted t then db else t_db t)"
proof -
  let ?t = "\<lparr>t_db = db, t_aborted = False\<rparr>"
  show ?thesis
  proof (cases "begin_fails env")
    case True
    with assms idle show ?thesis by (simp add: drainOnce_def)
  next
    case False
    show ?thesis
    proof (cases "claimInTx (w_cfg w) env tnow ?t")
      case (Inl e)
      with assms False idle show ?thesis by (simp add: drainOnce_def)
    next
      case (Inr rows)
      show ?thesis
      proof (cases "rows = []")
        case True
        with assms False Inr idle show ?thesis by (simp add: drainOnce_def)
      next
        case ne: False
        obtain w1 x1 t where f: "foldl (\<lambda>s r. processRow d env (clk (o_id r)) tnow r s) (w\<lparr>lastDrainNS := tnow\<rparr>, x, ?t) rows = (w1, x1, t)"
          by (rule prod_cases3)
        from assms have "(int (length rows), w1, x1, if commit_fails env \<or> t_aborted t then db else t_db t) = (n, w', x', db')"
          by (simp add: drainOnce_def False Inr ne f)
        then show ?thesis using f ne by (intro ran [OF Inr]) auto
      qed
    qed
  qed
qed

text \<open>
  C1: a drain loses no invalidation. Whatever memcached, the LRU and Postgres do (statements
  that fail, an aborted or failed commit, panics), ids stay unique over both tables, dead letters
  stay, and every row of the outbox is afterwards either untouched, or was claimed and has the
  fate its \<open>apply\<close> gave it: gone after a success, one attempt more after a failure, or a dead
  letter when the attempts are used up. At most \<open>BatchSize\<close> rows are claimed.
\<close>

theorem drain_conserves_rows:
  assumes "outbox_inv db" and "0 \<le> BatchSize (w_cfg w)" and "drainOnce d env clk tnow (w, x, db) = (n, w', x', db')"
  shows "outbox_inv db' \<and> set (dead db) \<subseteq> set (dead db') \<and> n \<le> BatchSize (w_cfg w)
    \<and> (\<forall>r\<in>set (invs db). r \<in> set (invs db') \<or> fate d clk tnow (w_cfg w) db' r)"
proof (rule drainOnce_cases [OF assms(3)], goal_cases)
  case 1
  with assms(1,2) show ?case by simp
next
  case (2 rows t)
  have "distinct (map o_id (invs db))" using assms(1) by (simp add: outbox_inv_def)
  with claimInTx_sub [OF 2(1)] have rows: "set rows \<subseteq> set (invs db)" "distinct (map o_id rows)" "n \<le> BatchSize (w_cfg w)"
    using 2(2) by auto
  show ?case
  proof (cases "t_aborted t")
    case False
    have "(\<forall>r\<in>set rows. fate d clk tnow (w_cfg w) (t_db t) r)
        \<and> (\<forall>p\<in>set (invs db). o_id p \<notin> o_id ` set rows \<longrightarrow> p \<in> set (invs (t_db t)))
        \<and> outbox_inv (t_db t) \<and> set (dead db) \<subseteq> set (dead (t_db t))"
      using drain_fold [OF 2(4) False] assms(1) rows by simp
    moreover have "p \<in> set rows" if "p \<in> set (invs db)" "o_id p \<in> o_id ` set rows" for p
      using that rows(1) \<open>distinct (map o_id (invs db))\<close> by (auto simp: distinct_map inj_on_def)
    ultimately show ?thesis using 2(5) assms(1) rows(3) by auto
  qed (use 2(5) assms(1) rows(3) in auto)
qed

section \<open>The worker over the memcached client, the reader and the query cache\<close>

fun is_timeout :: "mc_err \<Rightarrow> bool" where
  "is_timeout (CtxErr n) = True"
| "is_timeout (GuardRead e) = is_timeout e"
| "is_timeout _ = False"

text \<open>The wiring of \<open>cmd/server\<close>: one client, one reader, one query cache on the same client.\<close>

definition client_deps :: "'s memcache \<Rightarrow> ('s, mc_err, 'l) reader \<Rightarrow> ('s \<times> 'l, qc_err) worker_deps" where
  "client_deps mc rd = \<lparr>
     d_SetVersion = (\<lambda>ent rid v t (s, l). case SetVersion mc ent rid v t s of
        (Inl e, s1) \<Rightarrow> (Inl (DErr (Mc e)), s1, l) | (Inr u, s1) \<Rightarrow> (Inr u, s1, l)),
     d_IsStale = (\<lambda>e. case e of Mc m \<Rightarrow> IsStale m | _ \<Rightarrow> False),
     d_Invalidate = Some (\<lambda>ent rid (s, l). (s, Invalidate rd ent rid l)),
     d_BumpGeneration = Some (\<lambda>ent (s, l). case BumpGeneration (Some mc) ent s of
        (Inl e, s1) \<Rightarrow> (Inl (DErr e), s1, l) | (Inr n, s1) \<Rightarrow> (Inr n, s1, l)),
     d_IsTimeout = (\<lambda>e. case e of Mc m \<Rightarrow> is_timeout m | _ \<Rightarrow> False)\<rparr>"

definition is_invalidation :: "outbox_row \<Rightarrow> bool" where
  "is_invalidation r \<longleftrightarrow> o_kind r = [] \<or> o_kind r = ''invalidation''"

text \<open>The row is published: the pointer has reached its version and no reader memory is left.\<close>

definition published :: "('s \<Rightarrow> string \<rightharpoonup> bytes) \<Rightarrow> ('l \<Rightarrow> string \<rightharpoonup> tier0Entry) \<Rightarrow> 's \<times> 'l \<Rightarrow> outbox_row \<Rightarrow> bool" where
  "published view peek x r \<longleftrightarrow> o_new_version r \<le> pointer (view (fst x)) (o_entity r) (o_row_id r)
     \<and> peek (snd x) (entityIDKey (o_entity r) (o_row_id r)) = None"

lemma PointerKey_not_generation: "PointerKey e i \<noteq> GenerationKey e'"
  by (simp add: PointerKey_def GenerationKey_def)

lemma bump_keeps_pointers:
  assumes "exact_server view mc" and "BumpGeneration (Some mc) ent s = (q, s')"
  shows "pointer (view s') e i = pointer (view s) e i"
proof -
  obtain r where "Increment mc (GenerationKey ent) 1 s = (r, s')"
    using assms(2) by (auto simp: BumpGeneration_def split: prod.splits sum.splits)
  from Increment_others [OF assms(1) this] PointerKey_not_generation show ?thesis
    by (simp add: pointer_def)
qed

lemma PointerKey_frame:
  assumes "\<forall>k. k \<noteq> PointerKey ent rid \<longrightarrow> m' k = m k" and "pointer m ent rid \<le> pointer m' ent rid"
  shows "pointer m e i \<le> pointer m' e i"
proof (cases "PointerKey e i = PointerKey ent rid")
  case True
  then show ?thesis using assms(2) by (simp add: pointer_def)
next
  case False
  then show ?thesis using assms(1) by (simp add: pointer_def)
qed

lemma apply_row_bump_world:
  assumes "o_kind r \<noteq> []" and "o_kind r \<noteq> ''invalidation''" and "apply_row d now r (w, x) = (q, w', x')"
  shows "x' = x \<or> x' = snd (the (d_BumpGeneration d) (o_entity r) x)"
proof (cases "o_kind r = ''generation_bump''")
  case True
  with assms have "applyGenerationBump d now r (w, x) = (q, w', x')" by (simp add: apply_row_def)
  then show ?thesis
    by (auto simp: applyGenerationBump_def Let_def split: if_splits option.splits prod.splits sum.splits dep_err.splits)
next
  case False
  have "apply_row d now r (w, x) = (Inl (UnknownKind (o_kind r)), w, x)"
    unfolding apply_row_def using assms(1,2) False by (simp only: if_False simp_thms)
  with assms(3) show ?thesis by (metis prod.inject)
qed

lemma apply_row_client:
  assumes ex: "exact_server view mc" and v: "int64 (o_new_version r)"
    and ap: "apply_row (client_deps mc rd) now r (w, s, l) = (q, w', x')"
  shows "\<exists>s'. x' = (s', l) \<and> pointer (view s) e i \<le> pointer (view s') e i
    \<and> (is_invalidation r \<and> q = Inr () \<longrightarrow> o_new_version r \<le> pointer (view s') (o_entity r) (o_row_id r))"
proof (cases "is_invalidation r")
  case True
  obtain a s1 where a: "SetVersion mc (o_entity r) (o_row_id r) (o_new_version r) (PointerTTL (w_cfg w)) s = (a, s1)" by fastforce
  note mono = SetVersion_mono [OF ex v a]
  have "apply_row (client_deps mc rd) now r (w, s, l) = applyInvalidation (client_deps mc rd) r (w, s, l)"
    using True unfolding apply_row_def is_invalidation_def by (rule if_P)
  with ap have ap': "applyInvalidation (client_deps mc rd) r (w, s, l) = (q, w', x')" by simp
  have x': "x' = (s1, l)" and q: "q = Inr () \<Longrightarrow> settled a"
    using ap' by (cases a; simp add: applyInvalidation_def client_deps_def a settled_def dep_result_def split: if_splits)+
  have "o_new_version r \<le> pointer (view s1) (o_entity r) (o_row_id r)" if "q = Inr ()"
    using SetVersion_settled [OF ex v a q [OF that]] by simp
  with x' PointerKey_frame mono show ?thesis by blast
next
  case False
  obtain a s1 where a: "BumpGeneration (Some mc) (o_entity r) s = (a, s1)" by fastforce
  from False have k: "o_kind r \<noteq> []" "o_kind r \<noteq> ''invalidation''" by (simp_all add: is_invalidation_def)
  have "x' = (s, l) \<or> x' = snd (the (d_BumpGeneration (client_deps mc rd)) (o_entity r) (s, l))"
    using ap apply_row_bump_world [OF k] by metis
  also have "snd (the (d_BumpGeneration (client_deps mc rd)) (o_entity r) (s, l)) = (s1, l)"
    by (cases a) (simp_all add: client_deps_def a)
  finally have "x' = (s, l) \<or> x' = (s1, l)" .
  with False bump_keeps_pointers [OF ex a] show ?thesis by force
qed

lemma lru_Remove_keeps_None:
  assumes "lru_laws peek L" and "tier0 rd = Some L"
  shows "(peek l k = None \<longrightarrow> peek (Invalidate rd e i l) k = None) \<and> peek (Invalidate rd e i l) (entityIDKey e i) = None"
  using lru_Remove_law [OF assms(1)] assms(2) by (simp add: Invalidate_def)

lemma processRow_world:
  assumes "processRow d env now tnow r (w, x, t) = (w', x', t')" and "apply_row d now r (w, x) = (q, w1, x1)"
  shows "x' = (case (q, d_Invalidate d) of (Inr _, Some f) \<Rightarrow> if is_invalidation r then f (o_entity r) (o_row_id r) x1 else x1 | _ \<Rightarrow> x1)"
proof (cases q)
  case (Inl e)
  with assms show ?thesis by (simp add: processRow_def)
next
  case (Inr u)
  have i: "(o_kind r = [] \<or> o_kind r = ''invalidation'') = is_invalidation r" by (simp add: is_invalidation_def)
  show ?thesis using assms(1) unfolding processRow_def i
    by (cases "d_Invalidate d"; simp add: assms(2) Inr)
qed

lemma processRow_client:
  assumes ex: "exact_server view mc" and lru: "lru_laws peek L" "tier0 rd = Some L" and v: "int64 (o_new_version r)"
    and pr: "processRow (client_deps mc rd) env now tnow r (w, x, t) = (w', x', t')"
    and ap: "apply_row (client_deps mc rd) now r (w, x) = (q, w1, x1)"
  shows "(\<forall>p. published view peek x p \<longrightarrow> published view peek x' p)
    \<and> (is_invalidation r \<and> q = Inr () \<longrightarrow> published view peek x' r)"
proof -
  obtain s l where x: "x = (s, l)" by (cases x)
  obtain s' where s': "x1 = (s', l)" "\<And>e i. pointer (view s) e i \<le> pointer (view s') e i"
      "is_invalidation r \<Longrightarrow> q = Inr () \<Longrightarrow> o_new_version r \<le> pointer (view s') (o_entity r) (o_row_id r)"
    using apply_row_client [OF ex v ap [unfolded x]] by blast
  have inv: "d_Invalidate (client_deps mc rd) = Some (\<lambda>ent rid (s, l). (s, Invalidate rd ent rid l))"
    by (simp add: client_deps_def)
  have x': "x' = (s', if is_invalidation r \<and> q = Inr () then Invalidate rd (o_entity r) (o_row_id r) l else l)"
    using processRow_world [OF pr ap] inv s'(1) by (cases q) auto
  have "published view peek x' p" if "published view peek x p" for p
    using that s'(2) [of "o_entity p" "o_row_id p"] lru_Remove_keeps_None [OF lru, of l]
    unfolding x' x published_def by auto
  moreover have "published view peek x' r" if "is_invalidation r" "q = Inr ()"
    using s'(3) [OF that] lru_Remove_keeps_None [OF lru, of l] that unfolding x' published_def by simp
  ultimately show ?thesis by blast
qed

lemma drain_fold_published:
  assumes ex: "exact_server view mc" and lru: "lru_laws peek L" "tier0 rd = Some L"
    and "foldl (\<lambda>s r. processRow (client_deps mc rd) env (clk (o_id r)) tnow r s) (w, x, t) rows = (w', x', t')"
    and "\<not> t_aborted t'" and "outbox_inv (t_db t)" and "set rows \<subseteq> set (invs (t_db t))" and "distinct (map o_id rows)"
    and "\<forall>r\<in>set rows. int64 (o_new_version r)"
  shows "(\<forall>p. published view peek x p \<longrightarrow> published view peek x' p)
    \<and> (\<forall>r\<in>set rows. is_invalidation r \<longrightarrow> published view peek x' r \<or> o_id r \<in> o_id ` (set (invs (t_db t')) \<union> set (dead (t_db t'))))"
  using assms(4-9)
proof (induction rows arbitrary: w x t)
  case (Cons r rows)
  let ?d = "client_deps mc rd" and ?ids = "\<lambda>db. o_id ` (set (invs db) \<union> set (dead db))"
  obtain w1 x1 t1 where p: "processRow ?d env (clk (o_id r)) tnow r (w, x, t) = (w1, x1, t1)" by (rule prod_cases3)
  have f: "foldl (\<lambda>s r. processRow ?d env (clk (o_id r)) tnow r s) (w1, x1, t1) rows = (w', x', t')"
    using Cons.prems(1) p by simp
  have na: "\<not> t_aborted t1" using fold_aborted [OF f] Cons.prems(2) by blast
  from processRow_tx [OF p na] obtain q y where q: "apply_row ?d (clk (o_id r)) r (w, x) = (q, w1, y)"
      "t_db t1 = settle_row ?d (w_cfg w) tnow r q (t_db t)" by blast
  have r: "r \<in> set (invs (t_db t))" "o_id r \<notin> o_id ` set rows" using Cons.prems(4,5) by auto
  have inv1: "outbox_inv (t_db t1)" using settle_row_ids [OF Cons.prems(3) r(1)] q(2) by simp
  have sub1: "set rows \<subseteq> set (invs (t_db t1))"
    unfolding q(2) by (rule settle_row_rest) (use Cons.prems(4) r(2) in auto)
  have dist: "distinct (map o_id rows)" and v: "\<forall>r\<in>set rows. int64 (o_new_version r)" "int64 (o_new_version r)"
    using Cons.prems(5,6) by auto
  note IH = Cons.IH [OF f Cons.prems(2) inv1 sub1 dist v(1)]
  note pc = processRow_client [OF ex lru v(2) p q(1)]
  have keep: "o_id r \<in> ?ids (t_db t')" if nq: "q \<noteq> Inr ()"
  proof -
    obtain e where "q = Inl e" using nq by (cases q) auto
    then have "o_id r \<in> ?ids (t_db t1)"
      using settle_row_keeps_failed [OF r(1)] q(2) by metis
    then show ?thesis using fold_keeps_ids [OF f Cons.prems(2) r(2)] by blast
  qed
  show ?case using IH pc keep by (cases "q = Inr ()") auto
qed simp

text \<open>A concrete run: one row, the map-backed server and LRU, a Postgres without failures.\<close>

definition calm_env :: pg_env where
  "calm_env = \<lparr>begin_fails = False, claim_fails = False, stmt_fails = (\<lambda>_. False), commit_fails = False, row_locked = (\<lambda>_. False)\<rparr>"

definition sample_row :: outbox_row where
  "sample_row = \<lparr>o_id = 1, o_entity = ''e'', o_row_id = ''1'', o_new_version = 3, o_kind = ''invalidation'',
     o_enqueued_at = 0, o_attempts = 0, o_last_error = None, o_last_error_at = None\<rparr>"

definition sample_worker :: worker where
  "sample_worker = \<lparr>w_cfg = DefaultWorkerConfig, lastBump = Map.empty, lastDrainNS = 0\<rparr>"

abbreviation "sample_db \<equiv> \<lparr>invs = [sample_row], dead = [], seq = 2\<rparr>"
abbreviation "sample_deps \<equiv> client_deps kv_server example_reader"
abbreviation "sample_lru \<equiv> [entityIDKey ''e'' ''1'' \<mapsto> \<lparr>body = ''old'', loadedAt = 0, ttl = minute\<rparr>]"

lemma sample_apply:
  "apply_row sample_deps now sample_row (w, Map.empty, l) = (Inr (), w, [PointerKey ''e'' ''1'' \<mapsto> formatInt64 3], l)"
proof -
  have sv: "SetVersion kv_server ''e'' ''1'' 3 t Map.empty = (Inr (), [PointerKey ''e'' ''1'' \<mapsto> formatInt64 3])" for t
    by (simp add: SetVersion_def CurrentVersion_def Client_Get_def Client_Set_def kv_server_def)
  have d: "d_SetVersion sample_deps ''e'' ''1'' 3 t (Map.empty, l) = (Inr (), [PointerKey ''e'' ''1'' \<mapsto> formatInt64 3], l)" for t
    by (simp add: client_deps_def sv)
  have "apply_row sample_deps now sample_row (w, Map.empty, l) = applyInvalidation sample_deps sample_row (w, Map.empty, l)"
    unfolding apply_row_def by (rule if_P) (simp add: sample_row_def)
  also have "\<dots> = (Inr (), w, [PointerKey ''e'' ''1'' \<mapsto> formatInt64 3], l)"
    by (simp add: applyInvalidation_def sample_row_def d dep_result_def)
  finally show ?thesis .
qed

lemma sample_inv: "outbox_inv sample_db"
  by (simp add: outbox_inv_def sample_row_def)

lemma sample_drain:
  "drainOnce sample_deps calm_env (\<lambda>_. 0) 0 (sample_worker, (Map.empty, sample_lru), sample_db)
   = (1, sample_worker\<lparr>lastDrainNS := 0\<rparr>, ([PointerKey ''e'' ''1'' \<mapsto> formatInt64 3], Invalidate example_reader ''e'' ''1'' sample_lru),
      \<lparr>invs = [], dead = [], seq = 2\<rparr>)"
proof -
  have el: "eligible 0 sample_row = Some True" by (simp add: eligible_def sample_row_def)
  have "claim_scan calm_env 0 (nat 100) [sample_row] = Inr [sample_row]"
    by (simp add: eval_nat_numeral el calm_env_def)
  then have c: "claimInTx (w_cfg sample_worker) calm_env 0 \<lparr>t_db = sample_db, t_aborted = False\<rparr> = Inr [sample_row]"
    by (simp add: claimInTx_def sample_worker_def DefaultWorkerConfig_def) (simp add: calm_env_def)
  have p: "processRow sample_deps calm_env 0 0 sample_row (w, (Map.empty, sample_lru), \<lparr>t_db = sample_db, t_aborted = False\<rparr>)
    = (w, ([PointerKey ''e'' ''1'' \<mapsto> formatInt64 3], Invalidate example_reader ''e'' ''1'' sample_lru),
       \<lparr>t_db = \<lparr>invs = [], dead = [], seq = 2\<rparr>, t_aborted = False\<rparr>)" for w
    unfolding processRow_def Let_def split_conv sample_apply
    by (simp add: client_deps_def sample_row_def deleteInTx_def tx_exec_def calm_env_def delete_where_def)
  show ?thesis
    unfolding drainOnce_def Let_def split_conv c by (simp add: p) (simp add: calm_env_def)
qed

theorem drain_conserves_rows_witness:
  "outbox_inv sample_db \<and> fate sample_deps (\<lambda>_. 0) 0 DefaultWorkerConfig \<lparr>invs = [], dead = [], seq = 2\<rparr> sample_row"
  using drain_conserves_rows [OF sample_inv _ sample_drain] sample_inv
  by (simp add: sample_worker_def DefaultWorkerConfig_def)

text \<open>
  C2: what the worker removed is published. Over the real client, reader and query cache, with a
  server that keeps its promises: after a drain, every invalidation row that left the outbox
  without becoming a dead letter has the pointer of its row at or above its version, and the
  reader's in-process entry is gone; and this stays true of every row that was published before.
\<close>

theorem drain_publishes:
  assumes "exact_server view mc" and "lru_laws peek L" and "tier0 rd = Some L" and "outbox_inv db"
    and "\<forall>r\<in>set (invs db). int64 (o_new_version r)"
    and "drainOnce (client_deps mc rd) env clk tnow (w, x, db) = (n, w', x', db')"
    and "r \<in> set (invs db)" and "is_invalidation r" and "o_id r \<notin> o_id ` (set (invs db') \<union> set (dead db'))"
  shows "published view peek x' r"
proof (rule drainOnce_cases [OF assms(6)], goal_cases)
  case 1
  with assms(7,9) show ?case by auto
next
  case (2 rows t)
  have di: "distinct (map o_id (invs db))" using assms(4) by (simp add: outbox_inv_def)
  have rows: "set rows \<subseteq> set (invs db)" "distinct (map o_id rows)" using claimInTx_sub [OF 2(1)] di by auto
  from 2(5) assms(7,9) have ok: "\<not> t_aborted t" "db' = t_db t" by (auto split: if_splits)
  have "r \<in> set rows"
  proof (rule ccontr)
    assume "r \<notin> set rows"
    with di rows(1) assms(7) have "o_id r \<notin> o_id ` set rows" by (auto simp: distinct_map inj_on_def)
    with drain_fold [OF 2(4) ok(1)] assms(4,7) rows have "r \<in> set (invs (t_db t))" by simp
    with assms(9) ok(2) show False by auto
  qed
  then show ?case
    using drain_fold_published [OF assms(1-3) 2(4) ok(1)] assms(4,5,8,9) rows ok(2) by (auto simp: subset_iff)
qed

theorem drain_publishes_witness:
  "published (\<lambda>s. s) (\<lambda>l. l) ([PointerKey ''e'' ''1'' \<mapsto> formatInt64 3], Invalidate example_reader ''e'' ''1'' sample_lru) sample_row"
  by (rule drain_publishes [OF kv_server_exact map_lru_laws _ sample_inv _ sample_drain])
     (simp_all add: example_reader_def sample_row_def is_invalidation_def int64_def)

text \<open>
  C20: a failed generation bump suppresses its own retry. When the entity was bumped before and
  the debounce window is over, a bump that fails leaves the new time stamp in place (the test that
  should roll it back compares the entry just written with the old one), so a retry within the
  window is answered with success without bumping, and its row is then deleted.
\<close>

theorem failed_bump_suppresses_retry:
  assumes "d_BumpGeneration d = Some bump" and "o_entity r \<noteq> []" and "lastBump w (o_entity r) = Some prev"
    and "0 < BumpDebounce (w_cfg w)" and "prev + BumpDebounce (w_cfg w) \<le> now"
    and "bump (o_entity r) x = (Inl (DErr e), x1)"
    and "applyGenerationBump d now r (w, x) = (q, w1, y)"
    and "now' < now + BumpDebounce (w_cfg w)"
  shows "q = Inl (ADep e) \<and> y = x1 \<and> applyGenerationBump d now' r (w1, x1) = (Inr (), w1, x1)"
proof -
  have ne: "now \<noteq> prev" using assms(4,5) by simp
  have w1: "(q, w1, y) = (Inl (ADep e), w\<lparr>lastBump := (lastBump w)(o_entity r \<mapsto> now)\<rparr>, x1)"
    using assms(7) ne assms(5) by (simp add: applyGenerationBump_def assms(1-3,6) Let_def)
  have "applyGenerationBump d now' r (w1, x1) = (Inr (), w1, x1)"
    using w1 assms(8) by (simp add: applyGenerationBump_def assms(1,2) Let_def)
  with w1 show ?thesis by simp
qed

theorem failed_bump_suppresses_retry_witness:
  "\<exists>w1. applyGenerationBump (sample_deps\<lparr>d_BumpGeneration := Some (\<lambda>ent x. (Inl (DErr NilCache), x))\<rparr>)
        (2 * second) (sample_row\<lparr>o_kind := ''generation_bump''\<rparr>)
        (sample_worker\<lparr>lastBump := [''e'' \<mapsto> 0]\<rparr>, Map.empty, Map.empty) = (Inl (ADep NilCache), w1, Map.empty, Map.empty)
     \<and> applyGenerationBump (sample_deps\<lparr>d_BumpGeneration := Some (\<lambda>ent x. (Inl (DErr NilCache), x))\<rparr>)
        (2 * second + 1) (sample_row\<lparr>o_kind := ''generation_bump''\<rparr>) (w1, Map.empty, Map.empty) = (Inr (), w1, Map.empty, Map.empty)"
proof -
  let ?d = "sample_deps\<lparr>d_BumpGeneration := Some (\<lambda>ent x. (Inl (DErr NilCache), x))\<rparr>"
  let ?r = "sample_row\<lparr>o_kind := ''generation_bump''\<rparr>" and ?w = "sample_worker\<lparr>lastBump := [''e'' \<mapsto> 0]\<rparr>"
  obtain q w1 y where a: "applyGenerationBump ?d (2 * second) ?r (?w, Map.empty, Map.empty) = (q, w1, y)" by (rule prod_cases3)
  have "q = Inl (ADep NilCache) \<and> y = (Map.empty, Map.empty)
      \<and> applyGenerationBump ?d (2 * second + 1) ?r (w1, Map.empty, Map.empty) = (Inr (), w1, Map.empty, Map.empty)"
    by (rule failed_bump_suppresses_retry [where prev = 0, OF _ _ _ _ _ _ a])
       (simp_all add: sample_row_def sample_worker_def DefaultWorkerConfig_def)
  with a show ?thesis by auto
qed

text \<open>
  C21: a row with 47 failed attempts at the head of the outbox stops the worker. The backoff
  product leaves the range of an interval, the claim query fails, and every drain from then on
  returns 0 and changes nothing, whatever the time and whatever else waits in the table; the default
  \<open>MaxAttempts\<close> of 100 lets rows get there.
\<close>

theorem old_failure_wedges_drain:
  assumes "sort_key o_enqueued_at (invs db) = r # rs" and "o_last_error_at r = Some t" and "47 \<le> o_attempts r"
    and "0 < BatchSize (w_cfg w)"
  shows "drainOnce d env clk tnow (w, x, db) = (0, w, x, db)"
proof -
  have "(2 :: int) ^ 47 * 100000 \<le> 2 ^ nat (o_attempts r) * 100000"
    using assms(3) by (intro mult_right_mono power_increasing) auto
  then have "(2 :: int) ^ 63 \<le> 2 ^ nat (o_attempts r) * 100000" by simp
  then have "eligible tnow r = None" using assms(2) by (simp add: eligible_def)
  moreover obtain k where "nat (BatchSize (w_cfg w)) = Suc k" using assms(4) gr0_implies_Suc [of "nat (BatchSize (w_cfg w))"] by (metis zero_less_nat_eq)
  ultimately have "claimInTx (w_cfg w) env tnow \<lparr>t_db = db, t_aborted = False\<rparr> = Inl ()"
    by (simp add: claimInTx_def assms(1))
  then show ?thesis by (simp add: drainOnce_def)
qed

theorem old_failure_wedges_drain_witness:
  "drainOnce sample_deps calm_env (\<lambda>_. 0) (1000 * hour) (sample_worker, (Map.empty, Map.empty),
      \<lparr>invs = [sample_row\<lparr>o_attempts := 50, o_last_error_at := Some 0\<rparr>], dead = [], seq = 2\<rparr>)
    = (0, sample_worker, (Map.empty, Map.empty),
      \<lparr>invs = [sample_row\<lparr>o_attempts := 50, o_last_error_at := Some 0\<rparr>], dead = [], seq = 2\<rparr>)
   \<and> 50 < MaxAttempts (w_cfg sample_worker)"
  using old_failure_wedges_drain [of "\<lparr>invs = [sample_row\<lparr>o_attempts := 50, o_last_error_at := Some 0\<rparr>], dead = [], seq = 2\<rparr>"
      "sample_row\<lparr>o_attempts := 50, o_last_error_at := Some 0\<rparr>" "[]" 0 sample_worker]
  by (simp add: sample_worker_def DefaultWorkerConfig_def)

section \<open>A healthy system drains\<close>

lemma claim_scan_all:
  assumes "\<forall>r\<in>set rs. o_last_error_at r = None \<and> \<not> row_locked env (o_id r)" and "length rs \<le> n"
  shows "claim_scan env now n rs = Inr rs"
  using assms
proof (induction rs arbitrary: n)
  case Nil
  then show ?case by (cases n) auto
next
  case (Cons r rs)
  then obtain k where "n = Suc k" by (cases n) auto
  with Cons show ?case by (simp add: eligible_def)
qed

lemma fold_all_applied:
  assumes "\<And>r now w x. r \<in> set rows \<Longrightarrow> fst (apply_row d now r (w, x)) = Inr ()" and "\<forall>st. \<not> stmt_fails env st"
    and "\<not> t_aborted t"
    and "foldl (\<lambda>s r. processRow d env (clk (o_id r)) tnow r s) (w, x, t) rows = (w', x', t')"
  shows "\<not> t_aborted t' \<and> dead (t_db t') = dead (t_db t)
    \<and> set (invs (t_db t')) = {p \<in> set (invs (t_db t)). o_id p \<notin> o_id ` set rows}"
  using assms
proof (induction rows arbitrary: w x t)
  case (Cons r rows)
  obtain w1 x1 where ap: "apply_row d (clk (o_id r)) r (w, x) = (Inr (), w1, x1)"
    using Cons.prems(1) [of r "clk (o_id r)" w x] by (cases "apply_row d (clk (o_id r)) r (w, x)") auto
  obtain w2 x2 t2 where p: "processRow d env (clk (o_id r)) tnow r (w, x, t) = (w2, x2, t2)" by (rule prod_cases3)
  have t2: "\<not> t_aborted t2" "t_db t2 = (t_db t)\<lparr>invs := delete_where (\<lambda>p. o_id p = o_id r) (invs (t_db t))\<rparr>"
    using p Cons.prems(2,3) by (auto simp: processRow_def ap deleteInTx_def tx_exec_def Let_def)
  have "foldl (\<lambda>s r. processRow d env (clk (o_id r)) tnow r s) (w2, x2, t2) rows = (w', x', t')"
    using Cons.prems(4) p by simp
  from Cons.IH [OF _ Cons.prems(2) t2(1) this] Cons.prems(1) t2(2) show ?case by auto
qed simp



end
