(* ===== verification/Session.thy ===== *)
theory Session
  imports Prelude "HOL-Library.AList"
begin

text \<open>
  One connected worker: \<open>internal/server/jobsdispatcher/session.go\<close> with the wire messages of
  \<open>proto.go\<close>. A session object is a record; each of its methods, which hold the session's
  mutex or use atomics, is a function on it. The in-flight map is an association list; Go
  leaves the order of a \<open>range\<close> over it open, the model takes the order of the list. A
  buffered channel is a list with its capacity; a send in a \<open>select\<close> with \<open>default\<close> is
  \<open>offer\<close>. The gauges of the metrics registry are not modelled.
\<close>

section \<open>proto.go\<close>

definition MaxJobNamesPerOpen :: nat where "MaxJobNamesPerOpen = 1024"
definition MaxHeartbeatIDsPerFrame :: nat where "MaxHeartbeatIDsPerFrame = 4096"
definition MaxCheckpointMsgChars :: nat where "MaxCheckpointMsgChars = 256"
definition MinMaxInFlight :: int where "MinMaxInFlight = 1"
definition MaxMaxInFlight :: int where "MaxMaxInFlight = 256"

record OpenSession =
  o_Queue :: string
  o_JobNames :: "string list"
  o_MaxInFlight :: int
  o_PodID :: string
  o_Version :: string

record Checkpoint =
  cp_JobID :: int
  cp_Pct :: int
  cp_Msg :: string

record Fail =
  f_JobID :: int
  f_Error :: string
  f_Retry :: bool

record WorkerEnvelope =
  w_Open :: "OpenSession option"
  w_Heartbeat :: "int list option"
  w_Checkpoint :: "Checkpoint option"
  w_Ack :: "int option"
  w_Complete :: "int option"
  w_Fail :: "Fail option"

record Dispatch =
  d_JobID :: int
  d_JobName :: string
  d_Args :: bytes
  d_Attempts :: int
  d_MaxRetries :: int
  d_TimeoutMS :: int
  d_ScheduledFor :: string
  d_EnqueuedAt :: string
  d_TraceCtx :: "bytes option"

datatype DispatchEnvelope =
    SessionAccepted string int int
  | EDispatch Dispatch
  | Revoke int string
  | Goodbye string

section \<open>session.go: state\<close>

record inflightRow =
  i_jobID :: int
  i_jobName :: string
  i_dispatchedAt :: instant
  i_leaseUntil :: instant
  i_ackReceived :: bool
  i_ackBy :: instant
  i_timeoutMS :: int

record sessionEvent =
  ev_At :: instant
  ev_Kind :: string
  ev_JobID :: int
  ev_JobName :: string
  ev_Note :: string

definition sessionEventCap :: nat where "sessionEventCap = 50"
definition leaseEnqueueCap :: nat where "leaseEnqueueCap = 1024"

record session =
  ss_id :: string
  ss_caller :: string
  ss_aliases :: "string list"
  ss_queue :: string
  ss_podID :: string
  ss_version :: string
  ss_jobNames :: "string list"
  ss_maxInFlight :: int
  ss_outbox :: "DispatchEnvelope list"
  ss_outboxCap :: nat
  ss_inflight :: "(int \<times> inflightRow) list"
  ss_inflightCounter :: int
  ss_drained :: bool
  ss_cntDispatched :: int
  ss_cntCompleted :: int
  ss_cntFailed :: int
  ss_cntRevoked :: int
  ss_lastHeartbeatNS :: instant
  ss_connectedAt :: instant
  ss_closed :: bool
  ss_events :: "sessionEvent list"
  ss_leasePending :: "int list"
  ss_perJobHeartbeat :: "(string \<times> duration) list"

text \<open>The keys of \<open>jobNames\<close> are a set; \<open>uuid\<close> is the result of \<open>uuid.NewString\<close>.\<close>

definition newSession ::
  "string \<Rightarrow> instant \<Rightarrow> OpenSession \<Rightarrow> string \<Rightarrow> string list \<Rightarrow> (string \<times> duration) list \<Rightarrow> session" where
  "newSession uuid now open caller aliases perJobHeartbeat =
     (let maxIF1 = (if o_MaxInFlight open < MinMaxInFlight then MinMaxInFlight else o_MaxInFlight open);
          maxIF = (if maxIF1 > MaxMaxInFlight then MaxMaxInFlight else maxIF1)
      in \<lparr>ss_id = uuid, ss_caller = caller, ss_aliases = aliases, ss_queue = o_Queue open,
          ss_podID = o_PodID open, ss_version = o_Version open, ss_jobNames = remdups (o_JobNames open),
          ss_maxInFlight = maxIF, ss_outbox = [], ss_outboxCap = nat (maxIF + 4), ss_inflight = [],
          ss_inflightCounter = 0, ss_drained = False, ss_cntDispatched = 0, ss_cntCompleted = 0,
          ss_cntFailed = 0, ss_cntRevoked = 0, ss_lastHeartbeatNS = now, ss_connectedAt = now,
          ss_closed = False, ss_events = [], ss_leasePending = [], ss_perJobHeartbeat = perJobHeartbeat\<rparr>)"

definition leaseDurFor :: "session \<Rightarrow> string \<Rightarrow> duration \<Rightarrow> duration" where
  "leaseDurFor s jobName fallback =
     (case map_of (ss_perJobHeartbeat s) jobName of
        Some d \<Rightarrow> if d > 0 then d else fallback
      | None \<Rightarrow> fallback)"

definition lastHeartbeatAt :: "session \<Rightarrow> instant" where
  "lastHeartbeatAt s = ss_lastHeartbeatNS s"

definition noteHeartbeat :: "instant \<Rightarrow> session \<Rightarrow> session" where
  "noteHeartbeat now s = s\<lparr>ss_lastHeartbeatNS := now\<rparr>"

definition claimedBy :: "session \<Rightarrow> string" where
  "claimedBy s = ''dispatcher/'' @ ss_id s"

definition inflightCount :: "session \<Rightarrow> int" where
  "inflightCount s = ss_inflightCounter s"

definition availableSlots :: "session \<Rightarrow> int" where
  "availableSlots s =
     (if ss_drained s then 0
      else let free = ss_maxInFlight s - inflightCount s in if free < 0 then 0 else free)"

definition handlesJob :: "session \<Rightarrow> string \<Rightarrow> bool" where
  "handlesJob s jobName \<longleftrightarrow> jobName \<in> set (ss_jobNames s)"

section \<open>session.go: events, outbox, in-flight rows\<close>

text \<open>When the ring is full, the copy shifts it by one and drops the last place before appending.\<close>

definition appendEvent :: "sessionEvent \<Rightarrow> session \<Rightarrow> session" where
  "appendEvent e s =
     (let evs = (if length (ss_events s) \<ge> sessionEventCap then drop 1 (ss_events s) else ss_events s)
      in s\<lparr>ss_events := evs @ [e]\<rparr>)"

definition snapshotEvents :: "session \<Rightarrow> sessionEvent list" where
  "snapshotEvents s = ss_events s"

definition event :: "instant \<Rightarrow> string \<Rightarrow> int \<Rightarrow> string \<Rightarrow> string \<Rightarrow> sessionEvent" where
  "event at kind jobID jobName note =
     \<lparr>ev_At = at, ev_Kind = kind, ev_JobID = jobID, ev_JobName = jobName, ev_Note = note\<rparr>"

definition offer :: "DispatchEnvelope \<Rightarrow> session \<Rightarrow> bool \<times> session" where
  "offer env s = (if length (ss_outbox s) < ss_outboxCap s then (True, s\<lparr>ss_outbox := ss_outbox s @ [env]\<rparr>)
                  else (False, s))"

definition recordDispatch :: "instant \<Rightarrow> Dispatch \<Rightarrow> instant \<Rightarrow> instant \<Rightarrow> session \<Rightarrow> bool \<times> session" where
  "recordDispatch now d leaseUntil ackDeadline s =
     (let dup = (map_of (ss_inflight s) (d_JobID d) \<noteq> None);
          row = \<lparr>i_jobID = d_JobID d, i_jobName = d_JobName d, i_dispatchedAt = now, i_leaseUntil = leaseUntil,
                 i_ackReceived = False, i_ackBy = ackDeadline, i_timeoutMS = d_TimeoutMS d\<rparr>;
          s1 = s\<lparr>ss_inflight := AList.update (d_JobID d) row (ss_inflight s),
                 ss_inflightCounter := (if dup then ss_inflightCounter s else ss_inflightCounter s + 1)\<rparr>;
          (sent, s2) = offer (EDispatch d) s1
      in if sent then (True, appendEvent (event now ''dispatched'' (d_JobID d) (d_JobName d) []) s2)
         else if dup then (False, s2)
         else (False, s2\<lparr>ss_inflight := AList.delete (d_JobID d) (ss_inflight s2),
                         ss_inflightCounter := ss_inflightCounter s2 - 1\<rparr>))"

definition recordAck :: "instant \<Rightarrow> int \<Rightarrow> session \<Rightarrow> (bool \<times> duration) \<times> session" where
  "recordAck now jobID s =
     (case map_of (ss_inflight s) jobID of
        None \<Rightarrow> ((False, 0), s)
      | Some row \<Rightarrow>
          if \<not> i_ackReceived row
          then ((True, now - i_dispatchedAt row),
                s\<lparr>ss_inflight := AList.update jobID (row\<lparr>i_ackReceived := True\<rparr>) (ss_inflight s)\<rparr>)
          else ((True, 0), s))"

definition removeInflight :: "int \<Rightarrow> session \<Rightarrow> inflightRow option \<times> session" where
  "removeInflight jobID s =
     (case map_of (ss_inflight s) jobID of
        None \<Rightarrow> (None, s)
      | Some row \<Rightarrow> (Some row, s\<lparr>ss_inflight := AList.delete jobID (ss_inflight s),
                                 ss_inflightCounter := ss_inflightCounter s - 1\<rparr>))"

definition snapshotInflight :: "session \<Rightarrow> inflightRow list" where
  "snapshotInflight s = map snd (ss_inflight s)"

definition session_close :: "session \<Rightarrow> session" where
  "session_close s = s\<lparr>ss_closed := True\<rparr>"

definition markDrained :: "session \<Rightarrow> session" where
  "markDrained s = s\<lparr>ss_drained := True\<rparr>"

definition findExpiredAcks :: "instant \<Rightarrow> session \<Rightarrow> int list" where
  "findExpiredAcks now s =
     map fst (filter (\<lambda>(i, row). \<not> i_ackReceived row \<and> now > i_ackBy row) (ss_inflight s))"

definition leaseExpiryGrace :: duration where "leaseExpiryGrace = 30 * second"
definition timeoutBackstopGrace :: duration where "timeoutBackstopGrace = minute"

definition expiredReason :: "instant \<Rightarrow> duration \<Rightarrow> duration \<Rightarrow> inflightRow \<Rightarrow> string option" where
  "expiredReason now leaseGrace timeoutGrace row =
     (if \<not> i_ackReceived row then None
      else if now > i_leaseUntil row + leaseGrace then Some ''lease_expired''
      else if i_timeoutMS row > 0
           \<and> now > i_dispatchedAt row + (i_timeoutMS row * millisecond + timeoutGrace)
      then Some ''timeout_exceeded'' else None)"

definition findExpiredLeases :: "instant \<Rightarrow> duration \<Rightarrow> duration \<Rightarrow> session \<Rightarrow> (int \<times> string) list" where
  "findExpiredLeases now leaseGrace timeoutGrace s =
     List.map_filter (\<lambda>(i, row). map_option (Pair i) (expiredReason now leaseGrace timeoutGrace row)) (ss_inflight s)"

definition jobNamesSlice :: "session \<Rightarrow> string list" where
  "jobNamesSlice s = ss_jobNames s"

text \<open>\<open>enqueueLeaseBump\<close> (\<open>leaseproc.go\<close>): a full channel drops the bump.\<close>

definition enqueueLeaseBump :: "int \<Rightarrow> session \<Rightarrow> session" where
  "enqueueLeaseBump jobID s =
     (if length (ss_leasePending s) < leaseEnqueueCap then s\<lparr>ss_leasePending := ss_leasePending s @ [jobID]\<rparr> else s)"

section \<open>Well-formed sessions\<close>

definition session_ok :: "session \<Rightarrow> bool" where
  "session_ok s \<longleftrightarrow> distinct (map fst (ss_inflight s)) \<and> (\<forall>(i, row)\<in>set (ss_inflight s). i_jobID row = i)
     \<and> ss_inflightCounter s = int (length (ss_inflight s))
     \<and> 1 \<le> ss_maxInFlight s \<and> ss_maxInFlight s \<le> 256
     \<and> ss_outboxCap s = nat (ss_maxInFlight s + 4) \<and> length (ss_outbox s) \<le> ss_outboxCap s
     \<and> length (ss_events s) \<le> sessionEventCap \<and> length (ss_leasePending s) \<le> leaseEnqueueCap"

text \<open>
  The part of a session no method changes, and the load a dispatcher put on it.
\<close>

definition same_worker :: "session \<Rightarrow> session \<Rightarrow> bool" where
  "same_worker s t \<longleftrightarrow> ss_id t = ss_id s \<and> ss_caller t = ss_caller s \<and> ss_aliases t = ss_aliases s
     \<and> ss_queue t = ss_queue s \<and> ss_jobNames t = ss_jobNames s \<and> ss_maxInFlight t = ss_maxInFlight s
     \<and> ss_perJobHeartbeat t = ss_perJobHeartbeat s"

text \<open>A step of a session that starts no row: well-formed again, same worker, no more in flight.\<close>

definition quiet :: "session \<Rightarrow> session \<Rightarrow> bool" where
  "quiet s t \<longleftrightarrow> same_worker s t \<and> (session_ok s \<longrightarrow> session_ok t \<and> ss_inflightCounter t \<le> ss_inflightCounter s)"

named_theorems quiet_intros "session operations that start no row"

lemma same_worker_refl [simp]: "same_worker s s"
  by (simp add: same_worker_def)

lemma same_worker_trans: "same_worker s t \<Longrightarrow> same_worker t u \<Longrightarrow> same_worker s u"
  by (simp add: same_worker_def)

lemma quiet_refl [quiet_intros]: "quiet s s"
  by (simp add: quiet_def)

lemma quiet_trans [trans]: "quiet s t \<Longrightarrow> quiet t u \<Longrightarrow> quiet s u"
  by (auto simp: quiet_def intro: same_worker_trans)

lemma claimedBy_same: "same_worker s t \<Longrightarrow> claimedBy t = claimedBy s"
  by (simp add: same_worker_def claimedBy_def)

lemma claimedBy_inj [simp]: "claimedBy s = claimedBy t \<longleftrightarrow> ss_id s = ss_id t"
  by (simp add: claimedBy_def)

lemma alist_update_keys:
  "set (map fst (AList.update k v al)) = insert k (set (map fst al))"
  by (induction al) auto

lemma alist_update_length:
  "length (AList.update k v al) = (if map_of al k = None then Suc (length al) else length al)"
  by (induction al) auto

lemma alist_update_mem: "(a, b) \<in> set (AList.update k v al) \<Longrightarrow> (a, b) \<in> set al \<or> (a = k \<and> b = v)"
  by (induction al) (auto split: if_splits)

lemma alist_delete_length:
  assumes "distinct (map fst al)" and "map_of al k = Some v"
  shows "Suc (length (AList.delete k al)) = length al"
  using assms
proof (induction al)
  case (Cons a al)
  show ?case
  proof (cases "fst a = k")
    case True
    with Cons.prems(1) have "k \<notin> fst ` set al" by auto
    then have "AList.delete k al = al" by (simp add: delete_id)
    with True show ?thesis by (cases a) (simp add: AList.delete_eq)
  next
    case False
    with Cons show ?thesis by (cases a) (auto simp: AList.delete_eq)
  qed
qed simp

lemma newSession_ok: "session_ok (newSession uuid now open caller aliases hb)"
  by (simp add: session_ok_def newSession_def Let_def MinMaxInFlight_def MaxMaxInFlight_def)

lemma newSession_bounds:
  "ss_inflightCounter (newSession uuid now open caller aliases hb) = 0"
  "ss_queue (newSession uuid now open caller aliases hb) = o_Queue open"
  "ss_id (newSession uuid now open caller aliases hb) = uuid"
  "1 \<le> ss_maxInFlight (newSession uuid now open caller aliases hb)"
  by (simp_all add: newSession_def Let_def MinMaxInFlight_def MaxMaxInFlight_def)

lemma appendEvent_quiet [quiet_intros]: "quiet s t \<Longrightarrow> quiet s (appendEvent e t)"
  by (auto simp: quiet_def appendEvent_def Let_def session_ok_def same_worker_def sessionEventCap_def)

lemma offer_quiet [quiet_intros]: "quiet s t \<Longrightarrow> quiet s (snd (offer e t))"
  by (auto simp: quiet_def offer_def session_ok_def same_worker_def)

text \<open>Rewriting the clocks or the acknowledgement of a row that is in flight.\<close>

lemma touch_quiet:
  assumes "map_of (ss_inflight s) i = Some row" and "i_jobID row' = i_jobID row"
  shows "quiet s (s\<lparr>ss_inflight := AList.update i row' (ss_inflight s)\<rparr>)"
  using assms map_of_SomeD [OF assms(1)]
  by (auto simp: quiet_def session_ok_def same_worker_def distinct_update alist_update_length dest!: alist_update_mem)

lemma recordAck_quiet [quiet_intros]: "quiet s t \<Longrightarrow> quiet s (snd (recordAck now i t))"
proof -
  assume q: "quiet s t"
  have "quiet t (snd (recordAck now i t))"
    by (auto simp: recordAck_def intro: quiet_refl touch_quiet split: option.split)
  with q show ?thesis by (rule quiet_trans)
qed

lemma removeInflight_quiet [quiet_intros]: "quiet s t \<Longrightarrow> quiet s (snd (removeInflight i t))"
proof -
  assume q: "quiet s t"
  have "quiet t (snd (removeInflight i t))"
  proof (cases "map_of (ss_inflight t) i")
    case None
    then show ?thesis by (simp add: removeInflight_def quiet_refl)
  next
    case (Some row)
    have "length (ss_inflight t) = Suc (length (AList.delete i (ss_inflight t)))" if "session_ok t"
      using alist_delete_length [OF _ Some] that by (simp add: session_ok_def)
    then show ?thesis
      using Some by (auto simp: quiet_def removeInflight_def session_ok_def same_worker_def distinct_map_filter
          AList.delete_eq)
  qed
  with q show ?thesis by (rule quiet_trans)
qed

lemma close_quiet [quiet_intros]: "quiet s t \<Longrightarrow> quiet s (session_close t)"
  by (auto simp: quiet_def session_close_def session_ok_def same_worker_def)

lemma markDrained_quiet [quiet_intros]: "quiet s t \<Longrightarrow> quiet s (markDrained t)"
  by (auto simp: quiet_def markDrained_def session_ok_def same_worker_def)

lemma noteHeartbeat_quiet [quiet_intros]: "quiet s t \<Longrightarrow> quiet s (noteHeartbeat now t)"
  by (auto simp: quiet_def noteHeartbeat_def session_ok_def same_worker_def)

lemma enqueue_quiet [quiet_intros]: "quiet s t \<Longrightarrow> quiet s (enqueueLeaseBump i t)"
  by (auto simp: quiet_def enqueueLeaseBump_def session_ok_def same_worker_def leaseEnqueueCap_def)

lemma counters_quiet [quiet_intros]:
  "quiet s t \<Longrightarrow> quiet s (t\<lparr>ss_cntRevoked := a\<rparr>)"
  "quiet s t \<Longrightarrow> quiet s (t\<lparr>ss_cntDispatched := a\<rparr>)"
  "quiet s t \<Longrightarrow> quiet s (t\<lparr>ss_cntCompleted := a\<rparr>)"
  "quiet s t \<Longrightarrow> quiet s (t\<lparr>ss_cntFailed := a\<rparr>)"
  by (auto simp: quiet_def session_ok_def same_worker_def)

lemma recordDispatch_worker: "same_worker s (snd (recordDispatch now d l a s))"
  by (auto simp: recordDispatch_def Let_def offer_def same_worker_def appendEvent_def split: if_splits)

lemma delete_update_new:
  "map_of al k = None \<Longrightarrow> AList.delete k (AList.update k v al) = al"
  by (induction al) (auto simp: AList.delete_eq)

lemma recordDispatch_full:
  assumes "fst (recordDispatch now d l a s) = False" and "map_of (ss_inflight s) (d_JobID d) = None"
  shows "snd (recordDispatch now d l a s) = s"
  using assms by (auto simp: recordDispatch_def Let_def offer_def delete_update_new split: if_splits)

lemma recordDispatch_iff: "fst (recordDispatch now d l a s) \<longleftrightarrow> length (ss_outbox s) < ss_outboxCap s"
  by (auto simp: recordDispatch_def Let_def offer_def)

lemma recordDispatch_ok:
  assumes "session_ok s"
  shows "session_ok (snd (recordDispatch now d l a s))
    \<and> ss_inflightCounter (snd (recordDispatch now d l a s)) \<le> ss_inflightCounter s + 1
    \<and> (\<not> fst (recordDispatch now d l a s) \<longrightarrow> ss_inflightCounter (snd (recordDispatch now d l a s)) \<le> ss_inflightCounter s)"
proof -
  let ?row = "\<lparr>i_jobID = d_JobID d, i_jobName = d_JobName d, i_dispatchedAt = now, i_leaseUntil = l,
                 i_ackReceived = False, i_ackBy = a, i_timeoutMS = d_TimeoutMS d\<rparr>"
  define dup where "dup = (map_of (ss_inflight s) (d_JobID d) \<noteq> None)"
  define s1 where "s1 = s\<lparr>ss_inflight := AList.update (d_JobID d) ?row (ss_inflight s),
      ss_inflightCounter := (if dup then ss_inflightCounter s else ss_inflightCounter s + 1)\<rparr>"
  have ok1: "session_ok s1"
    using assms unfolding s1_def dup_def session_ok_def
    by (auto simp: distinct_update alist_update_length dest!: alist_update_mem)
  have c1: "ss_inflightCounter s1 = (if dup then ss_inflightCounter s else ss_inflightCounter s + 1)"
    by (simp add: s1_def)
  show ?thesis
  proof (cases "length (ss_outbox s) < ss_outboxCap s")
    case True
    then have "recordDispatch now d l a s = (True, appendEvent (event now ''dispatched'' (d_JobID d) (d_JobName d) [])
        (s1\<lparr>ss_outbox := ss_outbox s1 @ [EDispatch d]\<rparr>))"
      by (simp add: recordDispatch_def Let_def offer_def s1_def dup_def)
    moreover have "quiet s1 (appendEvent (event now ''dispatched'' (d_JobID d) (d_JobName d) [])
        (s1\<lparr>ss_outbox := ss_outbox s1 @ [EDispatch d]\<rparr>))"
      using True offer_quiet [OF quiet_refl, of s1 "EDispatch d"]
      by (intro appendEvent_quiet) (simp add: offer_def s1_def)
    ultimately show ?thesis using ok1 c1 by (auto simp: quiet_def split: if_splits)
  next
    case False
    show ?thesis
    proof (cases dup)
      case True
      with False have "recordDispatch now d l a s = (False, s1)"
        by (simp add: recordDispatch_def Let_def offer_def s1_def dup_def)
      with ok1 c1 True show ?thesis by simp
    next
      case nd: False
      with False recordDispatch_iff [of now d l a s] recordDispatch_full [of now d l a s] assms show ?thesis
        by (simp add: dup_def)
    qed
  qed
qed

lemma recordDispatch_inflight:
  assumes "fst (recordDispatch now d l a s)"
  shows "map_of (ss_inflight (snd (recordDispatch now d l a s))) (d_JobID d)
    = Some \<lparr>i_jobID = d_JobID d, i_jobName = d_JobName d, i_dispatchedAt = now, i_leaseUntil = l,
            i_ackReceived = False, i_ackBy = a, i_timeoutMS = d_TimeoutMS d\<rparr>
    \<and> ss_outbox (snd (recordDispatch now d l a s)) = ss_outbox s @ [EDispatch d]
    \<and> (\<forall>i. i \<noteq> d_JobID d \<longrightarrow> map_of (ss_inflight (snd (recordDispatch now d l a s))) i = map_of (ss_inflight s) i)"
  using assms by (auto simp: recordDispatch_def Let_def offer_def appendEvent_def update_conv' split: if_splits)

lemma snapshotInflight_ids: "session_ok s \<Longrightarrow> map i_jobID (snapshotInflight s) = map fst (ss_inflight s)"
  by (auto simp: session_ok_def snapshotInflight_def)

end
