(* ===== verification/Jobs.thy ===== *)
theory Jobs
  imports Prelude
begin

text \<open>
  The job queue: the SQL primitives of \<open>clients/go/jobs/sql.go\<close>, the direct-Postgres worker of
  \<open>runner.go\<close>, the handler registry and checkpoints, and the admin operations of
  \<open>internal/server/admin/jobs.go\<close>. \<open>atlantis.jobs\<close> and \<open>atlantis.jobs_dead\<close> are lists of rows; each
  statement is a function on them. A statement that reports an error changes nothing; whether it
  does is an argument. \<open>now\<close> is the database's \<open>now()\<close>. SQL leaves the order of
  \<open>RETURNING\<close> open; the model takes the order of the table.
\<close>

section \<open>Tables\<close>

datatype status = Pending | Running | Complete | Failed

record job =
  j_id :: int
  j_name :: string
  j_queue :: string
  j_args :: bytes
  j_status :: status
  j_attempts :: int
  j_max_retries :: int
  j_timeout_ms :: "int option"
  j_last_error :: "string option"
  j_last_error_at :: "instant option"
  j_claimed_by :: "string option"
  j_claimed_until :: "instant option"
  j_scheduled_for :: instant
  j_started_at :: "instant option"
  j_completed_at :: "instant option"
  j_enqueued_at :: instant
  j_submitted_by :: "string option"
  j_trace_ctx :: "bytes option"
  j_worker_kind :: "string option"
  j_session :: "string option"
  j_progress :: "(int \<times> string \<times> instant) option"

record dead_job =
  x_id :: int
  x_name :: string
  x_queue :: string
  x_args :: bytes
  x_attempts :: int
  x_max_retries :: int
  x_last_error :: string
  x_last_error_at :: instant
  x_moved_at :: instant
  x_enqueued_at :: instant
  x_submitted_by :: "string option"

record jobs_db =
  jobs :: "job list"
  dead_jobs :: "dead_job list"
  jobs_seq :: int

definition WorkerKindDirectPG :: string where "WorkerKindDirectPG = ''direct_pg''"
definition WorkerKindDispatched :: string where "WorkerKindDispatched = ''dispatched''"

section \<open>sql.go\<close>

record ClaimedRow =
  c_ID :: int
  c_JobName :: string
  c_Args :: bytes
  c_Attempts :: int
  c_MaxRetries :: int
  c_TimeoutMS :: int
  c_EnqueuedAt :: instant
  c_ScheduledFor :: instant
  c_TraceCtx :: "bytes option"

text \<open>The budget of a row, \<open>GREATEST(max_retries, 1)\<close>.\<close>

definition budget :: "job \<Rightarrow> int" where
  "budget j = max (j_max_retries j) 1"

text \<open>The \<open>WHERE\<close> clause that \<open>buildClaimSQL\<close> renders; \<open>names = []\<close> is no name filter.\<close>

definition claimable :: "instant \<Rightarrow> string \<Rightarrow> string list \<Rightarrow> job \<Rightarrow> bool" where
  "claimable now queue names j \<longleftrightarrow>
     j_queue j = queue \<and> j_scheduled_for j \<le> now \<and> j_attempts j < budget j
   \<and> (j_status j = Pending
      \<or> (j_status j = Running \<and> (case j_claimed_until j of None \<Rightarrow> True | Some u \<Rightarrow> u < now)))
   \<and> (names = [] \<or> j_name j \<in> set names)"

text \<open>The \<open>SET\<close> clause of the claim.\<close>

definition claim_update :: "instant \<Rightarrow> string \<Rightarrow> instant \<Rightarrow> string \<Rightarrow> string \<Rightarrow> job \<Rightarrow> job" where
  "claim_update now claimedBy leaseUntil kind session j =
     j\<lparr>j_status := Running, j_attempts := j_attempts j + 1, j_claimed_by := Some claimedBy,
       j_claimed_until := Some leaseUntil,
       j_started_at := (case j_started_at j of None \<Rightarrow> Some now | s \<Rightarrow> s),
       j_worker_kind := Some kind, j_session := (if session = [] then None else Some session)\<rparr>"

definition claimed_row :: "job \<Rightarrow> ClaimedRow" where
  "claimed_row j = \<lparr>c_ID = j_id j, c_JobName = j_name j, c_Args = j_args j, c_Attempts = j_attempts j,
     c_MaxRetries = j_max_retries j, c_TimeoutMS = (case j_timeout_ms j of None \<Rightarrow> 0 | Some t \<Rightarrow> t),
     c_EnqueuedAt = j_enqueued_at j, c_ScheduledFor = j_scheduled_for j, c_TraceCtx = j_trace_ctx j\<rparr>"

text \<open>\<open>locked\<close>: the rows other transactions hold, which \<open>SKIP LOCKED\<close> passes over.\<close>

definition ready_ids :: "(int \<Rightarrow> bool) \<Rightarrow> instant \<Rightarrow> string \<Rightarrow> string list \<Rightarrow> int \<Rightarrow> jobs_db \<Rightarrow> int list" where
  "ready_ids locked now queue names limit db =
     map j_id (take (nat limit) (filter (\<lambda>j. claimable now queue names j \<and> \<not> locked (j_id j))
       (sort_key j_scheduled_for (jobs db))))"

definition ClaimRows ::
  "bool \<Rightarrow> (int \<Rightarrow> bool) \<Rightarrow> instant \<Rightarrow> string \<Rightarrow> string list \<Rightarrow> int \<Rightarrow> string \<Rightarrow> instant \<Rightarrow> string \<Rightarrow> string
     \<Rightarrow> jobs_db \<Rightarrow> (unit + ClaimedRow list) \<times> jobs_db" where
  "ClaimRows fails locked now queue names limit claimedBy leaseUntil kind session db =
     (if fails \<or> limit < 0 then (Inl (), db)
      else let ready = set (ready_ids locked now queue names limit db);
               js = update_where (\<lambda>j. j_id j \<in> ready) (claim_update now claimedBy leaseUntil kind session) (jobs db)
           in (Inr (map claimed_row (filter (\<lambda>j. j_id j \<in> ready) js)), db\<lparr>jobs := js\<rparr>))"

definition ExtendLease ::
  "bool \<Rightarrow> instant \<Rightarrow> int list \<Rightarrow> string \<Rightarrow> duration \<Rightarrow> jobs_db \<Rightarrow> (unit + unit) \<times> jobs_db" where
  "ExtendLease fails now jobIDs claimedBy leaseExtension db =
     (if jobIDs = [] then (Inr (), db)
      else if fails then (Inl (), db)
      else (Inr (), db\<lparr>jobs := update_where (\<lambda>j. j_id j \<in> set jobIDs \<and> j_claimed_by j = Some claimedBy)
             (\<lambda>j. j\<lparr>j_claimed_until := Some (now + leaseExtension div millisecond * millisecond)\<rparr>) (jobs db)\<rparr>))"

definition MarkComplete :: "bool \<Rightarrow> instant \<Rightarrow> int \<Rightarrow> jobs_db \<Rightarrow> (unit + unit) \<times> jobs_db" where
  "MarkComplete fails now jobID db =
     (if fails then (Inl (), db)
      else (Inr (), db\<lparr>jobs := update_where (\<lambda>j. j_id j = jobID)
             (\<lambda>j. j\<lparr>j_status := Complete, j_completed_at := Some now, j_claimed_by := None,
                    j_claimed_until := None, j_session := None\<rparr>) (jobs db)\<rparr>))"

definition bury :: "instant \<Rightarrow> string \<Rightarrow> job \<Rightarrow> dead_job" where
  "bury now msg j = \<lparr>x_id = j_id j, x_name = j_name j, x_queue = j_queue j, x_args = j_args j,
     x_attempts = j_attempts j, x_max_retries = j_max_retries j, x_last_error = msg, x_last_error_at = now,
     x_moved_at = now, x_enqueued_at = j_enqueued_at j, x_submitted_by = j_submitted_by j\<rparr>"

text \<open>
  \<open>MoveToDLQ\<close>: one transaction, so a failure of any of its statements (also the duplicate key
  of the \<open>INSERT\<close>) leaves both tables as they were.
\<close>

definition MoveToDLQ :: "bool \<Rightarrow> instant \<Rightarrow> int \<Rightarrow> string \<Rightarrow> jobs_db \<Rightarrow> (unit + unit) \<times> jobs_db" where
  "MoveToDLQ fails now jobID errMsg db =
     (let moved = filter (\<lambda>j. j_id j = jobID) (jobs db)
      in if fails \<or> (moved \<noteq> [] \<and> jobID \<in> set (map x_id (dead_jobs db))) then (Inl (), db)
         else (Inr (), db\<lparr>jobs := delete_where (\<lambda>j. j_id j = jobID) (jobs db),
                          dead_jobs := dead_jobs db @ map (bury now errMsg) moved\<rparr>))"

definition requeue :: "instant \<Rightarrow> string \<Rightarrow> job \<Rightarrow> job" where
  "requeue now msg j = j\<lparr>j_status := Pending, j_last_error := Some msg, j_last_error_at := Some now,
     j_claimed_by := None, j_claimed_until := None, j_session := None\<rparr>"

definition ReportFailure :: "bool \<Rightarrow> instant \<Rightarrow> int \<Rightarrow> int \<Rightarrow> int \<Rightarrow> string \<Rightarrow> jobs_db \<Rightarrow> (unit + unit) \<times> jobs_db" where
  "ReportFailure fails now jobID attempts maxRetries errMsg db =
     (if attempts \<ge> maxRetries then MoveToDLQ fails now jobID errMsg db
      else if fails then (Inl (), db)
      else (Inr (), db\<lparr>jobs := update_where (\<lambda>j. j_id j = jobID) (requeue now errMsg) (jobs db)\<rparr>))"

definition exhausted :: "instant \<Rightarrow> string \<Rightarrow> job \<Rightarrow> bool" where
  "exhausted now queue j \<longleftrightarrow> j_queue j = queue \<and> j_attempts j \<ge> budget j
     \<and> (j_status j = Pending
        \<or> (j_status j = Running \<and> (case j_claimed_until j of None \<Rightarrow> False | Some u \<Rightarrow> u < now - 5 * minute)))"

definition exhausted_ids :: "(int \<Rightarrow> bool) \<Rightarrow> instant \<Rightarrow> string \<Rightarrow> int \<Rightarrow> jobs_db \<Rightarrow> int list" where
  "exhausted_ids locked now queue limit db =
     map j_id (take (nat limit) (filter (\<lambda>j. exhausted now queue j \<and> \<not> locked (j_id j)) (sort_key j_id (jobs db))))"

definition swept_msg :: string where "swept_msg = ''retries exhausted (swept)''"

definition SweepExhaustedToDLQ ::
  "bool \<Rightarrow> (int \<Rightarrow> bool) \<Rightarrow> instant \<Rightarrow> string \<Rightarrow> int \<Rightarrow> jobs_db \<Rightarrow> (unit + int) \<times> jobs_db" where
  "SweepExhaustedToDLQ fails locked now queue limit db =
     (let ids = exhausted_ids locked now queue limit db;
          moved = filter (\<lambda>j. j_id j \<in> set ids) (jobs db)
      in if fails \<or> limit < 0 \<or> set (map j_id moved) \<inter> set (map x_id (dead_jobs db)) \<noteq> {} then (Inl (), db)
         else (Inr (int (length moved)),
               db\<lparr>jobs := delete_where (\<lambda>j. j_id j \<in> set ids) (jobs db),
                  dead_jobs := dead_jobs db @ map (bury now swept_msg) moved\<rparr>))"

definition ReleaseRow :: "bool \<Rightarrow> instant \<Rightarrow> int \<Rightarrow> string \<Rightarrow> string \<Rightarrow> jobs_db \<Rightarrow> (unit + unit) \<times> jobs_db" where
  "ReleaseRow fails now jobID claimedBy reason db =
     (if fails then (Inl (), db)
      else (Inr (), db\<lparr>jobs := update_where (\<lambda>j. j_id j = jobID \<and> j_claimed_by j = Some claimedBy)
             (requeue now (''released:'' @ reason)) (jobs db)\<rparr>))"

definition isSafeIdent :: "string \<Rightarrow> bool" where
  "isSafeIdent s =
     (if s = [] \<or> length s > 63 then False
      else list_all (\<lambda>c. let n = of_char c :: nat in
             (97 \<le> n \<and> n \<le> 122) \<or> (65 \<le> n \<and> n \<le> 90) \<or> (48 \<le> n \<and> n \<le> 57) \<or> n = 95) s)"

section \<open>registry.go and checkpoint.go\<close>

text \<open>
  A handler is what it does while it runs: it answers with an error message or not, and the
  queue it leaves behind includes what heartbeats and other sessions did in the meantime.
\<close>

type_synonym handler = "bytes \<Rightarrow> jobs_db \<Rightarrow> string option \<times> jobs_db"
type_synonym registry = "string \<rightharpoonup> handler"

definition NewRegistry :: registry where "NewRegistry = Map.empty"

definition Register :: "string \<Rightarrow> handler \<Rightarrow> registry \<Rightarrow> registry" where
  "Register jobID h r = r(jobID \<mapsto> h)"

definition Registry_Lookup :: "registry \<Rightarrow> string \<Rightarrow> handler option" where
  "Registry_Lookup r jobID = r jobID"

definition HandlerNotRegistered :: "string \<Rightarrow> string" where
  "HandlerNotRegistered jobID = ''jobs: no handler registered for '' @ jobID"

definition Report :: "bool \<Rightarrow> instant \<Rightarrow> int \<Rightarrow> int \<Rightarrow> string \<Rightarrow> jobs_db \<Rightarrow> (unit + unit) \<times> jobs_db" where
  "Report fails now jobID pct msg db =
     (let pct1 = (if pct < 0 then 0 else pct); pct2 = (if pct1 > 100 then 100 else pct1)
      in if fails then (Inl (), db)
         else (Inr (), db\<lparr>jobs := update_where (\<lambda>j. j_id j = jobID) (\<lambda>j. j\<lparr>j_progress := Some (pct2, msg, now)\<rparr>) (jobs db)\<rparr>))"

section \<open>runner.go\<close>

record runner_config =
  rc_PodID :: string
  rc_BatchSize :: int
  rc_DrainInterval :: duration
  rc_HeartbeatBudget :: duration

datatype hook_event = OnJobComplete int | OnJobFailed int string

record runner =
  ru_registry :: registry
  ru_queue :: string
  ru_cfg :: runner_config
  ru_hook :: bool
  ru_lastClaimNS :: instant

definition Runner_NewWorker :: "string \<Rightarrow> instant \<Rightarrow> registry \<Rightarrow> string \<Rightarrow> runner_config \<Rightarrow> runner" where
  "Runner_NewWorker hostPid now reg queue cf =
     \<lparr>ru_registry = reg, ru_queue = queue,
      ru_cfg = \<lparr>rc_PodID = (if rc_PodID cf = [] then hostPid else rc_PodID cf),
        rc_BatchSize = (if rc_BatchSize cf \<le> 0 then 50 else rc_BatchSize cf),
        rc_DrainInterval = (if rc_DrainInterval cf \<le> 0 then second else rc_DrainInterval cf),
        rc_HeartbeatBudget = (if rc_HeartbeatBudget cf \<le> 0 then 2 * minute else rc_HeartbeatBudget cf)\<rparr>,
      ru_hook = False, ru_lastClaimNS = now\<rparr>"

definition reportFailure :: "bool \<Rightarrow> instant \<Rightarrow> bool \<Rightarrow> ClaimedRow \<Rightarrow> string \<Rightarrow> jobs_db \<Rightarrow> hook_event list \<times> jobs_db" where
  "reportFailure fails now hook r msg db =
     (let terminal = c_Attempts r \<ge> c_MaxRetries r;
          db1 = snd (ReportFailure fails now (c_ID r) (c_Attempts r) (c_MaxRetries r) msg db)
      in (if terminal \<and> hook then [OnJobFailed (c_ID r) msg] else [], db1))"

definition reportTransientFailure :: "bool \<Rightarrow> instant \<Rightarrow> ClaimedRow \<Rightarrow> string \<Rightarrow> jobs_db \<Rightarrow> jobs_db" where
  "reportTransientFailure fails now r msg db =
     (if c_Attempts r \<ge> c_MaxRetries r then snd (MoveToDLQ fails now (c_ID r) msg db)
      else if fails then db
      else db\<lparr>jobs := update_where (\<lambda>j. j_id j = c_ID r) (\<lambda>j. j\<lparr>j_last_error := Some msg, j_last_error_at := Some now\<rparr>) (jobs db)\<rparr>)"

definition handleOne :: "bool \<Rightarrow> instant \<Rightarrow> runner \<Rightarrow> ClaimedRow \<Rightarrow> jobs_db \<Rightarrow> hook_event list \<times> jobs_db" where
  "handleOne fails now w r db =
     (case Registry_Lookup (ru_registry w) (c_JobName r) of
        None \<Rightarrow> ([], reportTransientFailure fails now r (HandlerNotRegistered (c_JobName r)) db)
      | Some h \<Rightarrow>
          (case h (c_Args r) db of
             (None, db1) \<Rightarrow> (if ru_hook w then [OnJobComplete (c_ID r)] else [], snd (MarkComplete fails now (c_ID r) db1))
           | (Some msg, db1) \<Rightarrow> reportFailure fails now (ru_hook w) r msg db1))"

text \<open>\<open>drainOnce\<close>; \<open>clk\<close> gives the time and the statement failures a row meets.\<close>

definition Runner_drainOnce ::
  "bool \<Rightarrow> (int \<Rightarrow> bool) \<Rightarrow> instant \<Rightarrow> (int \<Rightarrow> bool \<times> instant) \<Rightarrow> runner \<Rightarrow> jobs_db \<Rightarrow> hook_event list \<times> runner \<times> jobs_db" where
  "Runner_drainOnce fails locked now clk w db =
     (case ClaimRows fails locked now (ru_queue w) [] (rc_BatchSize (ru_cfg w)) (rc_PodID (ru_cfg w))
             (now + rc_HeartbeatBudget (ru_cfg w)) WorkerKindDirectPG [] db of
        (Inl _, db1) \<Rightarrow> ([], w, db1)
      | (Inr rows, db1) \<Rightarrow>
          (let w1 = (if rows \<noteq> [] then w\<lparr>ru_lastClaimNS := now\<rparr> else w);
               (evs, db2) = foldl (\<lambda>(evs, d) r. let (e, d1) = handleOne (fst (clk (c_ID r))) (snd (clk (c_ID r))) w1 r d
                                              in (evs @ e, d1)) ([], db1) rows
           in (evs, w1, db2)))"

section \<open>admin/jobs.go\<close>

record jobSpec =
  s_maxRetries :: int
  s_timeoutMS :: int
  s_timeoutNone :: bool
  s_queue :: string
  s_visibleTo :: string

record SubmitJobRequest =
  q_JobName :: string
  q_Args :: bytes
  q_ScheduledAt :: "(unit + instant) option"
  q_SubmittedBy :: string

datatype admin_err = MutationDisabled | NameRequired | LoadCheckpoint | NoCheckpoint | UnknownJob string
  | NotAllowed string string string | InsertJob | IdRequired | NotFound string | TxFailed

text \<open>The row that \<open>SubmitJob\<close> inserts, with the declaration's defaults filled in.\<close>

definition new_job :: "instant \<Rightarrow> bytes option \<Rightarrow> SubmitJobRequest \<Rightarrow> jobSpec \<Rightarrow> int \<Rightarrow> job" where
  "new_job now trace req spec i =
     (let queue = (if s_queue spec = [] then ''default'' else s_queue spec);
          ms = (if s_timeoutMS spec = 0 \<and> \<not> s_timeoutNone spec then 30 * 60 * 1000 else s_timeoutMS spec);
          args = (if q_Args req = [] then ''{}'' else q_Args req)
      in \<lparr>j_id = i, j_name = q_JobName req, j_queue = queue, j_args = args,
          j_status = Pending, j_attempts = 0, j_max_retries = s_maxRetries spec,
          j_timeout_ms = (if s_timeoutNone spec then None else Some ms),
          j_last_error = None, j_last_error_at = None, j_claimed_by = None, j_claimed_until = None,
          j_scheduled_for = (case q_ScheduledAt req of Some (Inr t) \<Rightarrow> t | _ \<Rightarrow> now),
          j_started_at = None, j_completed_at = None, j_enqueued_at = now,
          j_submitted_by = Some (q_SubmittedBy req), j_trace_ctx = trace, j_worker_kind = None, j_session = None,
          j_progress = None\<rparr>)"

text \<open>
  \<open>SubmitJob\<close>. \<open>ir\<close> is the loaded checkpoint: an error, none applied, or its job
  declarations in order. A \<open>ScheduledAt\<close> that Postgres cannot read (\<open>Inl\<close>) fails the insert.
\<close>

definition SubmitJob ::
  "bool \<Rightarrow> (unit + (string \<times> jobSpec) list option) \<Rightarrow> bool \<Rightarrow> instant \<Rightarrow> bytes option \<Rightarrow> SubmitJobRequest \<Rightarrow> jobs_db
     \<Rightarrow> (admin_err + int) \<times> jobs_db" where
  "SubmitJob allowed ir fails now trace req db =
     (if \<not> allowed then (Inl MutationDisabled, db)
      else if q_JobName req = [] then (Inl NameRequired, db)
      else case ir of
        Inl _ \<Rightarrow> (Inl LoadCheckpoint, db)
      | Inr None \<Rightarrow> (Inl NoCheckpoint, db)
      | Inr (Some decls) \<Rightarrow>
          (case map_of decls (q_JobName req) of
             None \<Rightarrow> (Inl (UnknownJob (q_JobName req)), db)
           | Some spec \<Rightarrow>
               (let sb = q_SubmittedBy req;
                    submitter = (if length sb > 4 \<and> take 4 sb = ''cli:'' then drop 4 sb else sb)
                in if s_visibleTo spec \<noteq> [] \<and> s_visibleTo spec \<noteq> ''*'' \<and> submitter \<noteq> s_visibleTo spec
                   then (Inl (NotAllowed submitter (q_JobName req) (s_visibleTo spec)), db)
                   else if fails \<or> q_ScheduledAt req = Some (Inl ()) then (Inl InsertJob, db)
                   else (Inr (jobs_seq db),
                         db\<lparr>jobs := jobs db @ [new_job now trace req spec (jobs_seq db)], jobs_seq := jobs_seq db + 1\<rparr>))))"

text \<open>\<open>GetJobStatus\<close> and \<open>ListDeadJobs\<close>; the rows are what \<open>scanJobRow\<close> renders.\<close>

definition GetJobStatus :: "int option \<Rightarrow> jobs_db \<Rightarrow> admin_err + job option" where
  "GetJobStatus jobID db =
     (case jobID of None \<Rightarrow> Inl IdRequired | Some i \<Rightarrow> Inr (find (\<lambda>j. j_id j = i) (jobs db)))"

definition ListDeadJobs :: "string \<Rightarrow> int \<Rightarrow> jobs_db \<Rightarrow> dead_job list" where
  "ListDeadJobs name limit db =
     take (nat (if limit \<le> 0 then 50 else limit))
       (sort_key (\<lambda>x. - x_moved_at x) (filter (\<lambda>x. name = [] \<or> x_name x = name) (dead_jobs db)))"

text \<open>\<open>RetryDeadJob\<close>, one transaction; columns the \<open>INSERT\<close> does not name get their defaults.\<close>

definition revive :: "instant \<Rightarrow> dead_job \<Rightarrow> job" where
  "revive now x = \<lparr>j_id = x_id x, j_name = x_name x, j_queue = x_queue x, j_args = x_args x,
     j_status = Pending, j_attempts = 0, j_max_retries = x_max_retries x, j_timeout_ms = None,
     j_last_error = None, j_last_error_at = None, j_claimed_by = None, j_claimed_until = None,
     j_scheduled_for = now, j_started_at = None, j_completed_at = None, j_enqueued_at = x_enqueued_at x,
     j_submitted_by = x_submitted_by x, j_trace_ctx = None, j_worker_kind = None, j_session = None, j_progress = None\<rparr>"

definition RetryDeadJob :: "bool \<Rightarrow> bool \<Rightarrow> instant \<Rightarrow> int option \<Rightarrow> jobs_db \<Rightarrow> (admin_err + int) \<times> jobs_db" where
  "RetryDeadJob allowed fails now jobID db =
     (if \<not> allowed then (Inl MutationDisabled, db)
      else case jobID of
        None \<Rightarrow> (Inl IdRequired, db)
      | Some i \<Rightarrow>
          (let moved = filter (\<lambda>x. x_id x = i) (dead_jobs db)
           in if fails \<or> (moved \<noteq> [] \<and> i \<in> set (map j_id (jobs db))) then (Inl TxFailed, db)
              else if moved = [] then (Inl (NotFound (dec_int i)), db)
              else (Inr i, db\<lparr>jobs := jobs db @ map (revive now) moved,
                              dead_jobs := delete_where (\<lambda>x. x_id x = i) (dead_jobs db)\<rparr>)))"

section \<open>Invariant\<close>

definition job_ok :: "job \<Rightarrow> bool" where
  "job_ok j \<longleftrightarrow> 0 \<le> j_attempts j \<and> j_attempts j \<le> budget j
     \<and> (j_status j = Running \<longleftrightarrow> j_claimed_by j \<noteq> None) \<and> (j_claimed_by j = None \<longleftrightarrow> j_claimed_until j = None)
     \<and> (j_status j = Running \<longrightarrow> 0 < j_attempts j)"

definition jobs_inv :: "jobs_db \<Rightarrow> bool" where
  "jobs_inv db \<longleftrightarrow> distinct (map j_id (jobs db)) \<and> distinct (map x_id (dead_jobs db))
     \<and> j_id ` set (jobs db) \<inter> x_id ` set (dead_jobs db) = {}
     \<and> (\<forall>i\<in>j_id ` set (jobs db) \<union> x_id ` set (dead_jobs db). i < jobs_seq db)
     \<and> (\<forall>j\<in>set (jobs db). job_ok j)"

definition all_ids :: "jobs_db \<Rightarrow> int set" where
  "all_ids db = j_id ` set (jobs db) \<union> x_id ` set (dead_jobs db)"

lemma claim_update_simps [simp]:
  "j_id (claim_update now by until k s j) = j_id j" "budget (claim_update now by until k s j) = budget j"
  "j_attempts (claim_update now by until k s j) = j_attempts j + 1"
  "j_status (claim_update now by until k s j) = Running"
  "j_claimed_by (claim_update now by until k s j) = Some by"
  "j_claimed_until (claim_update now by until k s j) = Some until"
  by (simp_all add: claim_update_def budget_def)

lemma requeue_simps [simp]:
  "j_id (requeue now msg j) = j_id j" "budget (requeue now msg j) = budget j" "j_attempts (requeue now msg j) = j_attempts j"
  "j_status (requeue now msg j) = Pending" "j_claimed_by (requeue now msg j) = None" "j_claimed_until (requeue now msg j) = None"
  by (simp_all add: requeue_def budget_def)

lemma bury_id [simp]: "x_id (bury now msg j) = j_id j"
  by (simp add: bury_def)

lemma image_update_where:
  assumes "\<And>j. g (f j) = g j"
  shows "g ` set (update_where p f t) = g ` set t"
  using map_update_where [of g f p t, OF assms] by (metis list.set_map)

lemma inv_update [inv_intros]:
  assumes "jobs_inv db" and "\<And>j. j_id (f j) = j_id j" and "\<And>j. j \<in> set (jobs db) \<Longrightarrow> p j \<Longrightarrow> job_ok j \<Longrightarrow> job_ok (f j)"
  shows "jobs_inv (db\<lparr>jobs := update_where p f (jobs db)\<rparr>)"
proof -
  have "\<forall>j\<in>set (update_where p f (jobs db)). job_ok j"
    using assms(1,3) by (auto simp: set_update_where jobs_inv_def)
  then show ?thesis
    using assms(1) unfolding jobs_inv_def
    by (simp add: map_update_where [of j_id f, OF assms(2)] image_update_where [of j_id f, OF assms(2)])
qed

lemma inv_bury [inv_intros]:
  assumes "jobs_inv db"
  shows "jobs_inv (db\<lparr>jobs := delete_where p (jobs db), dead_jobs := dead_jobs db @ map (bury now msg) (filter p (jobs db))\<rparr>)"
proof -
  let ?J = "jobs db" and ?D = "dead_jobs db"
  have inj: "inj_on j_id (set ?J)" and d: "distinct (map j_id ?J)" "distinct (map x_id ?D)"
    and dis: "j_id ` set ?J \<inter> x_id ` set ?D = {}" and lt: "\<forall>i\<in>j_id ` set ?J \<union> x_id ` set ?D. i < jobs_seq db"
    and ok: "\<forall>j\<in>set ?J. job_ok j"
    using assms by (auto simp: jobs_inv_def distinct_map)
  have ids: "map x_id (map (bury now msg) (filter p ?J)) = map j_id (filter p ?J)" by (simp add: comp_def)
  have "distinct (map j_id (filter p ?J))" using d(1) by (simp add: distinct_map_filter)
  moreover have "j_id ` {j \<in> set ?J. \<not> p j} \<inter> j_id ` {j \<in> set ?J. p j} = {}" using inj by (auto simp: inj_on_def)
  moreover have "x_id ` bury now msg ` {j \<in> set ?J. p j} = j_id ` {j \<in> set ?J. p j}" by (force simp: image_image)
  ultimately show ?thesis
    using d dis lt ok distinct_map_delete_where [OF d(1), of p] unfolding jobs_inv_def
    by (auto simp: ids simp del: map_map)
qed

lemma inv_add [inv_intros]:
  assumes "jobs_inv db" and "j_id j = jobs_seq db" and "job_ok j"
  shows "jobs_inv (db\<lparr>jobs := jobs db @ [j], jobs_seq := jobs_seq db + 1\<rparr>)"
proof -
  have lt: "i < jobs_seq db" if "i \<in> j_id ` set (jobs db) \<union> x_id ` set (dead_jobs db)" for i
    using assms(1) that by (simp add: jobs_inv_def)
  then have fresh: "jobs_seq db \<notin> j_id ` set (jobs db)" "jobs_seq db \<notin> x_id ` set (dead_jobs db)" by blast+
  have le: "i < jobs_seq db + 1" if "i \<in> j_id ` set (jobs db) \<union> x_id ` set (dead_jobs db)" for i
    using lt [OF that] by simp
  show ?thesis using assms fresh le unfolding jobs_inv_def by simp
qed

lemma ready_claimable:
  assumes "distinct (map j_id (jobs db))" and "j \<in> set (jobs db)" and "j_id j \<in> set (ready_ids locked now queue names limit db)"
  shows "claimable now queue names j \<and> \<not> locked (j_id j)"
proof -
  let ?P = "\<lambda>j. claimable now queue names j \<and> \<not> locked (j_id j)"
  let ?t = "take (nat limit) (filter ?P (sort_key j_scheduled_for (jobs db)))"
  have "j_id j \<in> j_id ` set ?t" using assms(3) unfolding ready_ids_def set_map .
  then obtain i where e: "j_id j = j_id i" and t: "i \<in> set ?t" by (rule imageE)
  note i = in_set_takeD [OF t] e [symmetric]
  then have "i \<in> set (jobs db)" by simp
  with assms(1,2) i(2) have "i = j" by (auto simp: distinct_map inj_on_def)
  with i show ?thesis by simp
qed

lemma ready_complete:
  assumes "j \<in> set (jobs db)" and "claimable now queue names j" and "\<not> locked (j_id j)" and "int (length (jobs db)) \<le> limit"
  shows "j_id j \<in> set (ready_ids locked now queue names limit db)"
proof -
  let ?l = "filter (\<lambda>j. claimable now queue names j \<and> \<not> locked (j_id j)) (sort_key j_scheduled_for (jobs db))"
  have "length ?l \<le> length (jobs db)" using length_filter_le [of _ "sort_key j_scheduled_for (jobs db)"] by simp
  with assms(4) have "take (nat limit) ?l = ?l" by simp
  moreover have "j \<in> set ?l" using assms(1-3) by simp
  ultimately show ?thesis by (simp add: ready_ids_def)
qed

lemma ClaimRows_Inr:
  assumes "ClaimRows fails locked now queue names limit who until kind session db = (Inr rows, db')"
  shows "db' = db\<lparr>jobs := update_where (\<lambda>j. j_id j \<in> set (ready_ids locked now queue names limit db)) (claim_update now who until kind session) (jobs db)\<rparr>
    \<and> rows = map claimed_row (filter (\<lambda>j. j_id j \<in> set (ready_ids locked now queue names limit db)) (jobs db'))"
  using assms by (auto simp: ClaimRows_def Let_def split: if_splits)

lemma claim_inv:
  assumes "jobs_inv db" and "ClaimRows fails locked now queue names limit who until kind session db = (r, db')"
  shows "jobs_inv db'"
proof (cases r)
  case (Inr rows)
  have d: "distinct (map j_id (jobs db))" using assms(1) by (simp add: jobs_inv_def)
  let ?R = "set (ready_ids locked now queue names limit db)"
  have "jobs_inv (db\<lparr>jobs := update_where (\<lambda>j. j_id j \<in> ?R) (claim_update now who until kind session) (jobs db)\<rparr>)"
  proof (rule inv_update [OF assms(1)])
    fix j assume j: "j \<in> set (jobs db)" "j_id j \<in> ?R" "job_ok j"
    from ready_claimable [OF d j(1,2)] j(3) show "job_ok (claim_update now who until kind session j)"
      by (auto simp: job_ok_def claimable_def)
  qed simp
  with ClaimRows_Inr [OF assms(2) [unfolded Inr]] show ?thesis by simp
qed (use assms in \<open>auto simp: ClaimRows_def Let_def split: if_splits\<close>)

section \<open>Runs of the queue\<close>

text \<open>
  One statement of a worker, a dispatcher or a submitter, with the ids it claimed. The runner and
  the dispatcher are sequences of such steps, of any number of sessions in any order.
\<close>

inductive queue_step :: "jobs_db \<Rightarrow> int list \<Rightarrow> jobs_db \<Rightarrow> bool" where
  claim: "ClaimRows f l now q ns lim by until k s db = (Inr rows, db') \<Longrightarrow> queue_step db (map c_ID rows) db'"
| extend: "ExtendLease f now ids by ext db = (r, db') \<Longrightarrow> queue_step db [] db'"
| complete: "MarkComplete f now i db = (r, db') \<Longrightarrow> queue_step db [] db'"
| fail: "ReportFailure f now i a m msg db = (r, db') \<Longrightarrow> queue_step db [] db'"
| dlq: "MoveToDLQ f now i msg db = (r, db') \<Longrightarrow> queue_step db [] db'"
| sweep: "SweepExhaustedToDLQ f l now q lim db = (n, db') \<Longrightarrow> queue_step db [] db'"
| release: "ReleaseRow f now i by reason db = (r, db') \<Longrightarrow> queue_step db [] db'"
| transient: "reportTransientFailure f now row msg db = db' \<Longrightarrow> queue_step db [] db'"
| report: "Report f now i pct msg db = (r, db') \<Longrightarrow> queue_step db [] db'"
| submit: "SubmitJob al ir f now tr req db = (r2, db') \<Longrightarrow> queue_step db [] db'"

inductive queue_run :: "jobs_db \<Rightarrow> int list \<Rightarrow> jobs_db \<Rightarrow> bool" where
  idle: "queue_run db [] db"
| step: "queue_run db cs db1 \<Longrightarrow> queue_step db1 c db2 \<Longrightarrow> queue_run db (cs @ c) db2"

text \<open>With the operator's \<open>RetryDeadJob\<close>: the states an empty queue can get into.\<close>

inductive jobs_reach :: "jobs_db \<Rightarrow> bool" where
  init: "jobs_reach \<lparr>jobs = [], dead_jobs = [], jobs_seq = n\<rparr>"
| step: "jobs_reach db \<Longrightarrow> queue_step db c db' \<Longrightarrow> jobs_reach db'"
| retry: "jobs_reach db \<Longrightarrow> RetryDeadJob al f now i db = (r, db') \<Longrightarrow> jobs_reach db'"

lemma MoveToDLQ_db:
  "MoveToDLQ f now i msg db = (r, db') \<Longrightarrow> db' = db
     \<or> db' = db\<lparr>jobs := delete_where (\<lambda>j. j_id j = i) (jobs db),
              dead_jobs := dead_jobs db @ map (bury now msg) (filter (\<lambda>j. j_id j = i) (jobs db))\<rparr>"
  unfolding MoveToDLQ_def Let_def by (metis prod.inject)

lemma Sweep_db:
  "SweepExhaustedToDLQ f l now q lim db = (n, db') \<Longrightarrow> db' = db
     \<or> (\<exists>ids. db' = db\<lparr>jobs := delete_where (\<lambda>j. j_id j \<in> set ids) (jobs db),
              dead_jobs := dead_jobs db @ map (bury now swept_msg) (filter (\<lambda>j. j_id j \<in> set ids) (jobs db))\<rparr>)"
  unfolding SweepExhaustedToDLQ_def Let_def by (metis prod.inject)

lemma ReportFailure_db:
  "ReportFailure f now i a m msg db = (r, db') \<Longrightarrow> db' = db
     \<or> db' = db\<lparr>jobs := update_where (\<lambda>j. j_id j = i) (requeue now msg) (jobs db)\<rparr>
     \<or> (\<exists>r1. MoveToDLQ f now i msg db = (r1, db'))"
  unfolding ReportFailure_def by (metis prod.inject)

lemma reportTransientFailure_db:
  "reportTransientFailure f now row msg db = db' \<Longrightarrow> db' = db
     \<or> db' = db\<lparr>jobs := update_where (\<lambda>j. j_id j = c_ID row) (\<lambda>j. j\<lparr>j_last_error := Some msg, j_last_error_at := Some now\<rparr>) (jobs db)\<rparr>
     \<or> (\<exists>r1. MoveToDLQ f now (c_ID row) msg db = (r1, db'))"
  unfolding reportTransientFailure_def by (metis prod.collapse)

lemma dlq_inv: "jobs_inv db \<Longrightarrow> MoveToDLQ f now i msg db = (r, db') \<Longrightarrow> jobs_inv db'"
  using MoveToDLQ_db [of f now i msg db r db'] inv_bury by metis

lemma requeue_ok: "job_ok j \<Longrightarrow> job_ok (requeue now msg j)"
  by (simp add: job_ok_def)

lemma new_job_simps [simp]:
  "j_id (new_job now tr req spec i) = i" "j_status (new_job now tr req spec i) = Pending"
  "j_attempts (new_job now tr req spec i) = 0" "j_claimed_by (new_job now tr req spec i) = None"
  "j_claimed_until (new_job now tr req spec i) = None"
  by (simp_all add: new_job_def Let_def)

lemma SubmitJob_db:
  "SubmitJob al ir f now tr req db = (r, db') \<Longrightarrow> db' = db
     \<or> (\<exists>spec. db' = db\<lparr>jobs := jobs db @ [new_job now tr req spec (jobs_seq db)], jobs_seq := jobs_seq db + 1\<rparr>)"
  by (simp add: SubmitJob_def Let_def split: if_splits sum.splits option.splits) auto

lemma submit_inv:
  assumes "jobs_inv db" and "SubmitJob al ir f now tr req db = (r, db')"
  shows "jobs_inv db'"
  using SubmitJob_db [OF assms(2)]
proof
  assume "\<exists>spec. db' = db\<lparr>jobs := jobs db @ [new_job now tr req spec (jobs_seq db)], jobs_seq := jobs_seq db + 1\<rparr>"
  then obtain spec where db': "db' = db\<lparr>jobs := jobs db @ [new_job now tr req spec (jobs_seq db)], jobs_seq := jobs_seq db + 1\<rparr>" ..
  have "job_ok (new_job now tr req spec (jobs_seq db))" by (simp add: job_ok_def budget_def)
  with assms(1) show ?thesis unfolding db' by (intro inv_add) simp_all
qed (use assms in simp)

lemma queue_step_inv: "queue_step db c db' \<Longrightarrow> jobs_inv db \<Longrightarrow> jobs_inv db'"
proof (induction rule: queue_step.induct)
  case claim
  then show ?case by (rule claim_inv [rotated])
next
  case extend
  then show ?case
    by (auto simp: ExtendLease_def split: if_splits intro!: inv_update) (auto simp: job_ok_def budget_def)
next
  case complete
  then show ?case
    by (auto simp: MarkComplete_def split: if_splits intro!: inv_update) (auto simp: job_ok_def budget_def)
next
  case fail
  then show ?case
    by (auto simp: ReportFailure_def split: if_splits intro!: inv_update requeue_ok dest: dlq_inv)
next
  case dlq
  then show ?case using dlq_inv by blast
next
  case sweep
  then show ?case by (auto simp: SweepExhaustedToDLQ_def Let_def split: if_splits intro: inv_bury)
next
  case release
  then show ?case by (auto simp: ReleaseRow_def split: if_splits intro!: inv_update requeue_ok)
next
  case (transient f now row msg db db')
  obtain r1 d1 where m: "MoveToDLQ f now (c_ID row) msg db = (r1, d1)" by fastforce
  from transient dlq_inv [OF transient.prems m] m show ?case
    by (auto simp: reportTransientFailure_def split: if_splits intro!: inv_update) (auto simp: job_ok_def budget_def)
next
  case report
  then show ?case
    by (auto simp: Report_def Let_def split: if_splits intro!: inv_update) (auto simp: job_ok_def budget_def)
next
  case submit
  then show ?case using submit_inv by blast
qed

lemma all_ids_update: "(\<And>j. j_id (f j) = j_id j) \<Longrightarrow> all_ids (db\<lparr>jobs := update_where p f (jobs db)\<rparr>) = all_ids db"
  by (simp add: all_ids_def image_update_where)

lemma all_ids_bury:
  "all_ids (db\<lparr>jobs := delete_where p (jobs db), dead_jobs := dead_jobs db @ map (bury now msg) (filter p (jobs db))\<rparr>) = all_ids db"
proof -
  have "x_id ` bury now msg ` {j \<in> set (jobs db). p j} = j_id ` {j \<in> set (jobs db). p j}" by (force simp: image_image)
  moreover have "j_id ` set (jobs db) = j_id ` {j \<in> set (jobs db). \<not> p j} \<union> j_id ` {j \<in> set (jobs db). p j}" by blast
  ultimately show ?thesis by (auto simp: all_ids_def image_Un)
qed

lemma dlq_ids: "MoveToDLQ f now i msg db = (r, db') \<Longrightarrow> all_ids db' = all_ids db"
  using MoveToDLQ_db [of f now i msg db r db'] all_ids_bury by metis

lemma dlq_seq: "MoveToDLQ f now i msg db = (r, db') \<Longrightarrow> jobs_seq db' = jobs_seq db"
  using MoveToDLQ_db [of f now i msg db r db'] by auto

lemma queue_step_ids: "queue_step db c db' \<Longrightarrow> all_ids db \<subseteq> all_ids db' \<and> jobs_seq db \<le> jobs_seq db'"
proof (induction rule: queue_step.induct)
  case claim
  then show ?case by (auto simp: ClaimRows_def Let_def all_ids_update split: if_splits)
next
  case extend
  then show ?case by (auto simp: ExtendLease_def all_ids_update split: if_splits)
next
  case complete
  then show ?case by (auto simp: MarkComplete_def all_ids_update split: if_splits)
next
  case fail
  from ReportFailure_db [OF this] show ?case by (auto simp: all_ids_update dlq_ids dlq_seq)
next
  case dlq
  then show ?case by (simp add: dlq_ids dlq_seq)
next
  case sweep
  from Sweep_db [OF this] show ?case by (auto simp: all_ids_bury)
next
  case release
  then show ?case by (auto simp: ReleaseRow_def all_ids_update split: if_splits)
next
  case transient
  from reportTransientFailure_db [OF this] show ?case by (auto simp: all_ids_update dlq_ids dlq_seq)
next
  case report
  then show ?case by (auto simp: Report_def Let_def all_ids_update split: if_splits)
next
  case submit
  then show ?case using SubmitJob_db by (fastforce simp: all_ids_def)
qed

text \<open>How many more times the rows with id \<open>i\<close> can be claimed.\<close>

definition claims_left :: "int \<Rightarrow> job list \<Rightarrow> int" where
  "claims_left i js = sum_list (map (\<lambda>j. if j_id j = i then budget j - j_attempts j else 0) js)"

lemma claims_left_Cons [simp]:
  "claims_left i [] = 0"
  "claims_left i (j # js) = (if j_id j = i then budget j - j_attempts j else 0) + claims_left i js"
  by (simp_all add: claims_left_def)

lemma claims_left_claim:
  "claims_left i (update_where (\<lambda>j. j_id j \<in> R) (claim_update now who until k s) js)
     + int (count_list (map j_id (filter (\<lambda>j. j_id j \<in> R) (update_where (\<lambda>j. j_id j \<in> R) (claim_update now who until k s) js))) i)
   = claims_left i js"
  by (induction js) (auto simp: update_where_def)

lemma claims_left_update:
  assumes "\<And>j. j_id (f j) = j_id j" and "\<And>j. budget (f j) = budget j" and "\<And>j. j_attempts (f j) = j_attempts j"
  shows "claims_left i (update_where p f js) = claims_left i js"
  by (induction js) (auto simp: update_where_def assms)

lemma claims_left_delete:
  "\<forall>j\<in>set js. job_ok j \<Longrightarrow> claims_left i (delete_where p js) \<le> claims_left i js"
  by (induction js) (auto simp: delete_where_def job_ok_def)

lemma claims_left_nonneg: "\<forall>j\<in>set js. job_ok j \<Longrightarrow> 0 \<le> claims_left i js"
  by (induction js) (auto simp: job_ok_def)

lemma claims_left_row:
  assumes "distinct (map j_id js)" and "j \<in> set js"
  shows "claims_left (j_id j) js = budget j - j_attempts j"
  using assms
proof (induction js)
  case (Cons a js)
  have "claims_left i js = 0" if "i \<notin> j_id ` set js" for i
    using that by (induction js) auto
  with Cons show ?case by auto
qed simp

lemma dlq_claims_left:
  assumes "jobs_inv db" and "MoveToDLQ f now k msg db = (r, db')"
  shows "claims_left i (jobs db') \<le> claims_left i (jobs db)"
proof -
  have "\<forall>j\<in>set (jobs db). job_ok j" using assms(1) by (simp add: jobs_inv_def)
  with MoveToDLQ_db [OF assms(2)] claims_left_delete show ?thesis by auto
qed

lemma queue_step_claims:
  "queue_step db c db' \<Longrightarrow> jobs_inv db \<Longrightarrow> i < jobs_seq db \<Longrightarrow>
     int (count_list c i) + claims_left i (jobs db') \<le> claims_left i (jobs db)"
proof (induction rule: queue_step.induct)
  case (claim f l now q ns lim who until k s db rows db')
  let ?R = "set (ready_ids l now q ns lim db)"
  have R: "jobs db' = update_where (\<lambda>j. j_id j \<in> ?R) (claim_update now who until k s) (jobs db)"
      "rows = map claimed_row (filter (\<lambda>j. j_id j \<in> ?R) (jobs db'))"
    using ClaimRows_Inr [OF claim(1)] by simp_all
  have "map c_ID rows = map j_id (filter (\<lambda>j. j_id j \<in> ?R) (jobs db'))"
    unfolding R(2) by (simp add: claimed_row_def)
  then show ?case using claims_left_claim [of i ?R now who until k s "jobs db"] R(1) by simp
next
  case extend
  then show ?case by (auto simp: ExtendLease_def claims_left_update budget_def split: if_splits)
next
  case complete
  then show ?case by (auto simp: MarkComplete_def claims_left_update budget_def split: if_splits)
next
  case (fail f now k a m msg db r db')
  from ReportFailure_db [OF fail(1)] dlq_claims_left [OF fail(2)] show ?case by (auto simp: claims_left_update)
next
  case dlq
  then show ?case using dlq_claims_left by simp
next
  case (sweep f l now q lim db n db')
  then have "\<forall>j\<in>set (jobs db). job_ok j" by (simp add: jobs_inv_def)
  with Sweep_db [OF sweep(1)] claims_left_delete show ?case by auto
next
  case release
  then show ?case by (auto simp: ReleaseRow_def claims_left_update split: if_splits)
next
  case (transient f now row msg db db')
  from reportTransientFailure_db [OF transient(1)] dlq_claims_left [OF transient(2)] show ?case
    by (auto simp: claims_left_update budget_def)
next
  case report
  then show ?case by (auto simp: Report_def Let_def claims_left_update budget_def split: if_splits)
next
  case (submit al ir f now tr req db r2 db')
  from SubmitJob_db [OF submit(1)] submit(3) show ?case by (auto simp: claims_left_def)
qed

lemma queue_run_inv:
  "queue_run db cs db' \<Longrightarrow> jobs_inv db \<Longrightarrow> jobs_inv db' \<and> all_ids db \<subseteq> all_ids db' \<and> jobs_seq db \<le> jobs_seq db'"
  by (induction rule: queue_run.induct) (auto dest: queue_step_inv queue_step_ids)

lemma queue_run_claims:
  "queue_run db cs db' \<Longrightarrow> jobs_inv db \<Longrightarrow> i < jobs_seq db \<Longrightarrow>
     int (count_list cs i) + claims_left i (jobs db') \<le> claims_left i (jobs db)"
proof (induction rule: queue_run.induct)
  case (step db cs db1 c db2)
  have "jobs_inv db1" "i < jobs_seq db1" using queue_run_inv [OF step(1)] step.prems by auto
  from queue_step_claims [OF step(2) this] step show ?case by simp
qed simp

lemma retry_inv:
  assumes "jobs_inv db" and "RetryDeadJob al f now i db = (r, db')"
  shows "jobs_inv db'"
proof (cases "db' = db")
  case False
  with assms(2) obtain k where k: "db' = db\<lparr>jobs := jobs db @ map (revive now) (filter (\<lambda>x. x_id x = k) (dead_jobs db)),
      dead_jobs := delete_where (\<lambda>x. x_id x = k) (dead_jobs db)\<rparr>" "k \<notin> j_id ` set (jobs db)"
    by (auto simp: RetryDeadJob_def Let_def split: if_splits option.splits)
  let ?D = "dead_jobs db" and ?m = "map (revive now) (filter (\<lambda>x. x_id x = k) (dead_jobs db))"
  have d: "distinct (map x_id ?D)" using assms(1) by (simp add: jobs_inv_def)
  have ids: "map j_id ?m = map x_id (filter (\<lambda>x. x_id x = k) ?D)" by (simp add: revive_def)
  have "distinct (map j_id ?m)" unfolding ids using d by (rule distinct_map_filter)
  moreover have "\<forall>j\<in>set ?m. job_ok j \<and> j_id j = k" by (auto simp: revive_def job_ok_def budget_def)
  moreover have "\<forall>j\<in>set ?m. k \<in> x_id ` set ?D" by auto
  ultimately show ?thesis
    using assms(1) k(2) distinct_map_delete_where [OF d] unfolding k(1) jobs_inv_def by auto
qed (use assms in simp)


text \<open>A concrete job: submitted at time 0 with two retries and a timeout of one second.\<close>

definition sample_spec :: jobSpec where
  "sample_spec = \<lparr>s_maxRetries = 2, s_timeoutMS = 1000, s_timeoutNone = False, s_queue = [], s_visibleTo = []\<rparr>"

definition sample_req :: SubmitJobRequest where
  "sample_req = \<lparr>q_JobName = ''shop.Sync'', q_Args = [], q_ScheduledAt = None, q_SubmittedBy = ''cli:ops''\<rparr>"

abbreviation "empty_queue \<equiv> \<lparr>jobs = [], dead_jobs = [], jobs_seq = 1\<rparr>"
abbreviation "sample_job \<equiv> new_job 0 None sample_req sample_spec 1"
abbreviation "sample_queue \<equiv> \<lparr>jobs = [sample_job], dead_jobs = [], jobs_seq = 2\<rparr>"

lemma sample_submit:
  "SubmitJob True (Inr (Some [(''shop.Sync'', sample_spec)])) False 0 None sample_req empty_queue = (Inr 1, sample_queue)"
  by (simp add: SubmitJob_def sample_req_def sample_spec_def)

lemma sample_reach: "jobs_reach sample_queue"
  by (rule jobs_reach.step [OF jobs_reach.init queue_step.submit [OF sample_submit]])

lemma sample_job_simps:
  "j_queue sample_job = ''default''" "j_scheduled_for sample_job = 0" "budget sample_job = 2" "j_name sample_job = ''shop.Sync''"
  "j_timeout_ms sample_job = Some 1000" "j_max_retries sample_job = 2"
  by (simp_all add: new_job_def sample_req_def sample_spec_def budget_def)

lemma sample_queue_inv: "jobs_inv sample_queue"
  by (simp add: jobs_inv_def job_ok_def sample_job_simps)


text \<open>
  C23: no job is lost and no job runs too often. Along any run of the queue without an operator's
  retry, every job stays in the live or the dead table, and the number of times a row is handed to
  some worker is at most what its budget had left at the start.
\<close>

theorem claims_bounded:
  assumes "jobs_inv db" and "queue_run db cs db'" and "j \<in> set (jobs db)"
  shows "all_ids db \<subseteq> all_ids db' \<and> int (count_list cs (j_id j)) \<le> budget j - j_attempts j"
proof -
  have d: "distinct (map j_id (jobs db))" and lt: "j_id j < jobs_seq db"
    using assms(1,3) by (auto simp: jobs_inv_def)
  have inv: "jobs_inv db'" "all_ids db \<subseteq> all_ids db'" using queue_run_inv [OF assms(2,1)] by auto
  then have "0 \<le> claims_left (j_id j) (jobs db')" by (simp add: jobs_inv_def claims_left_nonneg)
  with queue_run_claims [OF assms(2,1) lt] claims_left_row [OF d assms(3)] inv(2) show ?thesis by simp
qed

lemma sample_claim:
  "ClaimRows False (\<lambda>_. False) 0 ''default'' [] 5 ''pod-a'' minute WorkerKindDirectPG [] sample_queue
   = (Inr [claimed_row (claim_update 0 ''pod-a'' minute WorkerKindDirectPG [] sample_job)],
      sample_queue\<lparr>jobs := [claim_update 0 ''pod-a'' minute WorkerKindDirectPG [] sample_job]\<rparr>)"
  by (simp add: ClaimRows_def ready_ids_def claimable_def sample_job_simps update_where_def)

theorem claims_bounded_witness:
  "int (count_list [1] 1) \<le> budget sample_job - j_attempts sample_job"
proof -
  have "queue_run sample_queue ([] @ [1]) (sample_queue\<lparr>jobs := [claim_update 0 ''pod-a'' minute WorkerKindDirectPG [] sample_job]\<rparr>)"
    using queue_run.step [OF queue_run.idle queue_step.claim [OF sample_claim]] by (simp add: claimed_row_def)
  from claims_bounded [OF sample_queue_inv this, of sample_job] show ?thesis by simp
qed



text \<open>
  C34: failures and completions are not guarded by the claimant. A worker whose lease was lost,
  reporting a failure of its old attempt, takes the row away from the worker that runs it now: the
  row goes back to pending although the lease of its claimant is valid, and can be claimed a
  third time at once.
\<close>

theorem stale_failure_takes_row:
  assumes "j \<in> set (jobs db)" and "j_claimed_by j = Some who" and "j_claimed_until j = Some u" and "now \<le> u"
    and "j_status j = Running" and "j_attempts j < budget j" and "j_scheduled_for j \<le> now" and "attempts < maxRetries"
    and "ReportFailure False now (j_id j) attempts maxRetries msg db = (r, db')"
  shows "\<exists>j'\<in>set (jobs db'). j_id j' = j_id j \<and> j_claimed_by j' = None \<and> claimable now (j_queue j) [] j'
    \<and> \<not> claimable now (j_queue j) [] j"
proof -
  from assms(8,9) have "db' = db\<lparr>jobs := update_where (\<lambda>i. j_id i = j_id j) (requeue now msg) (jobs db)\<rparr>"
    by (simp add: ReportFailure_def)
  with assms(1) have "requeue now msg j \<in> set (jobs db')" by (auto simp: set_update_where)
  moreover have "claimable now (j_queue j) [] (requeue now msg j)"
    using assms(6,7) by (simp add: claimable_def requeue_def budget_def)
  moreover have "\<not> claimable now (j_queue j) [] j" using assms(3-5) by (simp add: claimable_def)
  ultimately show ?thesis by (intro bexI [of _ "requeue now msg j"]) simp_all
qed

theorem stale_failure_takes_row_witness:
  "\<exists>j'\<in>set (jobs (snd (ReportFailure False second 1 0 2 ''late''
        (sample_queue\<lparr>jobs := [claim_update 0 ''pod-b'' minute WorkerKindDirectPG [] sample_job]\<rparr>)))). j_claimed_by j' = None"
proof -
  let ?j = "claim_update 0 ''pod-b'' minute WorkerKindDirectPG [] sample_job"
  let ?db = "sample_queue\<lparr>jobs := [?j]\<rparr>"
  obtain r db' where f: "ReportFailure False second (j_id ?j) 0 2 ''late'' ?db = (r, db')" by fastforce
  have "j_scheduled_for ?j = 0" using sample_job_simps(2) by (simp add: claim_update_def)
  with stale_failure_takes_row [OF _ _ _ _ _ _ _ _ f, of "''pod-b''" minute] f show ?thesis
    by (auto simp: sample_job_simps)
qed

text \<open>
  C35: a dead job that is retried runs without its timeout. The dead-letter table has no column
  for it, so the row that \<open>RetryDeadJob\<close> brings back has none, whatever the declaration said; its
  attempts start over, its arguments and its id are kept.
\<close>

theorem retry_drops_timeout:
  assumes "jobs_inv db" and "j \<in> set (jobs db)" and "MoveToDLQ False now (j_id j) msg db = (r, db1)"
    and "RetryDeadJob True False now' (Some (j_id j)) db1 = (r', db2)"
  shows "r' = Inr (j_id j) \<and> (\<exists>j'\<in>set (jobs db2). j_id j' = j_id j \<and> j_args j' = j_args j \<and> j_name j' = j_name j
    \<and> j_attempts j' = 0 \<and> j_max_retries j' = j_max_retries j \<and> j_timeout_ms j' = None)"
proof -
  have f: "filter (\<lambda>i. j_id i = j_id j) (jobs db) = [j]"
    using assms(1,2) by (intro filter_key_unique) (simp_all add: jobs_inv_def)
  have nd: "j_id j \<notin> x_id ` set (dead_jobs db)" using assms(1,2) by (auto simp: jobs_inv_def)
  have db1: "db1 = db\<lparr>jobs := delete_where (\<lambda>i. j_id i = j_id j) (jobs db), dead_jobs := dead_jobs db @ [bury now msg j]\<rparr>"
    using assms(3) f nd by (auto simp: MoveToDLQ_def)
  have g: "filter (\<lambda>x. x_id x = j_id j) (dead_jobs db1) = [bury now msg j]"
    using nd by (auto simp: db1 filter_empty_conv image_iff)
  have "j_id j \<notin> set (map j_id (jobs db1))" by (auto simp: db1)
  with assms(4) g have "(r', db2) = (Inr (j_id j), db1\<lparr>jobs := jobs db1 @ [revive now' (bury now msg j)],
      dead_jobs := delete_where (\<lambda>x. x_id x = j_id j) (dead_jobs db1)\<rparr>)"
    by (simp add: RetryDeadJob_def)
  then show ?thesis by (simp add: revive_def bury_def)
qed

theorem retry_drops_timeout_witness:
  "j_timeout_ms sample_job = Some 1000 \<and> (\<exists>r db1 r' db2. MoveToDLQ False 0 1 ''boom'' sample_queue = (r, db1)
     \<and> RetryDeadJob True False 5 (Some 1) db1 = (r', db2) \<and> (\<exists>j'\<in>set (jobs db2). j_id j' = 1 \<and> j_timeout_ms j' = None))"
proof -
  obtain r db1 where m: "MoveToDLQ False 0 (j_id sample_job) ''boom'' sample_queue = (r, db1)" by fastforce
  obtain r' db2 where y: "RetryDeadJob True False 5 (Some (j_id sample_job)) db1 = (r', db2)" by fastforce
  from retry_drops_timeout [OF sample_queue_inv _ m y] m y show ?thesis
    using sample_job_simps(5) by auto
qed



end
