(* ===== verification/Dispatcher.thy ===== *)
theory Dispatcher
  imports Session Jobs
begin

text \<open>
  The worker-poll scheduler, \<open>internal/server/jobsdispatcher\<close>: \<open>dispatcher.go\<close>, \<open>authz.go\<close>,
  \<open>leaseproc.go\<close>, \<open>shutdown.go\<close>, \<open>cursor.go\<close>, \<open>admin_api.go\<close> and the stream handler of
  \<open>grpc.go\<close>. The session objects live in a heap addressed by their (unique) id, because a drain
  keeps pointers to sessions that may be unregistered meanwhile; \<open>dp_sessions\<close>, \<open>dp_byQueue\<close> and
  \<open>dp_owner\<close> hold such pointers. \<open>dp_pool\<close> is the database behind the connection pool. Clock reads,
  statement failures, the loaded schema and the iteration order of a Go map are arguments; the
  reads of the clock inside the handling of one row give one instant.
\<close>

section \<open>authz.go\<close>

record ir_job =
  ij_Namespace :: string
  ij_Name :: string
  ij_VisibleTo :: string
  ij_HeartbeatMS :: int

definition Job_ID :: "ir_job \<Rightarrow> string" where
  "Job_ID j = ij_Namespace j @ ''.'' @ ij_Name j"

datatype authz_err = NoIR | AuthzUnknownJob string | NotAuthorized string string

definition authz_msg :: "(string \<Rightarrow> string) \<Rightarrow> authz_err \<Rightarrow> string" where
  "authz_msg quote e =
     (case e of
        NoIR \<Rightarrow> ''no IR loaded''
      | AuthzUnknownJob n \<Rightarrow> ''unknown job '' @ quote n
      | NotAuthorized c n \<Rightarrow> ''caller '' @ quote c @ '' not authorized for job '' @ quote n)"

definition lookupJob :: "ir_job list \<Rightarrow> string \<Rightarrow> ir_job option" where
  "lookupJob ir name = find (\<lambda>j. Job_ID j = name) ir"

definition jobVisibleTo :: "ir_job \<Rightarrow> string \<Rightarrow> string list \<Rightarrow> bool" where
  "jobVisibleTo job callerCN aliases =
     (let v = ij_VisibleTo job
      in if v = [] \<or> v = ''*'' then True else if v = callerCN then True else list_ex (\<lambda>a. v = a) aliases)"

definition CheckSingleAuthz :: "string \<Rightarrow> string list \<Rightarrow> string \<Rightarrow> ir_job list option \<Rightarrow> authz_err + unit" where
  "CheckSingleAuthz callerCN aliases jobName ir =
     (case ir of
        None \<Rightarrow> Inl NoIR
      | Some decls \<Rightarrow>
          (case lookupJob decls jobName of
             None \<Rightarrow> Inl (AuthzUnknownJob jobName)
           | Some job \<Rightarrow> if \<not> jobVisibleTo job callerCN aliases then Inl (NotAuthorized callerCN jobName) else Inr ()))"

fun authz_names :: "string \<Rightarrow> string list \<Rightarrow> ir_job list \<Rightarrow> string list \<Rightarrow> authz_err + unit" where
  "authz_names callerCN aliases decls [] = Inr ()"
| "authz_names callerCN aliases decls (name # names) =
     (case lookupJob decls name of
        None \<Rightarrow> Inl (AuthzUnknownJob name)
      | Some job \<Rightarrow>
          if \<not> jobVisibleTo job callerCN aliases then Inl (NotAuthorized callerCN name)
          else authz_names callerCN aliases decls names)"

definition CheckWorkerAuthz :: "string \<Rightarrow> string list \<Rightarrow> string list \<Rightarrow> ir_job list option \<Rightarrow> authz_err + unit" where
  "CheckWorkerAuthz callerCN aliases jobNames ir =
     (case ir of None \<Rightarrow> Inl NoIR | Some decls \<Rightarrow> authz_names callerCN aliases decls jobNames)"

section \<open>dispatcher.go: state\<close>

record dconfig =
  dc_HeartbeatBudget :: duration
  dc_DrainInterval :: duration
  dc_BatchSize :: int
  dc_AckTimeoutMS :: int
  dc_ShutdownBudget :: duration
  dc_LeaseExpiryGrace :: duration
  dc_TimeoutBackstopGrace :: duration
  dc_PodID :: string

record dispatcher =
  dp_cfg :: dconfig
  dp_pool :: jobs_db
  dp_heap :: "string \<Rightarrow> session"
  dp_sessions :: "string list"
  dp_byQueue :: "string \<Rightarrow> string list"
  dp_owner :: "int \<rightharpoonup> string"
  dp_cursor :: "string \<times> string \<Rightarrow> 32 word"

definition Dispatcher_DefaultConfig :: "string \<Rightarrow> dconfig" where
  "Dispatcher_DefaultConfig host =
     \<lparr>dc_HeartbeatBudget = 5 * minute, dc_DrainInterval = second, dc_BatchSize = 50, dc_AckTimeoutMS = 150000,
      dc_ShutdownBudget = 30 * second, dc_LeaseExpiryGrace = 0, dc_TimeoutBackstopGrace = 0,
      dc_PodID = (if host = [] then ''atlantis'' else host)\<rparr>"

definition Dispatcher_config :: "string \<Rightarrow> dconfig \<Rightarrow> dconfig" where
  "Dispatcher_config host cf =
     (let hb = (if dc_HeartbeatBudget cf \<le> 0 then 5 * minute else dc_HeartbeatBudget cf)
      in \<lparr>dc_HeartbeatBudget = hb,
          dc_DrainInterval = (if dc_DrainInterval cf \<le> 0 then second else dc_DrainInterval cf),
          dc_BatchSize = (if dc_BatchSize cf \<le> 0 then 50 else dc_BatchSize cf),
          dc_AckTimeoutMS = (if dc_AckTimeoutMS cf \<le> 0 then hb div millisecond div 2 else dc_AckTimeoutMS cf),
          dc_ShutdownBudget = (if dc_ShutdownBudget cf \<le> 0 then 30 * second else dc_ShutdownBudget cf),
          dc_LeaseExpiryGrace = (if dc_LeaseExpiryGrace cf \<le> 0 then leaseExpiryGrace else dc_LeaseExpiryGrace cf),
          dc_TimeoutBackstopGrace =
            (if dc_TimeoutBackstopGrace cf \<le> 0 then timeoutBackstopGrace else dc_TimeoutBackstopGrace cf),
          dc_PodID = (if dc_PodID cf = [] then (if host = [] then ''atlantis'' else host) else dc_PodID cf)\<rparr>)"

definition Dispatcher_New :: "string \<Rightarrow> dconfig \<Rightarrow> jobs_db \<Rightarrow> (string \<Rightarrow> session) \<Rightarrow> dispatcher" where
  "Dispatcher_New host cf pool heap =
     \<lparr>dp_cfg = Dispatcher_config host cf, dp_pool = pool, dp_heap = heap, dp_sessions = [], dp_byQueue = (\<lambda>_. []),
      dp_owner = Map.empty, dp_cursor = (\<lambda>_. 0)\<rparr>"

definition on_session :: "string \<Rightarrow> (session \<Rightarrow> session) \<Rightarrow> dispatcher \<Rightarrow> dispatcher" where
  "on_session i f d = d\<lparr>dp_heap := (dp_heap d)(i := f (dp_heap d i))\<rparr>"

section \<open>dispatcher.go: registry\<close>

definition register :: "string \<Rightarrow> dispatcher \<Rightarrow> dispatcher" where
  "register i d =
     (let q = ss_queue (dp_heap d i)
      in d\<lparr>dp_sessions := (if i \<in> set (dp_sessions d) then dp_sessions d else dp_sessions d @ [i]),
           dp_byQueue := (dp_byQueue d)(q := dp_byQueue d q @ [i])\<rparr>)"

definition trackInflight :: "int \<Rightarrow> string \<Rightarrow> dispatcher \<Rightarrow> dispatcher" where
  "trackInflight jobID i d = d\<lparr>dp_owner := (dp_owner d)(jobID \<mapsto> i)\<rparr>"

definition untrackInflight :: "int \<Rightarrow> dispatcher \<Rightarrow> dispatcher" where
  "untrackInflight jobID d = d\<lparr>dp_owner := (dp_owner d)(jobID := None)\<rparr>"

definition releaseClaimed :: "bool \<Rightarrow> instant \<Rightarrow> int \<Rightarrow> string \<Rightarrow> string \<Rightarrow> dispatcher \<Rightarrow> dispatcher" where
  "releaseClaimed fails dbnow jobID who reason d =
     d\<lparr>dp_pool := snd (ReleaseRow fails dbnow jobID who reason (dp_pool d))\<rparr>"

text \<open>\<open>unregister\<close>; \<open>fails\<close> tells for which row the release fails.\<close>

definition unregister :: "(int \<Rightarrow> bool) \<Rightarrow> instant \<Rightarrow> instant \<Rightarrow> string \<Rightarrow> string \<Rightarrow> dispatcher \<Rightarrow> dispatcher" where
  "unregister fails now dbnow i reason d =
     (let s = dp_heap d i; inflight = snapshotInflight s;
          d1 = d\<lparr>dp_sessions := filter (\<lambda>x. x \<noteq> i) (dp_sessions d),
                 dp_byQueue := (dp_byQueue d)(ss_queue s := filter (\<lambda>x. x \<noteq> i) (dp_byQueue d (ss_queue s))),
                 dp_owner := (dp_owner d) |` (- set (map i_jobID inflight))\<rparr>;
          d2 = foldl (\<lambda>d row. releaseClaimed (fails (i_jobID row)) dbnow (i_jobID row) (claimedBy s) reason d) d1 inflight
      in on_session i (\<lambda>s. appendEvent (event now ''session_closed'' 0 [] reason) (session_close s)) d2)"

definition bindClaimToSession :: "bool \<Rightarrow> int \<Rightarrow> session \<Rightarrow> jobs_db \<Rightarrow> (unit + unit) \<times> jobs_db" where
  "bindClaimToSession fails jobID s db =
     (if fails then (Inl (), db)
      else (Inr (), db\<lparr>jobs := update_where (\<lambda>j. j_id j = jobID)
             (\<lambda>j. j\<lparr>j_claimed_by := Some (claimedBy s), j_session := Some (ss_id s)\<rparr>) (jobs db)\<rparr>))"

definition lookupAttempts :: "bool \<Rightarrow> int \<Rightarrow> jobs_db \<Rightarrow> unit + int \<times> int" where
  "lookupAttempts fails jobID db =
     (if fails then Inl ()
      else case find (\<lambda>j. j_id j = jobID) (jobs db) of
        None \<Rightarrow> Inl () | Some j \<Rightarrow> Inr (j_attempts j, j_max_retries j))"

text \<open>\<open>time.Time{}\<close>, the first of January of year 1, in nanoseconds from the Unix epoch.\<close>

definition zero_time :: instant where "zero_time = - 62135596800 * second"

definition buildDispatch :: "(instant \<Rightarrow> string) \<Rightarrow> ClaimedRow \<Rightarrow> Dispatch" where
  "buildDispatch rfc3339 r =
     \<lparr>d_JobID = c_ID r, d_JobName = c_JobName r, d_Args = c_Args r, d_Attempts = c_Attempts r,
      d_MaxRetries = c_MaxRetries r, d_TimeoutMS = c_TimeoutMS r,
      d_ScheduledFor = (if c_ScheduledFor r \<noteq> zero_time then rfc3339 (c_ScheduledFor r) else []),
      d_EnqueuedAt = (if c_EnqueuedAt r \<noteq> zero_time then rfc3339 (c_EnqueuedAt r) else []),
      d_TraceCtx = c_TraceCtx r\<rparr>"

section \<open>dispatcher.go: the drain\<close>

type_synonym budgets = "(string \<times> int) list"

text \<open>
  What one row meets on its way: the time, the schema in force (\<open>None\<close>: \<open>IRLoader\<close> gave none),
  and which of its statements fail.
\<close>

record row_env =
  re_now :: instant
  re_dbnow :: instant
  re_ir :: "ir_job list option"
  re_release_fails :: bool
  re_bind_fails :: bool
  re_extend_fails :: bool

text \<open>
  \<open>de_ord\<close> is the order in which Go ranges over a map with the given keys, \<open>de_fmt\<close> the RFC 3339
  rendering of a time and \<open>de_quote\<close> the quoting of \<open>%q\<close>.
\<close>

record drain_env =
  de_now :: instant
  de_dbnow :: instant
  de_claim_fails :: bool
  de_locked :: "int \<Rightarrow> bool"
  de_row :: "int \<Rightarrow> row_env"
  de_ord :: "string list \<Rightarrow> string list"
  de_fmt :: "instant \<Rightarrow> string"
  de_quote :: "string \<Rightarrow> string"

definition pickSession :: "(string list \<Rightarrow> string list) \<Rightarrow> string \<Rightarrow> string \<Rightarrow> budgets \<Rightarrow> dispatcher \<Rightarrow> string option \<times> dispatcher" where
  "pickSession ord queue jobName slots d =
     (let eligible = ord (map fst (filter (\<lambda>(i, n). n > 0 \<and> handlesJob (dp_heap d i) jobName) slots))
      in if eligible = [] then (None, d)
         else if length eligible = 1 then (Some (eligible ! 0), d)
         else let c = dp_cursor d (queue, jobName); idx = c mod of_nat (length eligible)
              in (Some (eligible ! unat idx), d\<lparr>dp_cursor := (dp_cursor d)((queue, jobName) := c + 1)\<rparr>))"

definition budget_spend :: "string \<Rightarrow> budgets \<Rightarrow> budgets" where
  "budget_spend i slots = filter (\<lambda>(k, n). k = i \<longrightarrow> n > 0) (map (\<lambda>(k, n). (k, if k = i then n - 1 else n)) slots)"

text \<open>The per-job lease: the override is written through \<open>ExtendLease\<close>, whose failure is not fatal.\<close>

definition row_lease :: "row_env \<Rightarrow> instant \<Rightarrow> session \<Rightarrow> ClaimedRow \<Rightarrow> dispatcher \<Rightarrow> instant \<times> dispatcher" where
  "row_lease re leaseUntil s row d =
     (case map_of (ss_perJobHeartbeat s) (c_JobName row) of
        Some perJob \<Rightarrow>
          if perJob > 0 \<and> perJob \<noteq> dc_HeartbeatBudget (dp_cfg d)
          then (case ExtendLease (re_extend_fails re) (re_dbnow re) [c_ID row] (claimedBy s) perJob (dp_pool d) of
                  (Inl _, db) \<Rightarrow> (leaseUntil, d\<lparr>dp_pool := db\<rparr>)
                | (Inr _, db) \<Rightarrow> (re_now re + perJob, d\<lparr>dp_pool := db\<rparr>))
          else (leaseUntil, d)
      | None \<Rightarrow> (leaseUntil, d))"

definition pod_claim :: "dispatcher \<Rightarrow> string" where
  "pod_claim d = ''dispatcher/'' @ dc_PodID (dp_cfg d)"

text \<open>Lines 394 to 444: bind, lease, record, track, spend the slot.\<close>

definition dispatch_row :: "drain_env \<Rightarrow> instant \<Rightarrow> ClaimedRow \<Rightarrow> string \<Rightarrow> budgets \<Rightarrow> dispatcher \<Rightarrow> budgets \<times> dispatcher" where
  "dispatch_row env leaseUntil row i slots d =
     (let re = de_row env (c_ID row); s = dp_heap d i
      in case bindClaimToSession (re_bind_fails re) (c_ID row) s (dp_pool d) of
           (Inl _, db) \<Rightarrow>
             (slots, releaseClaimed (re_release_fails re) (re_dbnow re) (c_ID row) (pod_claim d) ''bind_failed''
                        (d\<lparr>dp_pool := db\<rparr>))
         | (Inr _, db) \<Rightarrow>
             (let (rowLeaseUntil, d1) = row_lease re leaseUntil s row (d\<lparr>dp_pool := db\<rparr>);
                  ackBy = re_now re + dc_AckTimeoutMS (dp_cfg d) * millisecond;
                  (ok, s1) = recordDispatch (re_now re) (buildDispatch (de_fmt env) row) rowLeaseUntil ackBy s
              in if \<not> ok
                 then (slots, releaseClaimed (re_release_fails re) (re_dbnow re) (c_ID row) (claimedBy s) ''outbox_full''
                        (on_session i (\<lambda>_. session_close (s1\<lparr>ss_cntRevoked := ss_cntRevoked s1 + 1\<rparr>)) d1))
                 else (budget_spend i slots,
                       trackInflight (c_ID row) i
                         (on_session i (\<lambda>_. s1\<lparr>ss_cntDispatched := ss_cntDispatched s1 + 1\<rparr>) d1))))"

definition drain_row :: "drain_env \<Rightarrow> string \<Rightarrow> instant \<Rightarrow> ClaimedRow \<Rightarrow> budgets \<times> dispatcher \<Rightarrow> budgets \<times> dispatcher" where
  "drain_row env queue leaseUntil row = (\<lambda>(slots, d0).
     (let re = de_row env (c_ID row);
          (pick, d) = pickSession (de_ord env) queue (c_JobName row) slots d0
      in case pick of
           None \<Rightarrow>
             (slots, releaseClaimed (re_release_fails re) (re_dbnow re) (c_ID row) (pod_claim d) ''no_session_post_claim'' d)
         | Some i \<Rightarrow>
             (let s = dp_heap d i
              in case (if re_ir re = None then Inr () else CheckSingleAuthz (ss_caller s) (ss_aliases s) (c_JobName row) (re_ir re)) of
                   Inl e \<Rightarrow>
                     (slots, releaseClaimed (re_release_fails re) (re_dbnow re) (c_ID row) (claimedBy s) ''authz_rejected''
                        (on_session i (appendEvent (event (re_now re) ''authz_rejected_post_open'' (c_ID row) (c_JobName row)
                           (authz_msg (de_quote env) e))) d))
                 | Inr _ \<Rightarrow> dispatch_row env leaseUntil row i slots d)))"

definition drain_budget :: "string \<Rightarrow> dispatcher \<Rightarrow> budgets" where
  "drain_budget queue d =
     filter (\<lambda>(i, n). n > 0) (map (\<lambda>i. (i, availableSlots (dp_heap d i))) (dp_byQueue d queue))"

text \<open>Lines 316 to 359: snapshot the sessions of the queue and claim for them.\<close>

definition drain_claim :: "drain_env \<Rightarrow> string \<Rightarrow> dispatcher \<Rightarrow> (budgets \<times> ClaimedRow list \<times> instant) option \<times> dispatcher" where
  "drain_claim env queue d =
     (let slots = drain_budget queue d;
          jobNames = remdups (concat (map (\<lambda>(i, _). ss_jobNames (dp_heap d i)) slots));
          total = min (dc_BatchSize (dp_cfg d)) (sum_list (map snd slots));
          leaseUntil = de_now env + dc_HeartbeatBudget (dp_cfg d)
      in if slots = [] then (None, d)
         else case ClaimRows (de_claim_fails env) (de_locked env) (de_dbnow env) queue jobNames total (pod_claim d)
                     leaseUntil WorkerKindDispatched (dc_PodID (dp_cfg d)) (dp_pool d) of
             (Inl _, db) \<Rightarrow> (None, d\<lparr>dp_pool := db\<rparr>)
           | (Inr rows, db) \<Rightarrow> (Some (slots, rows, leaseUntil), d\<lparr>dp_pool := db\<rparr>))"

definition Dispatcher_drainOnce :: "drain_env \<Rightarrow> string \<Rightarrow> dispatcher \<Rightarrow> dispatcher" where
  "Dispatcher_drainOnce env queue d =
     (case drain_claim env queue d of
        (None, d1) \<Rightarrow> d1
      | (Some (slots, rows, leaseUntil), d1) \<Rightarrow>
          snd (foldl (\<lambda>st row. drain_row env queue leaseUntil row st) (slots, d1) rows))"

section \<open>dispatcher.go: envelopes from the worker\<close>

definition hb_row :: "dconfig \<Rightarrow> instant \<Rightarrow> session \<Rightarrow> inflightRow \<Rightarrow> inflightRow" where
  "hb_row cf now s row =
     row\<lparr>i_leaseUntil := now + leaseDurFor s (i_jobName row) (dc_HeartbeatBudget cf),
         i_ackBy := (if \<not> i_ackReceived row then now + dc_AckTimeoutMS cf * millisecond else i_ackBy row)\<rparr>"

definition hb_one :: "dconfig \<Rightarrow> instant \<Rightarrow> nat \<times> session \<Rightarrow> int \<Rightarrow> nat \<times> session" where
  "hb_one cf now = (\<lambda>(owned, s) jobID.
     (case map_of (ss_inflight s) jobID of
        None \<Rightarrow> (owned, s)
      | Some row \<Rightarrow>
          (Suc owned, enqueueLeaseBump jobID (s\<lparr>ss_inflight := AList.update jobID (hb_row cf now s row) (ss_inflight s)\<rparr>))))"

definition handleHeartbeat :: "instant \<Rightarrow> string \<Rightarrow> int list \<Rightarrow> dispatcher \<Rightarrow> dispatcher" where
  "handleHeartbeat now i jobIDs d =
     (if jobIDs = [] then d
      else let (owned, s) = foldl (hb_one (dp_cfg d) now) (0, dp_heap d i) (take MaxHeartbeatIDsPerFrame jobIDs)
           in if owned = 0 then d
              else on_session i (\<lambda>_. appendEvent (event now ''heartbeat_received'' 0 [] ''bumped_leases'') (noteHeartbeat now s)) d)"

definition handleCheckpoint :: "bool \<Rightarrow> instant \<Rightarrow> instant \<Rightarrow> string \<Rightarrow> Checkpoint \<Rightarrow> dispatcher \<Rightarrow> dispatcher" where
  "handleCheckpoint fails now dbnow i cp d =
     (if cp_JobID cp = 0 then d
      else let pct1 = (if cp_Pct cp < 0 then 0 else cp_Pct cp); pct = (if pct1 > 100 then 100 else pct1);
               msg = take MaxCheckpointMsgChars (cp_Msg cp); s = dp_heap d i
           in case map_of (ss_inflight s) (cp_JobID cp) of
                None \<Rightarrow> d
              | Some row \<Rightarrow>
                  (let s1 = s\<lparr>ss_inflight := AList.update (cp_JobID cp) (hb_row (dp_cfg d) now s row) (ss_inflight s)\<rparr>;
                       s2 = enqueueLeaseBump (cp_JobID cp) s1;
                       db = (if fails then dp_pool d
                             else (dp_pool d)\<lparr>jobs := update_where (\<lambda>j. j_id j = cp_JobID cp \<and> j_claimed_by j = Some (claimedBy s))
                                    (\<lambda>j. j\<lparr>j_progress := Some (pct, msg, dbnow)\<rparr>) (jobs (dp_pool d))\<rparr>)
                   in on_session i (\<lambda>_. appendEvent (event now ''checkpoint'' (cp_JobID cp) (i_jobName row) (dec_int pct @ ''%: '' @ msg))
                        (noteHeartbeat now s2)) (d\<lparr>dp_pool := db\<rparr>)))"

definition handleAck :: "instant \<Rightarrow> string \<Rightarrow> int \<Rightarrow> dispatcher \<Rightarrow> dispatcher" where
  "handleAck now i jobID d =
     (let ((ok, lat), s) = recordAck now jobID (dp_heap d i)
      in if \<not> ok then d else on_session i (\<lambda>_. appendEvent (event now ''acked'' jobID [] []) s) d)"

definition handleComplete :: "bool \<Rightarrow> instant \<Rightarrow> instant \<Rightarrow> string \<Rightarrow> int \<Rightarrow> dispatcher \<Rightarrow> dispatcher" where
  "handleComplete fails now dbnow i jobID d =
     (case removeInflight jobID (dp_heap d i) of
        (None, _) \<Rightarrow> d
      | (Some row, s) \<Rightarrow>
          (let d1 = untrackInflight jobID (on_session i (\<lambda>_. s) d);
               d2 = d1\<lparr>dp_pool := snd (MarkComplete fails dbnow jobID (dp_pool d1))\<rparr>
           in on_session i (\<lambda>s. appendEvent (event now ''completed'' jobID (i_jobName row) [])
                (s\<lparr>ss_cntCompleted := ss_cntCompleted s + 1\<rparr>)) d2))"

definition handleFail :: "bool \<Rightarrow> bool \<Rightarrow> instant \<Rightarrow> instant \<Rightarrow> string \<Rightarrow> Fail \<Rightarrow> dispatcher \<Rightarrow> dispatcher" where
  "handleFail lookup_fails fails now dbnow i f d =
     (case removeInflight (f_JobID f) (dp_heap d i) of
        (None, _) \<Rightarrow> d
      | (Some row, s) \<Rightarrow>
          (let d1 = untrackInflight (f_JobID f) (on_session i (\<lambda>_. s) d);
               (attempts, maxRetries) =
                 (case lookupAttempts lookup_fails (f_JobID f) (dp_pool d1) of Inl _ \<Rightarrow> (1, 0) | Inr am \<Rightarrow> am);
               note = (if \<not> f_Retry f then ''dlq'' else f_Error f);
               db = (if \<not> f_Retry f then snd (MoveToDLQ fails dbnow (f_JobID f) (f_Error f) (dp_pool d1))
                     else snd (ReportFailure fails dbnow (f_JobID f) attempts maxRetries (f_Error f) (dp_pool d1)))
           in on_session i (\<lambda>s. appendEvent (event now ''failed'' (f_JobID f) (i_jobName row) note)
                (s\<lparr>ss_cntFailed := ss_cntFailed s + 1\<rparr>)) (d1\<lparr>dp_pool := db\<rparr>)))"

section \<open>dispatcher.go: sweeps\<close>

text \<open>The failures of the statements a sweep makes for a row: the lookup and the release or report.\<close>

type_synonym sweep_fails = "int \<Rightarrow> bool \<times> bool"

definition revoke_ack :: "sweep_fails \<Rightarrow> instant \<Rightarrow> instant \<Rightarrow> string \<Rightarrow> dispatcher \<Rightarrow> int \<Rightarrow> dispatcher" where
  "revoke_ack fl now dbnow i d jobID =
     (case removeInflight jobID (dp_heap d i) of
        (None, _) \<Rightarrow> d
      | (Some row, s) \<Rightarrow>
          (let d1 = untrackInflight jobID (on_session i (\<lambda>_. snd (offer (Revoke jobID ''ack_timeout'') s)) d);
               d2 = releaseClaimed (snd (fl jobID)) dbnow jobID (claimedBy s) ''ack_timeout'' d1
           in on_session i (\<lambda>s. appendEvent (event now ''revoked'' jobID [] ''ack_timeout'')
                (s\<lparr>ss_cntRevoked := ss_cntRevoked s + 1\<rparr>)) d2))"

definition sweepAckTimeouts :: "sweep_fails \<Rightarrow> instant \<Rightarrow> instant \<Rightarrow> string \<Rightarrow> dispatcher \<Rightarrow> dispatcher" where
  "sweepAckTimeouts fl now dbnow queue d =
     foldl (\<lambda>d i. foldl (revoke_ack fl now dbnow i) d (findExpiredAcks now (dp_heap d i))) d (dp_byQueue d queue)"

definition revoke_lease :: "sweep_fails \<Rightarrow> instant \<Rightarrow> instant \<Rightarrow> string \<Rightarrow> dispatcher \<Rightarrow> int \<times> string \<Rightarrow> dispatcher" where
  "revoke_lease fl now dbnow i d = (\<lambda>(jobID, reason).
     (case removeInflight jobID (dp_heap d i) of
        (None, _) \<Rightarrow> d
      | (Some row, s) \<Rightarrow>
          (let d1 = untrackInflight jobID (on_session i (\<lambda>_. snd (offer (Revoke jobID reason) s)) d);
               d2 = (case lookupAttempts (fst (fl jobID)) jobID (dp_pool d1) of
                       Inl _ \<Rightarrow> releaseClaimed (snd (fl jobID)) dbnow jobID (claimedBy s) reason d1
                     | Inr (attempts, maxRetries) \<Rightarrow>
                         d1\<lparr>dp_pool := snd (ReportFailure (snd (fl jobID)) dbnow jobID attempts maxRetries reason (dp_pool d1))\<rparr>)
           in on_session i (\<lambda>s. appendEvent (event now ''revoked'' jobID (i_jobName row) reason)
                (s\<lparr>ss_cntRevoked := ss_cntRevoked s + 1\<rparr>)) d2)))"

definition sweepExpiredLeases :: "sweep_fails \<Rightarrow> instant \<Rightarrow> instant \<Rightarrow> string \<Rightarrow> dispatcher \<Rightarrow> dispatcher" where
  "sweepExpiredLeases fl now dbnow queue d =
     foldl (\<lambda>d i. foldl (revoke_lease fl now dbnow i) d
        (findExpiredLeases now (dc_LeaseExpiryGrace (dp_cfg d)) (dc_TimeoutBackstopGrace (dp_cfg d)) (dp_heap d i)))
      d (dp_byQueue d queue)"

definition reaperEveryTicks :: nat where "reaperEveryTicks = 30"
definition reaperBatchLimit :: int where "reaperBatchLimit = 256"

text \<open>One round of \<open>RunQueue\<close>'s loop, woken by the ticker or by a notification.\<close>

datatype wake = Tick | Notify

definition run_round :: "drain_env \<Rightarrow> sweep_fails \<Rightarrow> bool \<Rightarrow> string \<Rightarrow> wake \<Rightarrow> nat \<times> dispatcher \<Rightarrow> nat \<times> dispatcher" where
  "run_round env fl reap_fails queue w = (\<lambda>(tick, d).
     (case w of
        Notify \<Rightarrow> (tick, Dispatcher_drainOnce env queue d)
      | Tick \<Rightarrow>
          (let d1 = Dispatcher_drainOnce env queue d;
               d2 = sweepAckTimeouts fl (de_now env) (de_dbnow env) queue d1;
               d3 = sweepExpiredLeases fl (de_now env) (de_dbnow env) queue d2
           in (Suc tick,
               if Suc tick mod reaperEveryTicks = 0
               then d3\<lparr>dp_pool := snd (SweepExhaustedToDLQ reap_fails (de_locked env) (de_dbnow env) queue reaperBatchLimit (dp_pool d3))\<rparr>
               else d3))))"

text \<open>\<open>RunQueue\<close> until its context is cancelled: the seed drain, then the rounds.\<close>

definition RunQueue ::
  "drain_env \<Rightarrow> string \<Rightarrow> (wake \<times> drain_env \<times> sweep_fails \<times> bool) list \<Rightarrow> dispatcher \<Rightarrow> dispatcher" where
  "RunQueue env0 queue wakes d =
     snd (foldl (\<lambda>st (w, env, fl, rf). run_round env fl rf queue w st) (0, Dispatcher_drainOnce env0 queue d) wakes)"

end
