(* ===== verification/WorkerStream.thy ===== *)
theory WorkerStream
  imports Dispatcher
begin

text \<open>
  The life of a worker's stream: \<open>grpc.go\<close> (open, receive loop, sender), \<open>leaseproc.go\<close> (batched
  lease extension), \<open>shutdown.go\<close> and \<open>admin_api.go\<close>. What a goroutine meets at its \<open>select\<close> is a
  list of events; JSON and the gRPC transport are not modelled.
\<close>

section \<open>grpc.go\<close>

datatype open_err = FirstNotOpen | QueueRequired | JobNamesRequired | TooManyJobNames | IRUnavailable
  | OpenAuthz authz_err | AcceptNotSent

text \<open>What the injected loaders answer when a stream opens, and the id it gets.\<close>

record open_env =
  oe_caller :: string
  oe_aliases :: "string list"
  oe_ir :: "unit + ir_job list option"
  oe_uuid :: string
  oe_now :: instant
  oe_dbnow :: instant
  oe_send_fails :: bool

definition perJobHeartbeats :: "string list \<Rightarrow> ir_job list \<Rightarrow> (string \<times> duration) list" where
  "perJobHeartbeats names ir =
     foldl (\<lambda>m j. if ij_HeartbeatMS j \<le> 0 then m
                  else if \<not> list_ex (\<lambda>declared. declared = Job_ID j) names then m
                  else AList.update (Job_ID j) (ij_HeartbeatMS j * millisecond) m) [] ir"

definition WorkerSession_open :: "open_env \<Rightarrow> WorkerEnvelope \<Rightarrow> dispatcher \<Rightarrow> (open_err + DispatchEnvelope) \<times> dispatcher" where
  "WorkerSession_open oe env d =
     (case w_Open env of
        None \<Rightarrow> (Inl FirstNotOpen, d)
      | Some open \<Rightarrow>
          if o_Queue open = [] then (Inl QueueRequired, d)
          else if length (o_JobNames open) = 0 then (Inl JobNamesRequired, d)
          else if length (o_JobNames open) > MaxJobNamesPerOpen then (Inl TooManyJobNames, d)
          else case oe_ir oe of
            Inl _ \<Rightarrow> (Inl IRUnavailable, d)
          | Inr ir \<Rightarrow>
              (case CheckWorkerAuthz (oe_caller oe) (oe_aliases oe) (o_JobNames open) ir of
                 Inl e \<Rightarrow> (Inl (OpenAuthz e), d)
               | Inr _ \<Rightarrow>
                   (let s = newSession (oe_uuid oe) (oe_now oe) open (oe_caller oe) (oe_aliases oe)
                              (perJobHeartbeats (o_JobNames open) (case ir of None \<Rightarrow> [] | Some js \<Rightarrow> js));
                        d1 = register (oe_uuid oe) (on_session (oe_uuid oe) (\<lambda>_. s) d);
                        leaseTTL = dc_HeartbeatBudget (dp_cfg d) div millisecond
                    in if oe_send_fails oe
                       then (Inl AcceptNotSent, unregister (\<lambda>_. False) (oe_now oe) (oe_dbnow oe) (oe_uuid oe) ''stream_closed'' d1)
                       else (Inr (SessionAccepted (oe_uuid oe) leaseTTL (leaseTTL div 3)),
                             on_session (oe_uuid oe) (appendEvent (event (oe_now oe) ''session_opened'' 0 [] (oe_caller oe))) d1))))"

record recv_env =
  rv_now :: instant
  rv_dbnow :: instant
  rv_lookup_fails :: bool
  rv_fails :: bool

datatype recv_err = RepeatedViolations | RecvFailed

text \<open>One envelope: the cases of the \<open>switch\<close> in their order; the first variant that is set wins.\<close>

definition recv_step :: "recv_env \<Rightarrow> string \<Rightarrow> WorkerEnvelope \<Rightarrow> nat \<Rightarrow> dispatcher \<Rightarrow> (recv_err + nat) \<times> dispatcher" where
  "recv_step rv i env violationCount d =
     (case w_Heartbeat env of Some ids \<Rightarrow> (Inr violationCount, handleHeartbeat (rv_now rv) i ids d) | None \<Rightarrow>
     (case w_Checkpoint env of Some cp \<Rightarrow> (Inr violationCount, handleCheckpoint (rv_fails rv) (rv_now rv) (rv_dbnow rv) i cp d) | None \<Rightarrow>
     (case w_Ack env of Some jobID \<Rightarrow> (Inr violationCount, handleAck (rv_now rv) i jobID d) | None \<Rightarrow>
     (case w_Complete env of Some jobID \<Rightarrow> (Inr violationCount, handleComplete (rv_fails rv) (rv_now rv) (rv_dbnow rv) i jobID d) | None \<Rightarrow>
     (case w_Fail env of Some f \<Rightarrow>
        (Inr violationCount, handleFail (rv_lookup_fails rv) (rv_fails rv) (rv_now rv) (rv_dbnow rv) i f d) | None \<Rightarrow>
     (if Suc violationCount \<ge> 3 then (Inl RepeatedViolations, d)
      else (Inr (Suc violationCount),
            on_session i (appendEvent (event (rv_now rv) ''protocol_violation'' 0 []
              (case w_Open env of Some _ \<Rightarrow> ''duplicate_open'' | None \<Rightarrow> ''empty_envelope''))) d)))))))"

text \<open>What \<open>recvEnvelope\<close> yields: an envelope, or the end of the stream (clean or not).\<close>

datatype recv = Received recv_env WorkerEnvelope | Ended bool

fun recv_loop :: "string \<Rightarrow> nat \<Rightarrow> recv list \<Rightarrow> dispatcher \<Rightarrow> (recv_err + unit) option \<times> dispatcher" where
  "recv_loop i v [] d = (None, d)"
| "recv_loop i v (Ended clean # xs) d = (Some (if clean then Inr () else Inl RecvFailed), d)"
| "recv_loop i v (Received rv env # xs) d =
     (case recv_step rv i env v d of
        (Inl e, d1) \<Rightarrow> (Some (Inl e), d1)
      | (Inr v1, d1) \<Rightarrow> recv_loop i v1 xs d1)"

text \<open>The whole handler; the deferred \<open>unregister\<close> runs when the loop returned.\<close>

definition WorkerSession ::
  "open_env \<Rightarrow> WorkerEnvelope \<Rightarrow> recv list \<Rightarrow> (int \<Rightarrow> bool) \<Rightarrow> instant \<Rightarrow> instant \<Rightarrow> dispatcher
     \<Rightarrow> (open_err + (recv_err + unit) option) \<times> dispatcher" where
  "WorkerSession oe env xs fails now dbnow d =
     (case WorkerSession_open oe env d of
        (Inl e, d1) \<Rightarrow> (Inl e, d1)
      | (Inr _, d1) \<Rightarrow>
          (case recv_loop (oe_uuid oe) 0 xs d1 of
             (None, d2) \<Rightarrow> (Inr None, d2)
           | (Some r, d2) \<Rightarrow> (Inr (Some r), unregister fails now dbnow (oe_uuid oe) ''stream_closed'' d2)))"

text \<open>The sender's \<open>select\<close>: the context ends, the close signal is seen, or one envelope is sent.\<close>

datatype sender_event = CtxDone | CloseSignal | SendOne bool

fun runSender :: "sender_event list \<Rightarrow> session \<Rightarrow> DispatchEnvelope list \<times> session" where
  "runSender [] s = ([], s)"
| "runSender (CtxDone # xs) s = ([], s)"
| "runSender (CloseSignal # xs) s = (if ss_closed s then ([], s) else runSender xs s)"
| "runSender (SendOne ok # xs) s =
     (case ss_outbox s of
        [] \<Rightarrow> runSender xs s
      | env # rest \<Rightarrow>
          if ok then let (sent, s1) = runSender xs (s\<lparr>ss_outbox := rest\<rparr>) in (env # sent, s1)
          else ([], session_close (s\<lparr>ss_outbox := rest\<rparr>)))"

section \<open>leaseproc.go\<close>

definition lease_groups :: "dconfig \<Rightarrow> session \<Rightarrow> int list \<Rightarrow> (duration \<times> int list) list" where
  "lease_groups cf s batch =
     foldl (\<lambda>g jobID.
       (case map_of (ss_inflight s) jobID of
          None \<Rightarrow> g
        | Some row \<Rightarrow>
            (let dur = leaseDurFor s (i_jobName row) (dc_HeartbeatBudget cf)
             in AList.update dur ((case map_of g dur of None \<Rightarrow> [] | Some ids \<Rightarrow> ids) @ [jobID]) g))) [] batch"

definition lease_flush :: "(duration \<Rightarrow> bool) \<Rightarrow> instant \<Rightarrow> dconfig \<Rightarrow> session \<Rightarrow> int list \<Rightarrow> jobs_db \<Rightarrow> jobs_db" where
  "lease_flush fails dbnow cf s batch db =
     foldl (\<lambda>db (dur, ids). snd (ExtendLease (fails dur) dbnow ids (claimedBy s) dur db)) db (lease_groups cf s batch)"

datatype lease_event = LeaseCtxDone | LeaseRecv | LeaseTick

fun runLeaseProcessor ::
  "(duration \<Rightarrow> bool) \<Rightarrow> dconfig \<Rightarrow> (lease_event \<times> instant) list \<Rightarrow> int list \<Rightarrow> session \<Rightarrow> jobs_db \<Rightarrow> int list \<times> session \<times> jobs_db" where
  "runLeaseProcessor fails cf [] batch s db = (batch, s, db)"
| "runLeaseProcessor fails cf ((LeaseCtxDone, dbnow) # xs) batch s db =
     ([], s\<lparr>ss_leasePending := []\<rparr>, lease_flush fails dbnow cf s (batch @ ss_leasePending s) db)"
| "runLeaseProcessor fails cf ((LeaseRecv, dbnow) # xs) batch s db =
     runLeaseProcessor fails cf xs (batch @ ss_leasePending s) (s\<lparr>ss_leasePending := []\<rparr>) db"
| "runLeaseProcessor fails cf ((LeaseTick, dbnow) # xs) batch s db =
     runLeaseProcessor fails cf xs [] s (lease_flush fails dbnow cf s batch db)"

section \<open>shutdown.go\<close>

definition shutdown_begin :: "instant \<Rightarrow> string list \<Rightarrow> dispatcher \<Rightarrow> dispatcher" where
  "shutdown_begin now ids d =
     foldl (\<lambda>d i. on_session i (\<lambda>s. appendEvent (event now ''drained_started'' 0 [] ''server_shutdown'')
        (snd (offer (Goodbye ''server_shutdown'') (markDrained s)))) d) d ids"

definition force_row :: "(int \<Rightarrow> bool) \<Rightarrow> instant \<Rightarrow> string \<Rightarrow> int \<times> dispatcher \<Rightarrow> inflightRow \<Rightarrow> int \<times> dispatcher" where
  "force_row fails dbnow i = (\<lambda>(released, d) row.
     (let d1 = on_session i (\<lambda>s. snd (offer (Revoke (i_jobID row) ''shutdown_budget_exceeded'') s)) d
      in case ReleaseRow (fails (i_jobID row)) dbnow (i_jobID row) (claimedBy (dp_heap d i)) ''shutdown_budget_exceeded'' (dp_pool d1) of
           (Inl _, db) \<Rightarrow> (released, d1\<lparr>dp_pool := db\<rparr>)
         | (Inr _, db) \<Rightarrow> (released + 1, d1\<lparr>dp_pool := db\<rparr>)))"

definition forceReleaseAll :: "(int \<Rightarrow> bool) \<Rightarrow> instant \<Rightarrow> string list \<Rightarrow> dispatcher \<Rightarrow> int \<times> dispatcher" where
  "forceReleaseAll fails dbnow ids d =
     foldl (\<lambda>(released, d) i.
       (let (r1, d1) = foldl (force_row fails dbnow i) (released, d) (snapshotInflight (dp_heap d i))
        in (r1, on_session i session_close d1))) (0, d) ids"

text \<open>
  A poll of the shutdown loop: the time it reads, whether its \<open>select\<close> then takes the cancelled
  context, and what the handlers still running do until the next tick.
\<close>

fun shutdown_loop ::
  "(int \<Rightarrow> bool) \<Rightarrow> instant \<Rightarrow> instant \<Rightarrow> string list \<Rightarrow> (instant \<times> bool \<times> (dispatcher \<Rightarrow> dispatcher)) list \<Rightarrow> dispatcher
     \<Rightarrow> int option \<times> dispatcher" where
  "shutdown_loop fails dbnow deadline ids [] d = (None, d)"
| "shutdown_loop fails dbnow deadline ids ((now, cancelled, meanwhile) # polls) d =
     (if sum_list (map (\<lambda>i. inflightCount (dp_heap d i)) ids) = 0 then (Some 0, d)
      else if now > deadline \<or> cancelled then let (released, d1) = forceReleaseAll fails dbnow ids d in (Some released, d1)
      else shutdown_loop fails dbnow deadline ids polls (meanwhile d))"

definition Shutdown ::
  "(int \<Rightarrow> bool) \<Rightarrow> instant \<Rightarrow> instant \<Rightarrow> (instant \<times> bool \<times> (dispatcher \<Rightarrow> dispatcher)) list \<Rightarrow> dispatcher \<Rightarrow> int option \<times> dispatcher" where
  "Shutdown fails now dbnow polls d =
     shutdown_loop fails dbnow (now + dc_ShutdownBudget (dp_cfg d)) (dp_sessions d) polls (shutdown_begin now (dp_sessions d) d)"

section \<open>admin_api.go\<close>

record SessionSnapshot =
  sn_SessionID :: string
  sn_Caller :: string
  sn_Queue :: string
  sn_PodID :: string
  sn_SDKVersion :: string
  sn_ConnectedAt :: instant
  sn_LastHeartbeatAt :: instant
  sn_MaxInFlight :: int
  sn_InflightCount :: int
  sn_Dispatched :: int
  sn_Completed :: int
  sn_Failed :: int
  sn_Revoked :: int
  sn_Drained :: bool

record InflightDetail =
  id_JobID :: int
  id_JobName :: string
  id_DispatchedAt :: instant
  id_AckReceived :: bool

record SessionDetail =
  sd_Snapshot :: SessionSnapshot
  sd_JobNames :: "string list"
  sd_Inflight :: "InflightDetail list"
  sd_Events :: "sessionEvent list"

definition sessionToSnapshot :: "session \<Rightarrow> SessionSnapshot" where
  "sessionToSnapshot s =
     \<lparr>sn_SessionID = ss_id s, sn_Caller = ss_caller s, sn_Queue = ss_queue s, sn_PodID = ss_podID s,
      sn_SDKVersion = ss_version s, sn_ConnectedAt = ss_connectedAt s, sn_LastHeartbeatAt = lastHeartbeatAt s,
      sn_MaxInFlight = ss_maxInFlight s, sn_InflightCount = inflightCount s, sn_Dispatched = ss_cntDispatched s,
      sn_Completed = ss_cntCompleted s, sn_Failed = ss_cntFailed s, sn_Revoked = ss_cntRevoked s, sn_Drained = ss_drained s\<rparr>"

text \<open>The inner loop shifts larger elements one place to the right, from place \<open>n - 1\<close> down.\<close>

fun shift_right :: "SessionSnapshot \<Rightarrow> SessionSnapshot list \<Rightarrow> nat \<Rightarrow> SessionSnapshot list" where
  "shift_right x xs 0 = xs[0 := x]"
| "shift_right x xs (Suc j) =
     (if sn_SessionID (xs ! j) > sn_SessionID x then shift_right x (xs[Suc j := xs ! j]) j else xs[Suc j := x])"

definition sortSnapshots :: "SessionSnapshot list \<Rightarrow> SessionSnapshot list" where
  "sortSnapshots xs = foldl (\<lambda>xs i. shift_right (xs ! i) xs i) xs [1..<length xs]"

definition SnapshotSessions :: "dispatcher \<Rightarrow> SessionSnapshot list" where
  "SnapshotSessions d = sortSnapshots (map (\<lambda>i. sessionToSnapshot (dp_heap d i)) (dp_sessions d))"

definition GetSession :: "string \<Rightarrow> dispatcher \<Rightarrow> SessionDetail option" where
  "GetSession sessionID d =
     (if sessionID \<notin> set (dp_sessions d) then None
      else let s = dp_heap d sessionID
           in Some \<lparr>sd_Snapshot = sessionToSnapshot s, sd_JobNames = jobNamesSlice s,
                    sd_Inflight = map (\<lambda>row. \<lparr>id_JobID = i_jobID row, id_JobName = i_jobName row,
                       id_DispatchedAt = i_dispatchedAt row, id_AckReceived = i_ackReceived row\<rparr>) (snapshotInflight s),
                    sd_Events = snapshotEvents s\<rparr>)"

definition DrainSession :: "instant \<Rightarrow> string \<Rightarrow> dispatcher \<Rightarrow> (unit + unit) \<times> dispatcher" where
  "DrainSession now sessionID d =
     (if sessionID \<notin> set (dp_sessions d) then (Inl (), d)
      else (Inr (), on_session sessionID (\<lambda>s. appendEvent (event now ''drain_requested'' 0 [] ''operator'') (markDrained s)) d))"

text \<open>The watcher \<open>DrainSession\<close> starts: its polls, each with the time and what happens until the next tick.\<close>

fun awaitDrainAndClose :: "instant \<Rightarrow> string \<Rightarrow> (instant \<times> (dispatcher \<Rightarrow> dispatcher)) list \<Rightarrow> dispatcher \<Rightarrow> bool \<times> dispatcher" where
  "awaitDrainAndClose deadline i [] d = (False, d)"
| "awaitDrainAndClose deadline i ((now, meanwhile) # polls) d =
     (if inflightCount (dp_heap d i) = 0 \<or> now > deadline
      then (True, on_session i (\<lambda>s. session_close (snd (offer (Goodbye ''drained'') s))) d)
      else if ss_closed (dp_heap d i) then (True, d)
      else awaitDrainAndClose deadline i polls (meanwhile d))"

definition EvictSession :: "(int \<Rightarrow> bool) \<Rightarrow> instant \<Rightarrow> instant \<Rightarrow> string \<Rightarrow> dispatcher \<Rightarrow> (unit + unit) \<times> dispatcher" where
  "EvictSession fails now dbnow sessionID d =
     (if sessionID \<notin> set (dp_sessions d) then (Inl (), d)
      else let s0 = snd (offer (Goodbye ''evicted'') (markDrained (dp_heap d sessionID)));
               s1 = foldl (\<lambda>s row. snd (offer (Revoke (i_jobID row) ''evicted'') s)) s0 (snapshotInflight s0);
               s2 = session_close (appendEvent (event now ''evicted'' 0 [] ''operator'') s1);
               d1 = on_session sessionID (\<lambda>_. s2) d
           in (Inr (), foldl (\<lambda>d row. releaseClaimed (fails (i_jobID row)) dbnow (i_jobID row) (claimedBy s2) ''evicted'' d)
                         d1 (snapshotInflight s2)))"

end
