(* ===== verification/DispatchRun.thy ===== *)
theory DispatchRun
  imports WorkerStream
begin

text \<open>
  The dispatcher as a concurrent program: drains of several queues, streams, sweeps, operators and
  other claimants of the queue interleave row by row. The theory gives the step relation, its
  invariant, and what a drain, a disconnect, a lease flush and a shutdown achieve.
\<close>

section \<open>Operations that start no row\<close>

definition calm :: "dispatcher \<Rightarrow> dispatcher \<Rightarrow> bool" where
  "calm d d' \<longleftrightarrow> dp_cfg d' = dp_cfg d \<and> dp_sessions d' = dp_sessions d \<and> dp_byQueue d' = dp_byQueue d
     \<and> (\<forall>i. quiet (dp_heap d i) (dp_heap d' i))"

lemma calm_refl [quiet_intros]: "calm d d"
  by (simp add: calm_def quiet_refl)

lemma calm_trans [trans]: "calm d d' \<Longrightarrow> calm d' d'' \<Longrightarrow> calm d d''"
  by (auto simp: calm_def intro: quiet_trans)

lemma calm_on_session [quiet_intros]:
  "calm d d' \<Longrightarrow> quiet (dp_heap d' i) (f (dp_heap d' i)) \<Longrightarrow> calm d (on_session i f d')"
  by (auto simp: calm_def on_session_def intro: quiet_trans quiet_refl)

lemma calm_pool [quiet_intros]: "calm d d' \<Longrightarrow> calm d (d'\<lparr>dp_pool := db\<rparr>)"
  by (simp add: calm_def)

lemma calm_owner [quiet_intros]: "calm d d' \<Longrightarrow> calm d (d'\<lparr>dp_owner := m\<rparr>)"
  by (simp add: calm_def)

lemma calm_track [quiet_intros]:
  "calm d d' \<Longrightarrow> calm d (untrackInflight j d')" "calm d d' \<Longrightarrow> calm d (trackInflight j i d')"
  by (simp_all add: calm_def untrackInflight_def trackInflight_def)

lemma calm_release [quiet_intros]: "calm d d' \<Longrightarrow> calm d (releaseClaimed f now j who reason d')"
  by (simp add: calm_def releaseClaimed_def)

lemma calm_foldl:
  assumes "\<And>d x. calm d (f d x)"
  shows "calm d (foldl f d xs)"
  using assms by (induction xs arbitrary: d) (auto intro: calm_refl calm_trans)

lemma calm_foldl_snd:
  assumes "\<And>st x. calm (snd st) (snd (f st x))"
  shows "calm (snd st) (snd (foldl f st xs))"
proof (induction xs arbitrary: st)
  case (Cons x xs)
  from calm_trans [OF assms Cons] show ?case by simp
qed (simp add: calm_refl)

lemma quiet_foldl:
  assumes "\<And>s x. quiet s (f s x)"
  shows "quiet s (foldl f s xs)"
  using assms by (induction xs arbitrary: s) (auto intro: quiet_refl quiet_trans)

lemma hb_row_id [simp]: "i_jobID (hb_row cf now s row) = i_jobID row"
  by (simp add: hb_row_def)

lemma hb_one_quiet: "quiet (snd st) (snd (hb_one cf now st j))"
  by (cases st) (auto simp: hb_one_def intro!: enqueue_quiet quiet_refl touch_quiet split: option.split)

lemma hb_fold_quiet: "quiet s (snd (foldl (hb_one cf now) (n, s) ids))"
proof (induction ids arbitrary: n s)
  case (Cons j ids)
  obtain n' s' where st: "hb_one cf now (n, s) j = (n', s')" by fastforce
  with hb_one_quiet [of "(n, s)" cf now j] have "quiet s s'" by simp
  with Cons [of s' n'] st show ?case by (auto intro: quiet_trans)
qed (simp add: quiet_refl)

lemma handleHeartbeat_calm: "calm d (handleHeartbeat now i ids d)"
proof -
  obtain n s where st: "foldl (hb_one (dp_cfg d) now) (0, dp_heap d i) (take MaxHeartbeatIDsPerFrame ids) = (n, s)" by fastforce
  have "quiet (dp_heap d i) s"
    using hb_fold_quiet [of "dp_heap d i" "dp_cfg d" now 0 "take MaxHeartbeatIDsPerFrame ids"] st by simp
  with st show ?thesis by (auto simp: handleHeartbeat_def intro!: quiet_intros)
qed

lemma handleCheckpoint_calm: "calm d (handleCheckpoint f now dbnow i cp d)"
  by (auto simp: handleCheckpoint_def Let_def intro!: quiet_intros touch_quiet split: option.split)

lemma handleAck_calm: "calm d (handleAck now i j d)"
  using recordAck_quiet [OF quiet_refl, of "dp_heap d i" now j]
  by (auto simp: handleAck_def intro!: quiet_intros split: prod.split)

lemma removeInflight_cases:
  obtains "removeInflight j s = (None, s)" "map_of (ss_inflight s) j = None"
  | row t where "removeInflight j s = (Some row, t)" "quiet s t" "map_of (ss_inflight s) j = Some row"
  using removeInflight_quiet [OF quiet_refl, of s j] by (cases "map_of (ss_inflight s) j") (auto simp: removeInflight_def)

lemma handleComplete_calm: "calm d (handleComplete f now dbnow i j d)"
  by (rule removeInflight_cases [of j "dp_heap d i"])
     (auto simp: handleComplete_def Let_def intro!: quiet_intros)

lemma handleFail_calm: "calm d (handleFail lf f now dbnow i fl d)"
  by (rule removeInflight_cases [of "f_JobID fl" "dp_heap d i"])
     (auto simp: handleFail_def Let_def intro!: quiet_intros split: prod.split)

lemma revoke_ack_calm: "calm d (revoke_ack fl now dbnow i d j)"
  by (rule removeInflight_cases [of j "dp_heap d i"])
     (auto simp: revoke_ack_def Let_def intro!: quiet_intros)

lemma revoke_lease_calm: "calm d (revoke_lease fl now dbnow i d x)"
  by (cases x, rule removeInflight_cases [of "fst x" "dp_heap d i"])
     (auto simp: revoke_lease_def Let_def intro!: quiet_intros split: sum.split)

lemma sweeps_calm:
  "calm d (sweepAckTimeouts fl now dbnow q d)" "calm d (sweepExpiredLeases fl now dbnow q d)"
  by (auto simp: sweepAckTimeouts_def sweepExpiredLeases_def intro!: calm_foldl revoke_ack_calm revoke_lease_calm)

lemma recv_step_calm: "calm d (snd (recv_step rv i env v d))"
  by (auto simp: recv_step_def intro!: quiet_intros handleHeartbeat_calm handleCheckpoint_calm handleAck_calm
      handleComplete_calm handleFail_calm split: option.split)

lemma runSender_quiet: "quiet s (snd (runSender xs s))"
proof (induction xs s rule: runSender.induct)
  case (4 ok xs s)
  have pop: "quiet s (s\<lparr>ss_outbox := rest\<rparr>)" if "ss_outbox s = e # rest" for e rest
    using that by (auto simp: quiet_def session_ok_def same_worker_def)
  show ?case
  proof (cases "ss_outbox s")
    case (Cons e rest)
    show ?thesis
    proof (cases ok)
      case True
      from "4.IH"(2) [OF Cons True] pop [OF Cons] Cons True show ?thesis by (auto intro: quiet_trans split: prod.split)
    next
      case False
      with Cons pop [OF Cons] show ?thesis by (auto intro: close_quiet)
    qed
  qed (use "4.IH"(1) in simp)
qed (auto intro: quiet_refl)

lemma runLeaseProcessor_quiet: "quiet s (fst (snd (runLeaseProcessor f cf xs b s db)))"
proof (induction f cf xs b s db rule: runLeaseProcessor.induct)
  case (3 f cf dbnow xs b s db)
  have "quiet s (s\<lparr>ss_leasePending := []\<rparr>)" by (auto simp: quiet_def session_ok_def same_worker_def)
  with 3 show ?case by (auto intro: quiet_trans)
qed (auto simp: quiet_def session_ok_def same_worker_def)

lemma shutdown_begin_calm: "calm d (shutdown_begin now ids d)"
  unfolding shutdown_begin_def by (intro calm_foldl quiet_intros)

lemma force_row_calm: "calm (snd st) (snd (force_row f dbnow i st row))"
  by (cases st) (auto simp: force_row_def Let_def intro!: quiet_intros split: prod.split sum.split)

lemma force_rows_calm: "calm (snd st) (snd (foldl (force_row f dbnow i) st rows))"
  by (rule calm_foldl_snd) (rule force_row_calm)

lemma forceReleaseAll_calm: "calm d (snd (forceReleaseAll f dbnow ids d))"
proof -
  let ?g = "\<lambda>(released, d) i. (let (r1, d1) = foldl (force_row f dbnow i) (released, d) (snapshotInflight (dp_heap d i))
        in (r1, on_session i session_close d1))"
  have step: "calm (snd st) (snd (?g st i))" for st i
    using force_rows_calm [of st f dbnow i "snapshotInflight (dp_heap (snd st) i)"]
    by (cases st) (auto simp: Let_def intro!: quiet_intros split: prod.split)
  from calm_foldl_snd [of ?g "(0, d)" ids, OF step] show ?thesis by (simp add: forceReleaseAll_def)
qed

lemma EvictSession_calm: "calm d (snd (EvictSession f now dbnow i d))"
  by (auto simp: EvictSession_def Let_def intro!: calm_trans [OF _ calm_foldl] quiet_intros quiet_trans [OF _ quiet_foldl])

lemma DrainSession_calm: "calm d (snd (DrainSession now i d))"
  by (auto simp: DrainSession_def intro!: quiet_intros)

section \<open>One row of a drain\<close>

text \<open>Go's \<open>range\<close> over a map visits each key once.\<close>

definition fair_order :: "(string list \<Rightarrow> string list) \<Rightarrow> bool" where
  "fair_order ord \<longleftrightarrow> (\<forall>xs. mset (ord xs) = mset xs)"

lemma mod_index:
  assumes "0 < n" and "n < 2 ^ 32"
  shows "unat ((c :: 32 word) mod of_nat n) < n"
proof -
  have u: "unat (of_nat n :: 32 word) = n" using assms by (simp add: unsigned_of_nat take_bit_nat_eq_self)
  have "unat (c mod of_nat n) = unat c mod n" by (simp add: unat_mod_distrib u)
  with assms(1) show ?thesis by simp
qed

text \<open>\<open>pickSession\<close> gives a session of the budget that handles the job, if there is one.\<close>

lemma pickSession_spec:
  assumes "pickSession ord q name b d = (pick, d')" and "fair_order ord" and "length b < 2 ^ 32"
  shows "(\<exists>c. d' = d\<lparr>dp_cursor := c\<rparr>)
    \<and> (case pick of None \<Rightarrow> \<forall>(i, n)\<in>set b. \<not> (n > 0 \<and> handlesJob (dp_heap d i) name)
       | Some i \<Rightarrow> \<exists>n. (i, n) \<in> set b \<and> n > 0 \<and> handlesJob (dp_heap d i) name)"
proof -
  define e where "e = map fst (filter (\<lambda>(i, n). n > 0 \<and> handlesJob (dp_heap d i) name) b)"
  have m: "mset (ord e) = mset e" using assms(2) by (simp add: fair_order_def)
  then have set: "set (ord e) = set e" and len: "length (ord e) = length e" by (metis mset_eq_setD, metis size_mset)
  have "length e \<le> length b" by (simp add: e_def)
  with assms(3) have small: "length (ord e) < 2 ^ 32" unfolding len by linarith
  have mem: "ord e ! k \<in> set e" if "k < length (ord e)" for k using nth_mem [OF that] set by simp
  have D: "pickSession ord q name b d =
     (if ord e = [] then (None, d) else if length (ord e) = 1 then (Some (ord e ! 0), d)
      else (Some (ord e ! unat (dp_cursor d (q, name) mod of_nat (length (ord e)))),
            d\<lparr>dp_cursor := (dp_cursor d)((q, name) := dp_cursor d (q, name) + 1)\<rparr>))"
    by (simp add: pickSession_def e_def Let_def)
  have inE: "\<exists>n. (i, n) \<in> set b \<and> n > 0 \<and> handlesJob (dp_heap d i) name" if "i \<in> set e" for i
    using that by (auto simp: e_def)
  have same: "\<exists>c. d = d\<lparr>dp_cursor := c\<rparr>" by (rule exI [of _ "dp_cursor d"]) simp
  consider "ord e = []" | "ord e \<noteq> []" "length (ord e) = 1" | "ord e \<noteq> []" "length (ord e) \<noteq> 1" by blast
  then show ?thesis
  proof cases
    case 1
    with set have "e = []" by simp
    then have "\<forall>(i, n)\<in>set b. \<not> (n > 0 \<and> handlesJob (dp_heap d i) name)" by (auto simp: e_def filter_empty_conv)
    with 1 D assms(1) same show ?thesis by auto
  next
    case 2
    with D assms(1) have r: "pick = Some (ord e ! 0)" "d' = d" by auto
    from inE [OF mem [of 0]] 2 r same show ?thesis by auto
  next
    case 3
    have lt: "unat (dp_cursor d (q, name) mod of_nat (length (ord e))) < length (ord e)"
      using 3 small by (intro mod_index) auto
    from inE [OF mem [OF lt]] 3 D assms(1) show ?thesis by auto
  qed
qed

text \<open>What a row of a drain does to the sessions: nothing that counts, or one slot is used.\<close>

definition slot_used :: "string \<Rightarrow> budgets \<Rightarrow> budgets \<Rightarrow> dispatcher \<Rightarrow> dispatcher \<Rightarrow> bool" where
  "slot_used i b b' d d' \<longleftrightarrow> b' = budget_spend i b \<and> (\<forall>k. k \<noteq> i \<longrightarrow> dp_heap d' k = dp_heap d k)
     \<and> same_worker (dp_heap d i) (dp_heap d' i)
     \<and> (session_ok (dp_heap d i) \<longrightarrow> session_ok (dp_heap d' i)
         \<and> ss_inflightCounter (dp_heap d' i) \<le> ss_inflightCounter (dp_heap d i) + 1)
     \<and> dp_cfg d' = dp_cfg d \<and> dp_sessions d' = dp_sessions d \<and> dp_byQueue d' = dp_byQueue d"

lemma row_lease_frame:
  "row_lease re l s row d = (l', d') \<Longrightarrow> \<exists>db. d' = d\<lparr>dp_pool := db\<rparr>"
proof -
  have same: "\<exists>db. d = d\<lparr>dp_pool := db\<rparr>" by (rule exI [of _ "dp_pool d"]) simp
  show "row_lease re l s row d = (l', d') \<Longrightarrow> ?thesis"
    using same by (auto simp: row_lease_def split: option.splits if_splits prod.splits sum.splits)
qed

lemma recordDispatch_quiet:
  assumes "recordDispatch now x l a s = (False, t)"
  shows "quiet s t"
  using recordDispatch_worker [of s now x l a] recordDispatch_ok [of s now x l a] assms by (simp add: quiet_def)

lemma dispatch_row_slots:
  assumes "dispatch_row env l row i b d = (b', d')"
  shows "(b' = b \<and> calm d d') \<or> slot_used i b b' d d'"
proof -
  let ?re = "de_row env (c_ID row)" and ?s = "dp_heap d i"
  obtain db where db: "bindClaimToSession False (c_ID row) ?s (dp_pool d) = (Inr (), db)" by (simp add: bindClaimToSession_def)
  obtain l' d1 where rl: "row_lease ?re l ?s row (d\<lparr>dp_pool := db\<rparr>) = (l', d1)" by fastforce
  then obtain db1 where d1: "d1 = d\<lparr>dp_pool := db1\<rparr>" using row_lease_frame by fastforce
  let ?a = "re_now ?re + dc_AckTimeoutMS (dp_cfg d) * millisecond" and ?x = "buildDispatch (de_fmt env) row"
  obtain ok t where rd: "recordDispatch (re_now ?re) ?x l' ?a ?s = (ok, t)" by fastforce
  show ?thesis
  proof (cases "re_bind_fails ?re")
    case True
    with assms show ?thesis by (auto simp: dispatch_row_def bindClaimToSession_def Let_def intro!: quiet_intros)
  next
    case bind: False
    show ?thesis
    proof (cases ok)
      case True
      from recordDispatch_worker [of ?s "re_now ?re" ?x l' ?a] recordDispatch_ok [of ?s "re_now ?re" ?x l' ?a] rd
      have t: "same_worker ?s t" "session_ok ?s \<longrightarrow> session_ok t \<and> ss_inflightCounter t \<le> ss_inflightCounter ?s + 1" by auto
      then have "slot_used i b b' d d'"
        using assms bind db rl rd True d1
        by (auto simp: dispatch_row_def Let_def slot_used_def on_session_def trackInflight_def same_worker_def session_ok_def)
      then show ?thesis ..
    next
      case False
      then have q: "quiet ?s t" using recordDispatch_quiet [of "re_now ?re" ?x l' ?a ?s t] rd by simp
      have "b' = b \<and> d' = releaseClaimed (re_release_fails ?re) (re_dbnow ?re) (c_ID row) (claimedBy ?s) ''outbox_full''
          (on_session i (\<lambda>_. session_close (t\<lparr>ss_cntRevoked := ss_cntRevoked t + 1\<rparr>)) (d\<lparr>dp_pool := db1\<rparr>))"
        using assms bind db rl rd False d1 by (auto simp: dispatch_row_def Let_def)
      with q show ?thesis by (auto intro!: quiet_intros)
    qed
  qed
qed

lemma drain_row_slots:
  assumes "drain_row env q l row (b, d) = (b', d')" and "fair_order (de_ord env)" and "length b < 2 ^ 32"
  shows "(b' = b \<and> calm d d') \<or> (\<exists>i n. (i, n) \<in> set b \<and> n > 0 \<and> slot_used i b b' d d')"
proof -
  let ?re = "de_row env (c_ID row)"
  obtain pick d1 where p: "pickSession (de_ord env) q (c_JobName row) b d = (pick, d1)" by fastforce
  from pickSession_spec [OF p assms(2,3)] obtain c where d1: "d1 = d\<lparr>dp_cursor := c\<rparr>"
    and pk: "case pick of None \<Rightarrow> True | Some i \<Rightarrow> \<exists>n. (i, n) \<in> set b \<and> n > 0" by (auto split: option.splits)
  have c1: "calm d d1" unfolding d1 by (simp add: calm_def quiet_refl)
  show ?thesis
  proof (cases pick)
    case None
    with assms(1) p c1 show ?thesis by (auto simp: drain_row_def Let_def intro!: quiet_intros)
  next
    case (Some i)
    then obtain n where n: "(i, n) \<in> set b" "n > 0" using pk by auto
    let ?s = "dp_heap d1 i"
    let ?auth = "if re_ir ?re = None then Inr () else CheckSingleAuthz (ss_caller ?s) (ss_aliases ?s) (c_JobName row) (re_ir ?re)"
    show ?thesis
    proof (cases ?auth)
      case (Inl e)
      have "b' = b \<and> d' = releaseClaimed (re_release_fails ?re) (re_dbnow ?re) (c_ID row) (claimedBy ?s) ''authz_rejected''
         (on_session i (appendEvent (event (re_now ?re) ''authz_rejected_post_open'' (c_ID row) (c_JobName row)
            (authz_msg (de_quote env) e))) d1)"
        using assms(1) p Some Inl by (simp add: drain_row_def Let_def split: if_splits)
      with c1 show ?thesis by (auto intro!: quiet_intros)
    next
      case (Inr u)
      have "dispatch_row env l row i b d1 = (b', d')"
        using assms(1) p Some Inr by (simp add: drain_row_def Let_def split: if_splits)
      from dispatch_row_slots [OF this] c1 n show ?thesis
        by (auto simp: slot_used_def d1 intro: calm_trans)
    qed
  qed
qed

end
