(* ===== verification/DispatchSafety.thy ===== *)
theory DispatchSafety
  imports DispatchRun
begin

text \<open>
  Interleavings of the dispatcher's goroutines and what they preserve. A state is the dispatcher
  with the drains in progress: for each queue at most one (\<open>RunQueue\<close> refuses a second), with its
  remaining slot budget, the rows it has not handled yet and the lease it claimed them with.
\<close>

section \<open>Steps\<close>

type_synonym drains = "string \<Rightarrow> (budgets \<times> ClaimedRow list \<times> instant) option"

definition in_drain :: "drains \<Rightarrow> string \<Rightarrow> bool" where
  "in_drain act i \<longleftrightarrow> (\<exists>q b rs l. act q = Some (b, rs, l) \<and> i \<in> fst ` set b)"

inductive disp_step :: "dispatcher \<times> drains \<Rightarrow> dispatcher \<times> drains \<Rightarrow> bool" where
  claim: "act q = None \<Longrightarrow> drain_claim env q d = (Some x, d') \<Longrightarrow> disp_step (d, act) (d', act(q \<mapsto> x))"
| noclaim: "act q = None \<Longrightarrow> drain_claim env q d = (None, d') \<Longrightarrow> disp_step (d, act) (d', act)"
| row: "act q = Some (b, r # rs, l) \<Longrightarrow> fair_order (de_ord env) \<Longrightarrow> length b < 2 ^ 32
    \<Longrightarrow> drain_row env q l r (b, d) = (b', d') \<Longrightarrow> disp_step (d, act) (d', act(q \<mapsto> (b', rs, l)))"
| drained: "act q = Some (b, [], l) \<Longrightarrow> disp_step (d, act) (d, act(q := None))"
| opened: "oe_uuid oe \<notin> set (dp_sessions d) \<Longrightarrow> \<not> in_drain act (oe_uuid oe)
    \<Longrightarrow> WorkerSession_open oe env d = (r, d') \<Longrightarrow> disp_step (d, act) (d', act)"
| envelope: "recv_step rv i env v d = (r', d') \<Longrightarrow> disp_step (d, act) (d', act)"
| sender: "disp_step (d, act) (on_session i (\<lambda>s. snd (runSender xs s)) d, act)"
| leases: "runLeaseProcessor f (dp_cfg d) evs batch (dp_heap d i) (dp_pool d) = (batch', s, db)
    \<Longrightarrow> disp_step (d, act) (on_session i (\<lambda>_. s) (d\<lparr>dp_pool := db\<rparr>), act)"
| sweep_acks: "disp_step (d, act) (sweepAckTimeouts fl now dbnow q d, act)"
| sweep_leases: "disp_step (d, act) (sweepExpiredLeases fl now dbnow q d, act)"
| closed: "disp_step (d, act) (unregister rf now dbnow i reason d, act)"
| drain: "disp_step (d, act) (snd (DrainSession now i d), act)"
| evict: "disp_step (d, act) (snd (EvictSession rf now dbnow i d), act)"
| goodbye: "disp_step (d, act) (on_session i (\<lambda>s. session_close (snd (offer (Goodbye ''drained'') s))) d, act)"
| shutdown: "disp_step (d, act) (shutdown_begin now ids d, act)"
| force: "disp_step (d, act) (snd (forceReleaseAll rf dbnow ids d), act)"
| others: "disp_step (d, act) (d\<lparr>dp_pool := db\<rparr>, act)"

inductive disp_reach :: "dispatcher \<times> drains \<Rightarrow> bool" where
  start: "disp_reach (Dispatcher_New host cf pool heap, \<lambda>_. None)"
| step: "disp_reach st \<Longrightarrow> disp_step st st' \<Longrightarrow> disp_reach st'"

section \<open>Invariant\<close>

definition within :: "session \<Rightarrow> int \<Rightarrow> bool" where
  "within s n \<longleftrightarrow> session_ok s \<and> ss_inflightCounter s + n \<le> ss_maxInFlight s"

definition registry_ok :: "dispatcher \<Rightarrow> bool" where
  "registry_ok d \<longleftrightarrow> distinct (dp_sessions d)
     \<and> (\<forall>q. distinct (dp_byQueue d q) \<and> set (dp_byQueue d q) = {i \<in> set (dp_sessions d). ss_queue (dp_heap d i) = q})"

definition budget_ok :: "dispatcher \<Rightarrow> string \<Rightarrow> budgets \<Rightarrow> bool" where
  "budget_ok d q b \<longleftrightarrow> distinct (map fst b)
     \<and> (\<forall>(i, n)\<in>set b. ss_queue (dp_heap d i) = q \<and> 0 < n \<and> within (dp_heap d i) n)"

definition disp_ok :: "dispatcher \<times> drains \<Rightarrow> bool" where
  "disp_ok = (\<lambda>(d, act). registry_ok d \<and> (\<forall>i\<in>set (dp_sessions d). within (dp_heap d i) 0)
     \<and> (\<forall>q b rs l. act q = Some (b, rs, l) \<longrightarrow> budget_ok d q b))"

lemma disp_okI:
  assumes "registry_ok d" and "\<And>i. i \<in> set (dp_sessions d) \<Longrightarrow> within (dp_heap d i) 0"
    and "\<And>q b rs l. act q = Some (b, rs, l) \<Longrightarrow> budget_ok d q b"
  shows "disp_ok (d, act)"
  using assms unfolding disp_ok_def by blast

lemma disp_okD:
  assumes "disp_ok (d, act)"
  shows "registry_ok d" and "i \<in> set (dp_sessions d) \<Longrightarrow> within (dp_heap d i) 0"
    and "act q = Some (b, rs, l) \<Longrightarrow> budget_ok d q b"
  using assms by (auto simp: disp_ok_def)

lemma quiet_within: "quiet s t \<Longrightarrow> within s n \<Longrightarrow> within t n"
  by (auto simp: quiet_def within_def same_worker_def)

lemma quiet_queue: "quiet s t \<Longrightarrow> ss_queue t = ss_queue s"
  by (simp add: quiet_def same_worker_def)

lemma calm_budget: "calm d d' \<Longrightarrow> budget_ok d q b \<Longrightarrow> budget_ok d' q b"
  by (fastforce simp: calm_def budget_ok_def quiet_queue intro: quiet_within)

lemma registry_frame:
  assumes "registry_ok d" and "dp_sessions d' = dp_sessions d" and "dp_byQueue d' = dp_byQueue d"
    and "\<And>k. k \<in> set (dp_sessions d) \<Longrightarrow> ss_queue (dp_heap d' k) = ss_queue (dp_heap d k)"
  shows "registry_ok d'"
  using assms by (auto simp: registry_ok_def)

lemma calm_registry: "calm d d' \<Longrightarrow> registry_ok d \<Longrightarrow> registry_ok d'"
  by (rule registry_frame [of d]) (simp_all add: calm_def quiet_queue)

lemma calm_ok:
  assumes "calm d d'" and "disp_ok (d, act)"
  shows "disp_ok (d', act)"
proof (rule disp_okI)
  show "registry_ok d'" using calm_registry [OF assms(1)] disp_okD(1) [OF assms(2)] .
  show "within (dp_heap d' i) 0" if "i \<in> set (dp_sessions d')" for i
    using that assms(1) disp_okD(2) [OF assms(2)] quiet_within [of "dp_heap d i" "dp_heap d' i"] by (simp add: calm_def)
  show "budget_ok d' q b" if "act q = Some (b, rs, l)" for q b rs l
    using calm_budget [OF assms(1)] disp_okD(3) [OF assms(2) that] .
qed

lemma budget_spend_mem:
  assumes "(k, n) \<in> set (budget_spend i b)"
  shows "(k \<noteq> i \<and> (k, n) \<in> set b) \<or> (k = i \<and> (i, n + 1) \<in> set b \<and> 0 < n)"
  using assms by (auto simp: budget_spend_def split: if_splits)

lemma budget_spend_keys:
  assumes "distinct (map fst b)"
  shows "distinct (map fst (budget_spend i b))"
proof -
  have "map fst (map (\<lambda>(k, n). (k, if k = i then n - 1 else n)) b) = map fst b" by (induction b) auto
  with assms have "distinct (map fst (map (\<lambda>(k, n). (k, if k = i then n - 1 else n)) b))" by metis
  then show ?thesis unfolding budget_spend_def by (rule distinct_map_filter)
qed

lemma slot_used_ok:
  assumes u: "slot_used i b b' d d'" and i: "(i, n) \<in> set b" "0 < n" and ok: "disp_ok (d, act)"
    and act: "act q = Some (b, r # rs, l)"
  shows "disp_ok (d', act(q \<mapsto> (b', rs, l)))"
proof -
  have b: "budget_ok d q b" using disp_okD(3) [OF ok act] .
  then have bi: "within (dp_heap d i) n" "ss_queue (dp_heap d i) = q" using i by (auto simp: budget_ok_def)
  have w: "within (dp_heap d' i) (m - 1)" if "within (dp_heap d i) m" for m
    using that u by (auto simp: slot_used_def within_def same_worker_def)
  have qs: "ss_queue (dp_heap d' k) = ss_queue (dp_heap d k)" for k
    using u by (cases "k = i") (auto simp: slot_used_def same_worker_def)
  have oth: "dp_heap d' k = dp_heap d k" if "k \<noteq> i" for k using u that by (simp add: slot_used_def)
  show ?thesis
  proof (rule disp_okI)
    show "registry_ok d'" using disp_okD(1) [OF ok] u qs by (simp add: registry_ok_def slot_used_def)
    show "within (dp_heap d' k) 0" if "k \<in> set (dp_sessions d')" for k
    proof (cases "k = i")
      case True
      from w [OF bi(1)] i(2) True show ?thesis by (auto simp: within_def)
    next
      case False
      with that disp_okD(2) [OF ok] u oth show ?thesis by (simp add: slot_used_def)
    qed
    fix q' b1 rs1 l1 assume a: "(act(q \<mapsto> (b', rs, l))) q' = Some (b1, rs1, l1)"
    show "budget_ok d' q' b1"
    proof (cases "q' = q")
      case True
      with a u have b1: "b1 = budget_spend i b" by (simp add: slot_used_def)
      have "ss_queue (dp_heap d' k) = q \<and> 0 < m \<and> within (dp_heap d' k) m" if "(k, m) \<in> set b1" for k m
        using budget_spend_mem [OF that [unfolded b1]] b w [of "m + 1"] qs oth by (auto simp: budget_ok_def)
      with True b b1 budget_spend_keys show ?thesis by (auto simp: budget_ok_def)
    next
      case False
      with a have b1: "budget_ok d q' b1" using disp_okD(3) [OF ok] by simp
      then have "k \<noteq> i" if "(k, m) \<in> set b1" for k m using that bi(2) False by (auto simp: budget_ok_def)
      with b1 oth show ?thesis by (auto simp: budget_ok_def)
    qed
  qed
qed

lemma drain_claim_ok:
  assumes "drain_claim env q d = (r, d')" and ok: "disp_ok (d, act)"
  shows "disp_ok (d', act) \<and> (case r of None \<Rightarrow> True | Some (b, rs, l) \<Rightarrow> budget_ok d' q b)"
proof -
  have "\<exists>db. d' = d\<lparr>dp_pool := db\<rparr>"
    using assms(1) exI [of "\<lambda>db. d = d\<lparr>dp_pool := db\<rparr>" "dp_pool d"]
    by (auto simp: drain_claim_def Let_def split: if_splits prod.splits sum.splits)
  then have c: "calm d d'" by (auto simp: calm_def quiet_refl)
  have r: "b = drain_budget q d" if "r = Some (b, rs, l)" for b rs l
    using that assms(1) by (auto simp: drain_claim_def Let_def split: if_splits prod.splits sum.splits)
  have reg: "registry_ok d" using disp_okD(1) [OF ok] .
  have keys: "map fst (map (\<lambda>i. (i, availableSlots (dp_heap d i))) (dp_byQueue d q)) = dp_byQueue d q" by (simp add: comp_def)
  have "distinct (map fst (map (\<lambda>i. (i, availableSlots (dp_heap d i))) (dp_byQueue d q)))"
    unfolding keys using reg by (simp add: registry_ok_def)
  then have "distinct (map fst (drain_budget q d))" unfolding drain_budget_def by (rule distinct_map_filter)
  moreover have "ss_queue (dp_heap d i) = q \<and> 0 < n \<and> within (dp_heap d i) n" if "(i, n) \<in> set (drain_budget q d)" for i n
  proof -
    from that have i: "i \<in> set (dp_byQueue d q)" "n = availableSlots (dp_heap d i)" "0 < n" by (auto simp: drain_budget_def)
    with reg have "i \<in> set (dp_sessions d)" "ss_queue (dp_heap d i) = q" by (auto simp: registry_ok_def)
    with i disp_okD(2) [OF ok] show ?thesis
      by (auto simp: within_def availableSlots_def inflightCount_def Let_def split: if_splits)
  qed
  ultimately have "budget_ok d q (drain_budget q d)" by (auto simp: budget_ok_def)
  with r c calm_ok [OF c ok] calm_budget [OF c] show ?thesis by (auto split: option.splits)
qed

lemma register_ok:
  assumes "disp_ok (d, act)" and "i \<notin> set (dp_sessions d)" and "\<not> in_drain act i"
    and "session_ok s" and "ss_inflightCounter s = 0"
  shows "disp_ok (register i (on_session i (\<lambda>_. s) d), act)"
proof (rule disp_okI)
  let ?d = "register i (on_session i (\<lambda>_. s) d)"
  have h: "dp_heap ?d = (dp_heap d)(i := s)" and se: "dp_sessions ?d = dp_sessions d @ [i]"
    and bq: "dp_byQueue ?d = (dp_byQueue d)(ss_queue s := dp_byQueue d (ss_queue s) @ [i])"
    using assms(2) by (simp_all add: register_def on_session_def Let_def)
  have reg: "registry_ok d" using disp_okD(1) [OF assms(1)] .
  show "registry_ok ?d"
    using reg assms(2) unfolding registry_ok_def h se bq by auto
  show "within (dp_heap ?d k) 0" if "k \<in> set (dp_sessions ?d)" for k
  proof (cases "k = i")
    case True
    then show ?thesis using assms(4,5) by (auto simp: h within_def session_ok_def)
  next
    case False
    with that disp_okD(2) [OF assms(1)] show ?thesis by (simp add: h se)
  qed
  show "budget_ok ?d q b" if "act q = Some (b, rs, l)" for q b rs l
  proof -
    have "k \<noteq> i" if "(k, n) \<in> set b" for k n using that assms(3) \<open>act q = _\<close> by (force simp: in_drain_def)
    with disp_okD(3) [OF assms(1) that] show ?thesis by (auto simp: budget_ok_def h)
  qed
qed

lemma unregister_parts:
  "dp_sessions (unregister f now dbnow i reason d) = filter (\<lambda>x. x \<noteq> i) (dp_sessions d)"
  "dp_byQueue (unregister f now dbnow i reason d)
     = (dp_byQueue d)(ss_queue (dp_heap d i) := filter (\<lambda>x. x \<noteq> i) (dp_byQueue d (ss_queue (dp_heap d i))))"
  "dp_cfg (unregister f now dbnow i reason d) = dp_cfg d"
  "quiet (dp_heap d k) (dp_heap (unregister f now dbnow i reason d) k)"
proof -
  let ?d1 = "d\<lparr>dp_sessions := filter (\<lambda>x. x \<noteq> i) (dp_sessions d),
       dp_byQueue := (dp_byQueue d)(ss_queue (dp_heap d i) := filter (\<lambda>x. x \<noteq> i) (dp_byQueue d (ss_queue (dp_heap d i)))),
       dp_owner := (dp_owner d) |` (- set (map i_jobID (snapshotInflight (dp_heap d i))))\<rparr>"
  have "calm ?d1 (unregister f now dbnow i reason d)"
    unfolding unregister_def Let_def by (intro quiet_intros calm_foldl)
  then show "dp_sessions (unregister f now dbnow i reason d) = filter (\<lambda>x. x \<noteq> i) (dp_sessions d)"
    "dp_byQueue (unregister f now dbnow i reason d)
     = (dp_byQueue d)(ss_queue (dp_heap d i) := filter (\<lambda>x. x \<noteq> i) (dp_byQueue d (ss_queue (dp_heap d i))))"
    "dp_cfg (unregister f now dbnow i reason d) = dp_cfg d"
    "quiet (dp_heap d k) (dp_heap (unregister f now dbnow i reason d) k)"
    unfolding calm_def by simp_all
qed

lemma unregister_ok:
  assumes "disp_ok (d, act)"
  shows "disp_ok (unregister f now dbnow i reason d, act)"
proof (rule disp_okI)
  let ?d = "unregister f now dbnow i reason d"
  note q = unregister_parts(4) [of d _ f now dbnow i reason]
  have reg: "registry_ok d" using disp_okD(1) [OF assms] .
  show "registry_ok ?d" using reg unfolding registry_ok_def unregister_parts quiet_queue [OF q] by auto
  show "within (dp_heap ?d k) 0" if "k \<in> set (dp_sessions ?d)" for k
    using that disp_okD(2) [OF assms] quiet_within [OF q] by (simp add: unregister_parts)
  show "budget_ok ?d q' b" if "act q' = Some (b, rs, l)" for q' b rs l
    using disp_okD(3) [OF assms that] unfolding budget_ok_def by (auto simp: quiet_queue [OF q] intro: quiet_within [OF q])
qed

lemma open_ok:
  assumes "WorkerSession_open oe env d = (r, d')" and "disp_ok (d, act)"
    and "oe_uuid oe \<notin> set (dp_sessions d)" and "\<not> in_drain act (oe_uuid oe)"
  shows "disp_ok (d', act)"
proof (cases "d' = d")
  case False
  let ?i = "oe_uuid oe"
  from False assms(1) obtain s where s: "session_ok s" "ss_inflightCounter s = 0"
    and d': "d' = unregister (\<lambda>_. False) (oe_now oe) (oe_dbnow oe) ?i ''stream_closed'' (register ?i (on_session ?i (\<lambda>_. s) d))
      \<or> d' = on_session ?i (appendEvent (event (oe_now oe) ''session_opened'' 0 [] (oe_caller oe))) (register ?i (on_session ?i (\<lambda>_. s) d))"
    unfolding WorkerSession_open_def Let_def
    by (auto split: option.splits if_splits sum.splits intro: newSession_ok newSession_bounds)
  have "disp_ok (register ?i (on_session ?i (\<lambda>_. s) d), act)" using register_ok [OF assms(2-4) s] .
  note ok = unregister_ok [OF this] calm_ok [OF _ this]
  have "calm (register ?i (on_session ?i (\<lambda>_. s) d)) (on_session ?i (appendEvent e) (register ?i (on_session ?i (\<lambda>_. s) d)))" for e
    by (intro quiet_intros)
  from ok(2) [OF this] ok(1) d' show ?thesis by blast
qed (use assms in simp)

lemma disp_step_ok: "disp_step st st' \<Longrightarrow> disp_ok st \<Longrightarrow> disp_ok st'"
proof (induction rule: disp_step.induct)
  case (claim act q env d x d')
  then show ?case using drain_claim_ok [of env q d "Some x" d' act] by (cases x) (auto simp: disp_ok_def)
next
  case (noclaim act q env d d')
  then show ?case using drain_claim_ok [of env q d None d' act] by simp
next
  case (row act q b r rs l env d b' d')
  from drain_row_slots [OF row(4,2,3)] show ?case
  proof
    assume c: "b' = b \<and> calm d d'"
    then have "disp_ok (d', act)" using calm_ok row(5) by blast
    with c row(1) show ?thesis by (auto simp: disp_ok_def)
  qed (use slot_used_ok row in blast)
next
  case (drained act q b l d)
  then show ?case by (auto simp: disp_ok_def)
next
  case (opened oe d act env r d')
  then show ?case using open_ok by blast
next
  case (envelope rv i env v d r' d' act)
  then show ?case using recv_step_calm [of d rv i env v] calm_ok by simp
next
  case (leases f d evs batch i batch' s db act)
  with runLeaseProcessor_quiet [of "dp_heap d i" f "dp_cfg d" evs batch "dp_pool d"] have "quiet (dp_heap d i) s" by simp
  then have "calm d (on_session i (\<lambda>_. s) (d\<lparr>dp_pool := db\<rparr>))" by (auto intro!: quiet_intros)
  with leases show ?case using calm_ok by blast
qed (auto elim!: calm_ok [rotated] intro!: unregister_ok sweeps_calm DrainSession_calm EvictSession_calm
    shutdown_begin_calm forceReleaseAll_calm quiet_intros runSender_quiet)

lemma disp_reach_ok: "disp_reach st \<Longrightarrow> disp_ok st"
proof (induction rule: disp_reach.induct)
  case (start host cf pool heap)
  then show ?case by (simp add: disp_ok_def registry_ok_def Dispatcher_New_def)
qed (rule disp_step_ok)

lemma within_bounds:
  assumes "within s 0"
  shows "inflightCount s = int (length (snapshotInflight s)) \<and> inflightCount s \<le> ss_maxInFlight s
       \<and> 1 \<le> ss_maxInFlight s \<and> ss_maxInFlight s \<le> 256 \<and> int (length (ss_outbox s)) \<le> ss_maxInFlight s + 4
       \<and> length (snapshotEvents s) \<le> 50 \<and> length (ss_leasePending s) \<le> 1024"
  using assms by (simp add: within_def session_ok_def inflightCount_def snapshotInflight_def snapshotEvents_def
        sessionEventCap_def leaseEnqueueCap_def) linarith

text \<open>A dispatcher with one worker connected, serving the queue of the sample job.\<close>

definition sample_ir :: "ir_job list" where
  "sample_ir = [\<lparr>ij_Namespace = ''shop'', ij_Name = ''Sync'', ij_VisibleTo = ''crm'', ij_HeartbeatMS = 0\<rparr>]"

definition sample_open :: WorkerEnvelope where
  "sample_open = \<lparr>w_Open = Some \<lparr>o_Queue = ''default'', o_JobNames = [''shop.Sync''], o_MaxInFlight = 2, o_PodID = [], o_Version = []\<rparr>,
     w_Heartbeat = None, w_Checkpoint = None, w_Ack = None, w_Complete = None, w_Fail = None\<rparr>"

definition sample_oe :: open_env where
  "sample_oe = \<lparr>oe_caller = ''crm'', oe_aliases = [], oe_ir = Inr (Some sample_ir), oe_uuid = ''u1'', oe_now = 0, oe_dbnow = 0, oe_send_fails = False\<rparr>"

definition sample_worker :: session where
  "sample_worker = appendEvent (event 0 ''session_opened'' 0 [] ''crm'')
     (newSession ''u1'' 0 (the (w_Open sample_open)) ''crm'' [] [])"

definition sample_start :: dispatcher where
  "sample_start = Dispatcher_New ''pod'' (Dispatcher_DefaultConfig ''pod'') sample_queue (\<lambda>_. sample_worker)"

definition sample_disp :: dispatcher where
  "sample_disp = snd (WorkerSession_open sample_oe sample_open sample_start)"

lemma sample_auth: "CheckWorkerAuthz ''crm'' [] [''shop.Sync''] (Some sample_ir) = Inr ()"
  by (simp add: CheckWorkerAuthz_def sample_ir_def lookupJob_def Job_ID_def jobVisibleTo_def)

lemma sample_disp_eq:
  "sample_disp = sample_start\<lparr>dp_sessions := [''u1''], dp_byQueue := (\<lambda>_. [])(''default'' := [''u1''])\<rparr>"
proof -
  have hb: "perJobHeartbeats [''shop.Sync''] sample_ir = []" by (simp add: perJobHeartbeats_def sample_ir_def)
  have q: "ss_queue (newSession u n x c a h) = o_Queue x" for u n x c a h by (simp add: newSession_def Let_def)
  have o: "w_Open sample_open = Some \<lparr>o_Queue = ''default'', o_JobNames = [''shop.Sync''], o_MaxInFlight = 2, o_PodID = [], o_Version = []\<rparr>"
    by (simp add: sample_open_def)
  show ?thesis
    unfolding sample_disp_def WorkerSession_open_def o
    by (simp add: sample_oe_def sample_auth hb MaxJobNamesPerOpen_def Let_def register_def on_session_def q
        sample_start_def Dispatcher_New_def sample_worker_def o fun_eq_iff)
qed

lemma sample_reach_disp: "disp_reach (sample_disp, \<lambda>_. None)"
proof -
  have "disp_reach (sample_start, \<lambda>_. None)" unfolding sample_start_def by (rule disp_reach.start)
  moreover have "disp_step (sample_start, \<lambda>_. None) (sample_disp, \<lambda>_. None)"
  proof (rule disp_step.opened [of sample_oe])
    show "oe_uuid sample_oe \<notin> set (dp_sessions sample_start)" by (simp add: sample_start_def Dispatcher_New_def)
    show "\<not> in_drain (\<lambda>_. None) (oe_uuid sample_oe)" by (simp add: in_drain_def)
    show "WorkerSession_open sample_oe sample_open sample_start = (fst (WorkerSession_open sample_oe sample_open sample_start), sample_disp)"
      by (simp add: sample_disp_def)
  qed
  ultimately show ?thesis by (rule disp_reach.step)
qed

text \<open>
  C26: the dispatcher's bookkeeping under any interleaving. However drains of the queues, row by
  row, streams that open, send and close, heartbeats, acknowledgements, completions, failures,
  sweeps, lease flushes, operator drains and evictions, shutdown and other users of the tables
  interleave: the per-queue lists hold exactly the registered sessions of the queue, and every
  registered session counts its in-flight rows right, never has more of them than its
  \<open>MaxInFlight\<close> (at most 256), at most four more queued envelopes than that, at most 50 events
  and at most 1024 queued lease bumps.
\<close>

theorem dispatcher_invariant:
  assumes "disp_reach (d, act)"
  shows "(\<forall>q. distinct (dp_byQueue d q) \<and> set (dp_byQueue d q) = {i \<in> set (dp_sessions d). ss_queue (dp_heap d i) = q})
    \<and> (\<forall>i\<in>set (dp_sessions d). let s = dp_heap d i in
         inflightCount s = int (length (snapshotInflight s)) \<and> inflightCount s \<le> ss_maxInFlight s
       \<and> 1 \<le> ss_maxInFlight s \<and> ss_maxInFlight s \<le> 256 \<and> int (length (ss_outbox s)) \<le> ss_maxInFlight s + 4
       \<and> length (snapshotEvents s) \<le> 50 \<and> length (ss_leasePending s) \<le> 1024)"
proof -
  have ok: "disp_ok (d, act)" using disp_reach_ok [OF assms] .
  show ?thesis
    using disp_okD(1) [OF ok] within_bounds [OF disp_okD(2) [OF ok]] unfolding registry_ok_def Let_def by blast
qed

theorem dispatcher_invariant_witness:
  "dp_sessions sample_disp = [''u1''] \<and> dp_byQueue sample_disp ''default'' = [''u1'']
   \<and> inflightCount (dp_heap sample_disp ''u1'') \<le> ss_maxInFlight (dp_heap sample_disp ''u1'')"
  using dispatcher_invariant [OF sample_reach_disp] by (simp add: sample_disp_eq Let_def)

section \<open>What becomes of a claimed row\<close>

definition job_rows :: "int \<Rightarrow> dispatcher \<Rightarrow> job list" where
  "job_rows k d = filter (\<lambda>j. j_id j = k) (jobs (dp_pool d))"

definition authorised :: "row_env \<Rightarrow> dispatcher \<Rightarrow> string \<Rightarrow> string \<Rightarrow> bool" where
  "authorised re d i name \<longleftrightarrow>
     re_ir re = None \<or> CheckSingleAuthz (ss_caller (dp_heap d i)) (ss_aliases (dp_heap d i)) name (re_ir re) = Inr ()"

definition dispatched_to :: "dispatcher \<Rightarrow> ClaimedRow \<Rightarrow> string \<Rightarrow> bool" where
  "dispatched_to d row i \<longleftrightarrow> dp_owner d (c_ID row) = Some i \<and> map_of (ss_inflight (dp_heap d i)) (c_ID row) \<noteq> None
     \<and> (\<exists>j. job_rows (c_ID row) d = [j] \<and> j_status j = Running \<and> j_claimed_by j = Some (claimedBy (dp_heap d i)))"

definition back_pending :: "dispatcher \<Rightarrow> ClaimedRow \<Rightarrow> bool" where
  "back_pending d row \<longleftrightarrow> (\<exists>j. job_rows (c_ID row) d = [j] \<and> j_status j = Pending \<and> j_claimed_by j = None)"

definition pod_claimed :: "dispatcher \<Rightarrow> ClaimedRow \<Rightarrow> bool" where
  "pod_claimed d row \<longleftrightarrow> (\<exists>j. job_rows (c_ID row) d = [j] \<and> j_status j = Running \<and> j_claimed_by j = Some (pod_claim d))"

text \<open>Everything about the row \<open>k\<close> and the workers is as before.\<close>

definition untouched :: "int \<Rightarrow> dispatcher \<Rightarrow> dispatcher \<Rightarrow> bool" where
  "untouched k d d' \<longleftrightarrow> job_rows k d' = job_rows k d \<and> dp_owner d' k = dp_owner d k
     \<and> (\<forall>i. map_of (ss_inflight (dp_heap d' i)) k = map_of (ss_inflight (dp_heap d i)) k)"

lemma filter_update_where_other:
  assumes "\<And>j. j_id (f j) = j_id j" and "\<And>j. P j \<Longrightarrow> j_id j \<noteq> k"
  shows "filter (\<lambda>j. j_id j = k) (update_where P f js) = filter (\<lambda>j. j_id j = k) js"
  using assms by (induction js) (auto simp: update_where_def)

lemma filter_update_where_own:
  assumes "\<And>j. j_id (f j) = j_id j" and "filter (\<lambda>j. j_id j = k) js = [j]"
  shows "filter (\<lambda>j. j_id j = k) (update_where P f js) = [if P j then f j else j]"
proof -
  have "filter (\<lambda>j. j_id j = k) (update_where P f js) = update_where P f (filter (\<lambda>j. j_id j = k) js)"
    using assms(1) by (induction js) (auto simp: update_where_def)
  with assms(2) show ?thesis by (simp add: update_where_def)
qed

lemma release_other: "k \<noteq> j \<Longrightarrow> job_rows k (releaseClaimed f now j who reason d) = job_rows k d"
  by (auto simp: job_rows_def releaseClaimed_def ReleaseRow_def intro!: filter_update_where_other)

lemma job_rows_id:
  assumes "job_rows k d = [j]"
  shows "j_id j = k"
proof -
  have "j \<in> set (job_rows k d)" using assms by simp
  then show ?thesis by (simp add: job_rows_def)
qed

lemma release_own:
  assumes "job_rows k d = [j]"
  shows "job_rows k (releaseClaimed False now k who reason d)
    = [if j_claimed_by j = Some who then requeue now (''released:'' @ reason) j else j]"
proof -
  have "j_id j = k" using job_rows_id [OF assms] .
  then show ?thesis
    using filter_update_where_own [of "requeue now (''released:'' @ reason)" k "jobs (dp_pool d)" j] assms
    by (simp add: job_rows_def releaseClaimed_def ReleaseRow_def)
qed

lemma job_rows_simps [simp]:
  "job_rows k (on_session i f d) = job_rows k d" "job_rows k (trackInflight n i d) = job_rows k d"
  "job_rows k (d\<lparr>dp_cursor := c\<rparr>) = job_rows k d"
  by (simp_all add: job_rows_def on_session_def trackInflight_def)

lemma on_session_simps [simp]:
  "dp_heap (on_session i f d) = (dp_heap d)(i := f (dp_heap d i))" "dp_owner (on_session i f d) = dp_owner d"
  "dp_cfg (on_session i f d) = dp_cfg d" "dp_pool (on_session i f d) = dp_pool d"
  "dp_heap (trackInflight k i d) = dp_heap d" "dp_owner (trackInflight k i d) = (dp_owner d)(k \<mapsto> i)"
  "dp_cfg (trackInflight k i d) = dp_cfg d"
  by (simp_all add: on_session_def trackInflight_def)

lemma releaseClaimed_simps [simp]:
  "dp_heap (releaseClaimed f now k who reason d) = dp_heap d" "dp_owner (releaseClaimed f now k who reason d) = dp_owner d"
  "dp_cfg (releaseClaimed f now k who reason d) = dp_cfg d"
  by (simp_all add: releaseClaimed_def)

lemma row_lease_rows:
  assumes "row_lease re l s row d = (l', d')"
  shows "k \<noteq> c_ID row \<Longrightarrow> job_rows k d' = job_rows k d"
    and "job_rows (c_ID row) d = [j] \<Longrightarrow> \<exists>u. job_rows (c_ID row) d' = [j\<lparr>j_claimed_until := u\<rparr>]"
    and "dp_heap d' = dp_heap d" and "dp_owner d' = dp_owner d" and "dp_cfg d' = dp_cfg d"
proof -
  let ?P = "\<lambda>j. j_id j = c_ID row \<and> j_claimed_by j = Some (claimedBy s)"
  consider "d' = d" | u where "d' = d\<lparr>dp_pool := (dp_pool d)\<lparr>jobs := update_where ?P (\<lambda>j. j\<lparr>j_claimed_until := u\<rparr>) (jobs (dp_pool d))\<rparr>\<rparr>"
    using assms by (fastforce simp: row_lease_def ExtendLease_def split: option.splits if_splits prod.splits sum.splits)
  note c = this
  show "k \<noteq> c_ID row \<Longrightarrow> job_rows k d' = job_rows k d"
    using c by cases (auto simp: job_rows_def intro!: filter_update_where_other)
  show "\<exists>u. job_rows (c_ID row) d' = [j\<lparr>j_claimed_until := u\<rparr>]" if "job_rows (c_ID row) d = [j]"
    using c
  proof cases
    case 1
    with that show ?thesis by (intro exI [of _ "j_claimed_until j"]) simp
  next
    case (2 u)
    with that filter_update_where_own [of "\<lambda>j. j\<lparr>j_claimed_until := u\<rparr>" "c_ID row" "jobs (dp_pool d)" j ?P]
    have "job_rows (c_ID row) d' = [if ?P j then j\<lparr>j_claimed_until := u\<rparr> else j]" by (simp add: job_rows_def)
    then show ?thesis
      by (cases "?P j") (auto intro: exI [of _ "j_claimed_until j"])
  qed
  show "dp_heap d' = dp_heap d" "dp_owner d' = dp_owner d" "dp_cfg d' = dp_cfg d" using c by (cases; simp)+
qed

lemma recordDispatch_other:
  "k \<noteq> d_JobID x \<Longrightarrow> map_of (ss_inflight (snd (recordDispatch now x l a s))) k = map_of (ss_inflight s) k"
  by (auto simp: recordDispatch_def Let_def offer_def appendEvent_def update_conv' delete_conv' split: if_splits)

lemma bind_rows:
  assumes "bindClaimToSession False k s db = (r, db')"
  shows "i \<noteq> k \<Longrightarrow> filter (\<lambda>j. j_id j = i) (jobs db') = filter (\<lambda>j. j_id j = i) (jobs db)"
    and "filter (\<lambda>j. j_id j = k) (jobs db) = [j] \<Longrightarrow>
      filter (\<lambda>j. j_id j = k) (jobs db') = [j\<lparr>j_claimed_by := Some (claimedBy s), j_session := Some (ss_id s)\<rparr>]"
proof -
  let ?f = "\<lambda>j. j\<lparr>j_claimed_by := Some (claimedBy s), j_session := Some (ss_id s)\<rparr>"
  have db': "jobs db' = update_where (\<lambda>j. j_id j = k) ?f (jobs db)" using assms by (auto simp: bindClaimToSession_def)
  show "i \<noteq> k \<Longrightarrow> filter (\<lambda>j. j_id j = i) (jobs db') = filter (\<lambda>j. j_id j = i) (jobs db)"
    unfolding db' by (auto intro!: filter_update_where_other)
  assume j: "filter (\<lambda>j. j_id j = k) (jobs db) = [j]"
  have "j \<in> set (filter (\<lambda>j. j_id j = k) (jobs db))" unfolding j by simp
  then have "j_id j = k" unfolding set_filter by blast
  with filter_update_where_own [of ?f k "jobs db" j "\<lambda>j. j_id j = k"] j
  show "filter (\<lambda>j. j_id j = k) (jobs db') = [?f j]" unfolding db' by simp
qed

lemma recordDispatch_stuck:
  assumes "\<not> fst (recordDispatch now x l a s)"
  shows "let t = snd (recordDispatch now x l a s) in ss_inflightCounter t = ss_inflightCounter s \<and> ss_drained t = ss_drained s
    \<and> ss_maxInFlight t = ss_maxInFlight s \<and> ss_outbox t = ss_outbox s \<and> ss_outboxCap t = ss_outboxCap s"
  using assms by (auto simp: recordDispatch_def Let_def offer_def split: if_splits)

text \<open>The three ways \<open>dispatch_row\<close> can end.\<close>

lemma dispatch_row_cases:
  assumes "dispatch_row env l row i b d = (b', d')"
  obtains (bind) "re_bind_fails (de_row env (c_ID row))"
      "d' = releaseClaimed (re_release_fails (de_row env (c_ID row))) (re_dbnow (de_row env (c_ID row))) (c_ID row) (pod_claim d) ''bind_failed'' d"
  | (full) d1 t where "\<not> re_bind_fails (de_row env (c_ID row))" "b' = b"
      "d' = releaseClaimed (re_release_fails (de_row env (c_ID row))) (re_dbnow (de_row env (c_ID row))) (c_ID row)
         (claimedBy (dp_heap d i)) ''outbox_full'' (on_session i (\<lambda>_. t) d1)"
      "dp_heap d1 = dp_heap d" "dp_owner d1 = dp_owner d" "dp_cfg d1 = dp_cfg d" "\<And>k. k \<noteq> c_ID row \<Longrightarrow> job_rows k d1 = job_rows k d"
      "\<And>j. job_rows (c_ID row) d = [j] \<Longrightarrow> \<exists>u. job_rows (c_ID row) d1
         = [j\<lparr>j_claimed_by := Some (claimedBy (dp_heap d i)), j_session := Some (ss_id (dp_heap d i)), j_claimed_until := u\<rparr>]"
      "\<And>k. k \<noteq> c_ID row \<Longrightarrow> map_of (ss_inflight t) k = map_of (ss_inflight (dp_heap d i)) k"
      "\<not> length (ss_outbox (dp_heap d i)) < ss_outboxCap (dp_heap d i)"
      "availableSlots t = availableSlots (dp_heap d i)" "ss_outbox t = ss_outbox (dp_heap d i)" "ss_outboxCap t = ss_outboxCap (dp_heap d i)" "ss_closed t"
  | (sent) d1 t where "\<not> re_bind_fails (de_row env (c_ID row))" "b' = budget_spend i b" "d' = trackInflight (c_ID row) i (on_session i (\<lambda>_. t) d1)"
      "dp_heap d1 = dp_heap d" "dp_owner d1 = dp_owner d" "dp_cfg d1 = dp_cfg d" "\<And>k. k \<noteq> c_ID row \<Longrightarrow> job_rows k d1 = job_rows k d"
      "\<And>j. job_rows (c_ID row) d = [j] \<Longrightarrow> \<exists>u. job_rows (c_ID row) d1
         = [j\<lparr>j_claimed_by := Some (claimedBy (dp_heap d i)), j_session := Some (ss_id (dp_heap d i)), j_claimed_until := u\<rparr>]"
      "\<And>k. k \<noteq> c_ID row \<Longrightarrow> map_of (ss_inflight t) k = map_of (ss_inflight (dp_heap d i)) k"
      "map_of (ss_inflight t) (c_ID row) \<noteq> None" "same_worker (dp_heap d i) t"
      "length (ss_outbox (dp_heap d i)) < ss_outboxCap (dp_heap d i)"
proof (cases "re_bind_fails (de_row env (c_ID row))")
  case True
  with assms bind show ?thesis by (auto simp: dispatch_row_def bindClaimToSession_def Let_def)
next
  case False
  let ?re = "de_row env (c_ID row)" and ?s = "dp_heap d i"
  obtain db where db: "bindClaimToSession False (c_ID row) ?s (dp_pool d) = (Inr (), db)" by (simp add: bindClaimToSession_def)
  obtain l' d1 where rl: "row_lease ?re l ?s row (d\<lparr>dp_pool := db\<rparr>) = (l', d1)" by fastforce
  let ?a = "re_now ?re + dc_AckTimeoutMS (dp_cfg d) * millisecond" and ?x = "buildDispatch (de_fmt env) row"
  obtain ok t where rd: "recordDispatch (re_now ?re) ?x l' ?a ?s = (ok, t)" by fastforce
  have x: "d_JobID ?x = c_ID row" by (simp add: buildDispatch_def)
  have h: "dp_heap d1 = dp_heap d" "dp_owner d1 = dp_owner d" "dp_cfg d1 = dp_cfg d" using row_lease_rows(3-5) [OF rl] by simp_all
  have other: "job_rows k d1 = job_rows k d" if "k \<noteq> c_ID row" for k
    using row_lease_rows(1) [OF rl that] bind_rows(1) [OF db that] by (simp add: job_rows_def)
  have own: "\<exists>u. job_rows (c_ID row) d1 = [j\<lparr>j_claimed_by := Some (claimedBy ?s), j_session := Some (ss_id ?s), j_claimed_until := u\<rparr>]"
    if "job_rows (c_ID row) d = [j]" for j
    using row_lease_rows(2) [OF rl] bind_rows(2) [OF db, of j] that by (simp add: job_rows_def)
  have infl: "map_of (ss_inflight t) k = map_of (ss_inflight ?s) k" if "k \<noteq> c_ID row" for k
    using recordDispatch_other [of k ?x "re_now ?re" l' ?a ?s] that x rd by simp
  show ?thesis
  proof (cases ok)
    case True
    have t: "map_of (ss_inflight t) (c_ID row) \<noteq> None" "same_worker ?s t"
      using recordDispatch_inflight [of "re_now ?re" ?x l' ?a ?s] recordDispatch_worker [of ?s "re_now ?re" ?x l' ?a] rd True x by auto
    show ?thesis
      by (rule sent [of "t\<lparr>ss_cntDispatched := ss_cntDispatched t + 1\<rparr>" d1])
         (use assms False db rl rd True h other own infl t recordDispatch_iff [of "re_now ?re" ?x l' ?a ?s] in
           \<open>auto simp: dispatch_row_def Let_def same_worker_def\<close>)
  next
    case nok: False
    have stuck: "ss_inflightCounter t = ss_inflightCounter ?s" "ss_drained t = ss_drained ?s" "ss_maxInFlight t = ss_maxInFlight ?s"
        "ss_outbox t = ss_outbox ?s" "ss_outboxCap t = ss_outboxCap ?s"
      using recordDispatch_stuck [of "re_now ?re" ?x l' ?a ?s] rd nok by (simp_all add: Let_def)
    show ?thesis
      by (rule full [of "session_close (t\<lparr>ss_cntRevoked := ss_cntRevoked t + 1\<rparr>)" d1])
         (use assms False db rl rd nok h other own infl recordDispatch_iff [of "re_now ?re" ?x l' ?a ?s] stuck in
           \<open>auto simp: dispatch_row_def Let_def session_close_def availableSlots_def inflightCount_def\<close>)
  qed
qed

text \<open>The ways \<open>drain_row\<close> can end before a session is tried.\<close>

lemma drain_row_cases:
  assumes "drain_row env q l row (b, d) = (b', d')" and "fair_order (de_ord env)" and "length b < 2 ^ 32"
  obtains (nosession) c where "b' = b" "\<forall>(i, n)\<in>set b. \<not> (n > 0 \<and> handlesJob (dp_heap d i) (c_JobName row))"
      "d' = releaseClaimed (re_release_fails (de_row env (c_ID row))) (re_dbnow (de_row env (c_ID row))) (c_ID row) (pod_claim d)
         ''no_session_post_claim'' (d\<lparr>dp_cursor := c\<rparr>)"
  | (rejected) i n c e where "b' = b" "(i, n) \<in> set b" "\<not> authorised (de_row env (c_ID row)) d i (c_JobName row)"
      "d' = releaseClaimed (re_release_fails (de_row env (c_ID row))) (re_dbnow (de_row env (c_ID row))) (c_ID row) (claimedBy (dp_heap d i))
         ''authz_rejected'' (on_session i (appendEvent e) (d\<lparr>dp_cursor := c\<rparr>))"
  | (tried) i n c where "(i, n) \<in> set b" "handlesJob (dp_heap d i) (c_JobName row)" "authorised (de_row env (c_ID row)) d i (c_JobName row)"
      "dispatch_row env l row i b (d\<lparr>dp_cursor := c\<rparr>) = (b', d')"
proof -
  let ?re = "de_row env (c_ID row)"
  obtain pick d1 where p: "pickSession (de_ord env) q (c_JobName row) b d = (pick, d1)" by fastforce
  from pickSession_spec [OF p assms(2,3)] obtain c where d1: "d1 = d\<lparr>dp_cursor := c\<rparr>"
    and pk: "case pick of None \<Rightarrow> \<forall>(i, n)\<in>set b. \<not> (n > 0 \<and> handlesJob (dp_heap d i) (c_JobName row))
       | Some i \<Rightarrow> \<exists>n. (i, n) \<in> set b \<and> n > 0 \<and> handlesJob (dp_heap d i) (c_JobName row)" by blast
  show ?thesis
  proof (cases pick)
    case None
    with assms(1) p pk d1 show ?thesis by (intro nosession [of c]) (auto simp: drain_row_def Let_def pod_claim_def)
  next
    case (Some i)
    then obtain n where n: "(i, n) \<in> set b" "handlesJob (dp_heap d i) (c_JobName row)" using pk by auto
    let ?s = "dp_heap d i"
    let ?auth = "if re_ir ?re = None then Inr () else CheckSingleAuthz (ss_caller ?s) (ss_aliases ?s) (c_JobName row) (re_ir ?re)"
    show ?thesis
    proof (cases ?auth)
      case (Inl e)
      then have "\<not> authorised ?re d i (c_JobName row)" by (auto simp: authorised_def split: if_splits)
      with n Inl assms(1) p Some d1 show ?thesis
        by (intro rejected [of i n _ c]) (auto simp: drain_row_def Let_def split: if_splits)
    next
      case (Inr u)
      then have "authorised ?re d i (c_JobName row)" by (auto simp: authorised_def split: if_splits)
      with n Inr assms(1) p Some d1 show ?thesis
        by (intro tried [of i n c]) (auto simp: drain_row_def Let_def split: if_splits)
    qed
  qed
qed

lemma appendEvent_inflight [simp]: "ss_inflight (appendEvent e s) = ss_inflight s" "ss_id (appendEvent e s) = ss_id s"
  by (simp_all add: appendEvent_def Let_def)

lemma untouched_refl: "untouched k d d"
  by (simp add: untouched_def)

lemma untouched_trans: "untouched k d d' \<Longrightarrow> untouched k d' d'' \<Longrightarrow> untouched k d d''"
  by (simp add: untouched_def)

lemma drain_row_local:
  assumes "drain_row env q l row (b, d) = (b', d')" and "fair_order (de_ord env)" and "length b < 2 ^ 32" and "k \<noteq> c_ID row"
  shows "untouched k d d'"
  using assms(1-3)
proof (cases rule: drain_row_cases)
  case (nosession c)
  with assms(4) show ?thesis by (simp add: untouched_def release_other)
next
  case (rejected i n c e)
  with assms(4) show ?thesis by (simp add: untouched_def release_other)
next
  case (tried i n c)
  show ?thesis
    using tried(4)
  proof (cases rule: dispatch_row_cases)
    case bind
    with assms(4) show ?thesis by (simp add: untouched_def release_other)
  next
    case (full d1 t)
    with assms(4) show ?thesis by (auto simp: untouched_def release_other)
  next
    case (sent d1 t)
    with assms(4) show ?thesis by (auto simp: untouched_def)
  qed
qed

lemma drain_row_static:
  assumes "drain_row env q l row (b, d) = (b', d')" and "fair_order (de_ord env)" and "length b < 2 ^ 32"
  shows "dp_cfg d' = dp_cfg d \<and> (\<forall>i. same_worker (dp_heap d i) (dp_heap d' i)) \<and> fst ` set b' \<subseteq> fst ` set b \<and> length b' \<le> length b"
  using drain_row_slots [OF assms]
proof
  assume "b' = b \<and> calm d d'"
  then show ?thesis by (auto simp: calm_def quiet_def)
next
  assume "\<exists>i n. (i, n) \<in> set b \<and> 0 < n \<and> slot_used i b b' d d'"
  then obtain i where u: "slot_used i b b' d d'" by blast
  have "fst ` set b' \<subseteq> fst ` set b"
  proof
    fix k assume "k \<in> fst ` set b'"
    then obtain n where "(k, n) \<in> set (budget_spend i b)" using u by (auto simp: slot_used_def)
    from budget_spend_mem [OF this] show "k \<in> fst ` set b" by (auto intro: rev_image_eqI)
  qed
  moreover have "length b' \<le> length b"
    using u unfolding slot_used_def budget_spend_def by (metis (no_types, lifting) length_filter_le length_map)
  moreover have "same_worker (dp_heap d k) (dp_heap d' k)" for k
    using u by (cases "k = i") (auto simp: slot_used_def)
  ultimately show ?thesis using u by (simp add: slot_used_def)
qed

text \<open>Where a row ends when none of its statements fails.\<close>

definition row_routed :: "drain_env \<Rightarrow> string set \<Rightarrow> dispatcher \<Rightarrow> dispatcher \<Rightarrow> ClaimedRow \<Rightarrow> bool" where
  "row_routed env K d d' row \<longleftrightarrow>
     (\<exists>i\<in>K. handlesJob (dp_heap d i) (c_JobName row) \<and> authorised (de_row env (c_ID row)) d i (c_JobName row) \<and> dispatched_to d' row i)
   \<or> back_pending d' row
   \<or> (\<exists>i\<in>K. \<not> authorised (de_row env (c_ID row)) d i (c_JobName row) \<and> pod_claimed d' row)"

lemma drain_row_own:
  assumes "drain_row env q l row (b, d) = (b', d')" and "fair_order (de_ord env)" and "length b < 2 ^ 32"
    and "pod_claimed d row" and "\<not> re_release_fails (de_row env (c_ID row))" and "\<not> re_bind_fails (de_row env (c_ID row))"
    and "\<And>i. i \<in> fst ` set b \<Longrightarrow> ss_id (dp_heap d i) \<noteq> dc_PodID (dp_cfg d)"
  shows "row_routed env (fst ` set b) d d' row"
proof -
  obtain j where j: "job_rows (c_ID row) d = [j]" "j_status j = Running" "j_claimed_by j = Some (pod_claim d)"
    using assms(4) by (auto simp: pod_claimed_def)
  show ?thesis
    using assms(1-3)
  proof (cases rule: drain_row_cases)
    case (nosession c)
    then have "job_rows (c_ID row) d' = [requeue (re_dbnow (de_row env (c_ID row))) (''released:'' @ ''no_session_post_claim'') j]"
      using release_own [of "c_ID row" "d\<lparr>dp_cursor := c\<rparr>" j] j assms(5) by simp
    then have "back_pending d' row" by (simp add: back_pending_def)
    then show ?thesis by (simp add: row_routed_def)
  next
    case (rejected i n c e)
    then have i: "i \<in> fst ` set b" by force
    then have "pod_claim d \<noteq> claimedBy (dp_heap d i)" using assms(7) [OF i] by (simp add: pod_claim_def claimedBy_def)
    then have "job_rows (c_ID row) d' = [j]"
      using rejected release_own [of "c_ID row" "on_session i (appendEvent e) (d\<lparr>dp_cursor := c\<rparr>)" j] j assms(5) by simp
    moreover have "pod_claim d' = pod_claim d" using rejected by (simp add: pod_claim_def)
    ultimately have "pod_claimed d' row" using j by (simp add: pod_claimed_def)
    then show ?thesis using rejected(3) i by (auto simp: row_routed_def)
  next
    case (tried i n c)
    then have i: "i \<in> fst ` set b" by force
    show ?thesis
      using tried(4)
    proof (cases rule: dispatch_row_cases)
      case bind
      then show ?thesis using assms(6) by simp
    next
      case (full d1 t)
      then obtain u where u: "job_rows (c_ID row) (on_session i (\<lambda>_. t) d1)
          = [j\<lparr>j_claimed_by := Some (claimedBy (dp_heap d i)), j_session := Some (ss_id (dp_heap d i)), j_claimed_until := u\<rparr>]"
        using j by fastforce
      from release_own [OF this] full(3) assms(5) have "back_pending d' row" by (simp add: back_pending_def)
      then show ?thesis by (simp add: row_routed_def)
    next
      case (sent d1 t)
      then obtain u where u: "job_rows (c_ID row) d1
          = [j\<lparr>j_claimed_by := Some (claimedBy (dp_heap d i)), j_session := Some (ss_id (dp_heap d i)), j_claimed_until := u\<rparr>]"
        using j by fastforce
      have "claimedBy t = claimedBy (dp_heap d i)" using sent(11) by (simp add: same_worker_def)
      then have "dispatched_to d' row i"
        using sent u j(2) by (auto simp: dispatched_to_def)
      with tried i show ?thesis by (auto simp: row_routed_def)
    qed
  qed
qed

lemma untouched_routed:
  assumes "untouched (c_ID row) d1 d2" and "row_routed env K d d1 row" and "dp_cfg d2 = dp_cfg d1"
    and "\<And>i. same_worker (dp_heap d1 i) (dp_heap d2 i)"
  shows "row_routed env K d d2 row"
proof -
  have c: "claimedBy (dp_heap d2 i) = claimedBy (dp_heap d1 i)" for i using claimedBy_same assms(4) by blast
  have "dispatched_to d1 row i \<Longrightarrow> dispatched_to d2 row i" for i
    using assms(1) by (simp add: dispatched_to_def untouched_def c)
  moreover have "back_pending d1 row \<Longrightarrow> back_pending d2 row" using assms(1) by (simp add: back_pending_def untouched_def)
  moreover have "pod_claimed d1 row \<Longrightarrow> pod_claimed d2 row"
    using assms(1,3) by (simp add: pod_claimed_def untouched_def pod_claim_def)
  ultimately show ?thesis using assms(2) unfolding row_routed_def by blast
qed

lemma row_routed_weaken:
  assumes "row_routed env K d1 d' row" and "K \<subseteq> K'" and "\<And>i. same_worker (dp_heap d i) (dp_heap d1 i)"
  shows "row_routed env K' d d' row"
proof -
  have "handlesJob (dp_heap d1 i) n = handlesJob (dp_heap d i) n" "authorised re d1 i n = authorised re d i n" for i n re
    using assms(3) [of i] by (simp_all add: handlesJob_def authorised_def same_worker_def)
  with assms(1,2) show ?thesis unfolding row_routed_def by blast
qed

end
