(* ===== verification/DispatchRoutes.thy ===== *)
theory DispatchRoutes
  imports DispatchSafety
begin

text \<open>
  What the dispatcher achieves for the rows it claims: where each row of a drain ends, what a
  disconnect, a lease flush and a shutdown leave behind, who may open a session, and the two
  paths on which a row is not handed back.
\<close>

section \<open>A drain\<close>

lemma drain_rows_routed:
  assumes "fair_order (de_ord env)" and nf: "\<And>k. \<not> re_release_fails (de_row env k) \<and> \<not> re_bind_fails (de_row env k)"
    and "distinct (map c_ID rows)" and "length b < 2 ^ 32" and "\<And>r. r \<in> set rows \<Longrightarrow> pod_claimed d r"
    and "\<And>i. i \<in> fst ` set b \<Longrightarrow> ss_id (dp_heap d i) \<noteq> dc_PodID (dp_cfg d)"
    and "foldl (\<lambda>st row. drain_row env q l row st) (b, d) rows = (b', d')"
  shows "(\<forall>r\<in>set rows. row_routed env (fst ` set b) d d' r) \<and> (\<forall>k. k \<notin> c_ID ` set rows \<longrightarrow> untouched k d d')
    \<and> dp_cfg d' = dp_cfg d \<and> (\<forall>i. same_worker (dp_heap d i) (dp_heap d' i))"
  using assms(3-)
proof (induction rows arbitrary: b d)
  case Nil
  then show ?case by (simp add: untouched_refl)
next
  case (Cons r rows)
  obtain b1 d1 where s: "drain_row env q l r (b, d) = (b1, d1)" by fastforce
  note st = drain_row_static [OF s assms(1) Cons.prems(2)]
  have loc: "untouched k d d1" if "k \<noteq> c_ID r" for k using drain_row_local [OF s assms(1) Cons.prems(2) that] .
  have own: "row_routed env (fst ` set b) d d1 r"
    using drain_row_own [OF s assms(1) Cons.prems(2) _ _ _ Cons.prems(4)] Cons.prems(3) nf by simp
  have pc: "pod_claimed d1 x" if "x \<in> set rows" for x
  proof -
    have "c_ID x \<noteq> c_ID r" using imageI [OF that, of c_ID] Cons.prems(1) by auto
    from loc [OF this] Cons.prems(3) [of x] that st show ?thesis by (simp add: pod_claimed_def untouched_def pod_claim_def)
  qed
  have "ss_id (dp_heap d1 i) \<noteq> dc_PodID (dp_cfg d1)" if "i \<in> fst ` set b1" for i
    using Cons.prems(4) [of i] subsetD [OF _ that, of "fst ` set b"] st by (simp add: same_worker_def)
  moreover have "length b1 < 2 ^ 32" using st Cons.prems(2) by linarith
  moreover have "foldl (\<lambda>st row. drain_row env q l row st) (b1, d1) rows = (b', d')" using Cons.prems(5) s by simp
  ultimately have ih: "\<forall>x\<in>set rows. row_routed env (fst ` set b1) d1 d' x"
      "\<forall>k. k \<notin> c_ID ` set rows \<longrightarrow> untouched k d1 d'" "dp_cfg d' = dp_cfg d1" "\<forall>i. same_worker (dp_heap d1 i) (dp_heap d' i)"
    using Cons.IH [of b1 d1] Cons.prems(1) pc by auto
  have nr: "c_ID r \<notin> c_ID ` set rows" using Cons.prems(1) by auto
  have "row_routed env (fst ` set b) d d' r"
    using untouched_routed [of r d1 d'] ih(2-4) nr own by blast
  moreover have "row_routed env (fst ` set b) d d' x" if "x \<in> set rows" for x
    using row_routed_weaken [of env "fst ` set b1" d1 d' x] ih(1) that st by blast
  moreover have "untouched k d d'" if "k \<notin> c_ID ` set (r # rows)" for k
    using that loc [of k] ih(2) untouched_trans [of k d d1 d'] by auto
  moreover have "same_worker (dp_heap d i) (dp_heap d' i)" for i using st ih(4) same_worker_trans by blast
  ultimately show ?case using st ih(3) by auto
qed

lemma drain_claim_spec:
  assumes "jobs_inv (dp_pool d)" and "drain_claim env q d = (Some (b, rows, l), d1)"
  shows "b = drain_budget q d \<and> (\<exists>db. d1 = d\<lparr>dp_pool := db\<rparr>) \<and> distinct (map c_ID rows) \<and> (\<forall>r\<in>set rows. pod_claimed d1 r)"
proof -
  let ?ns = "remdups (concat (map (\<lambda>(i, _). ss_jobNames (dp_heap d i)) (drain_budget q d)))"
  let ?tot = "min (dc_BatchSize (dp_cfg d)) (sum_list (map snd (drain_budget q d)))"
  from assms(2) obtain db where c: "ClaimRows (de_claim_fails env) (de_locked env) (de_dbnow env) q ?ns ?tot (pod_claim d)
       (de_now env + dc_HeartbeatBudget (dp_cfg d)) WorkerKindDispatched (dc_PodID (dp_cfg d)) (dp_pool d) = (Inr rows, db)"
    and d1: "d1 = d\<lparr>dp_pool := db\<rparr>" and b: "b = drain_budget q d"
    by (auto simp: drain_claim_def Let_def split: if_splits prod.splits sum.splits)
  let ?R = "set (ready_ids (de_locked env) (de_dbnow env) q ?ns ?tot (dp_pool d))"
  let ?f = "claim_update (de_dbnow env) (pod_claim d) (de_now env + dc_HeartbeatBudget (dp_cfg d)) WorkerKindDispatched (dc_PodID (dp_cfg d))"
  have db: "jobs db = update_where (\<lambda>j. j_id j \<in> ?R) ?f (jobs (dp_pool d))"
    and rows: "rows = map claimed_row (filter (\<lambda>j. j_id j \<in> ?R) (jobs db))"
    using ClaimRows_Inr [OF c] by simp_all
  have dist: "distinct (map j_id (jobs db))" using claim_inv [OF assms(1) c] by (simp add: jobs_inv_def)
  have ids: "map c_ID rows = map j_id (filter (\<lambda>j. j_id j \<in> ?R) (jobs db))" unfolding rows by (simp add: claimed_row_def)
  have "pod_claimed d1 r" if r: "r \<in> set rows" for r
  proof -
    from r obtain j where j: "j \<in> set (jobs db)" "j_id j \<in> ?R" "c_ID r = j_id j" unfolding rows by (auto simp: claimed_row_def)
    have "job_rows (c_ID r) d1 = [j]" using filter_key_unique [OF dist j(1)] by (simp add: job_rows_def d1 j(3))
    moreover have "j_status j = Running \<and> j_claimed_by j = Some (pod_claim d)"
      using j(1,2) unfolding db set_update_where by auto
    ultimately show ?thesis by (simp add: pod_claimed_def d1 pod_claim_def)
  qed
  moreover have "distinct (map c_ID rows)" unfolding ids using dist by (rule distinct_map_filter)
  ultimately show ?thesis using b d1 by blast
qed


text \<open>A drain of the sample dispatcher, which has one free worker for the one pending job.\<close>

definition sample_env :: "ir_job list option \<Rightarrow> drain_env" where
  "sample_env ir = \<lparr>de_now = 0, de_dbnow = 0, de_claim_fails = False, de_locked = (\<lambda>_. False),
     de_row = (\<lambda>_. \<lparr>re_now = 0, re_dbnow = 0, re_ir = ir, re_release_fails = False, re_bind_fails = False, re_extend_fails = False\<rparr>),
     de_ord = (\<lambda>xs. xs), de_fmt = (\<lambda>_. []), de_quote = (\<lambda>s. s)\<rparr>"

definition sample_claimed :: job where
  "sample_claimed = claim_update 0 ''dispatcher/pod'' (5 * minute) WorkerKindDispatched ''pod'' sample_job"

lemma sample_env_ok: "fair_order (de_ord (sample_env ir))"
    "\<not> re_release_fails (de_row (sample_env ir) k) \<and> \<not> re_bind_fails (de_row (sample_env ir) k)"
  by (simp_all add: sample_env_def fair_order_def)

lemma sample_worker_simps:
  "ss_id sample_worker = ''u1''" "availableSlots sample_worker = 2" "ss_jobNames sample_worker = [''shop.Sync'']"
  "ss_caller sample_worker = ''crm''" "ss_aliases sample_worker = []" "ss_outbox sample_worker = []" "ss_perJobHeartbeat sample_worker = []"
  by (simp_all add: sample_worker_def newSession_def sample_open_def appendEvent_def Let_def availableSlots_def inflightCount_def
      MinMaxInFlight_def MaxMaxInFlight_def)

lemma sample_disp_simps:
  "dp_byQueue sample_disp = (\<lambda>_. [])(''default'' := [''u1''])" "dp_heap sample_disp = (\<lambda>_. sample_worker)" "dp_pool sample_disp = sample_queue"
  "dp_cfg sample_disp = Dispatcher_config ''pod'' (Dispatcher_DefaultConfig ''pod'')"
  by (simp_all add: sample_disp_eq sample_start_def Dispatcher_New_def)

lemma sample_cfg_simps:
  "dc_BatchSize (Dispatcher_config ''pod'' (Dispatcher_DefaultConfig ''pod'')) = 50"
  "dc_HeartbeatBudget (Dispatcher_config ''pod'' (Dispatcher_DefaultConfig ''pod'')) = 5 * minute"
  "dc_PodID (Dispatcher_config ''pod'' (Dispatcher_DefaultConfig ''pod'')) = ''pod''"
  by (simp_all add: Dispatcher_config_def Dispatcher_DefaultConfig_def Let_def)

lemma sample_drain_claim:
  "drain_claim (sample_env ir) ''default'' sample_disp
   = (Some ([(''u1'', 2)], [claimed_row sample_claimed], 5 * minute), sample_disp\<lparr>dp_pool := sample_queue\<lparr>jobs := [sample_claimed]\<rparr>\<rparr>)"
proof -
  have b: "drain_budget ''default'' sample_disp = [(''u1'', 2)]"
    by (simp add: drain_budget_def sample_disp_simps sample_worker_simps)
  have p: "pod_claim sample_disp = ''dispatcher/pod''" by (simp add: pod_claim_def sample_disp_simps sample_cfg_simps)
  have "ClaimRows False (\<lambda>_. False) 0 ''default'' [''shop.Sync''] 2 ''dispatcher/pod'' (5 * minute) WorkerKindDispatched ''pod'' sample_queue
     = (Inr [claimed_row sample_claimed], sample_queue\<lparr>jobs := [sample_claimed]\<rparr>)"
    by (simp add: ClaimRows_def ready_ids_def claimable_def sample_job_simps update_where_def sample_claimed_def)
  then show ?thesis
    by (simp add: drain_claim_def b p Let_def sample_env_def sample_disp_simps sample_worker_simps sample_cfg_simps)
qed


section \<open>Rows a drain does not give back\<close>

text \<open>
  C32: a row rejected at dispatch stays claimed. When the only eligible session is no longer
  authorised for the job, the release names the session although the row is still claimed under
  the pod's name, so it changes nothing: the row keeps running, in flight on no session, and no
  claim can pick it up until its lease has ended.
\<close>

theorem rejected_row_stays_claimed:
  assumes "job_rows (c_ID row) d = [j]" and "j_status j = Running" and "j_claimed_by j = Some (pod_claim d)"
    and "j_claimed_until j = Some u" and "0 < n" and "handlesJob (dp_heap d i) (c_JobName row)"
    and "\<not> authorised (de_row env (c_ID row)) d i (c_JobName row)" and "ss_id (dp_heap d i) \<noteq> dc_PodID (dp_cfg d)"
    and "fair_order (de_ord env)" and "drain_row env q l row ([(i, n)], d) = (b', d')"
  shows "job_rows (c_ID row) d' = [j]
    \<and> (\<forall>k. map_of (ss_inflight (dp_heap d' k)) (c_ID row) = map_of (ss_inflight (dp_heap d k)) (c_ID row))
    \<and> (\<forall>now names. now \<le> u \<longrightarrow> \<not> claimable now q names j)"
proof -
  have len: "length [(i, n)] < 2 ^ 32" by simp
  have c: "pod_claim d \<noteq> claimedBy (dp_heap d i)" using assms(8) by (simp add: pod_claim_def claimedBy_def)
  have "job_rows (c_ID row) d' = [j] \<and> (\<forall>k. map_of (ss_inflight (dp_heap d' k)) (c_ID row) = map_of (ss_inflight (dp_heap d k)) (c_ID row))"
    using assms(10,9) len
  proof (cases rule: drain_row_cases)
    case (nosession x)
    then show ?thesis using assms(5,6) by simp
  next
    case (rejected i' n' x e)
    then have i: "i' = i" by simp
    have "job_rows (c_ID row) (releaseClaimed f now (c_ID row) (claimedBy (dp_heap d i)) why (on_session i (appendEvent e) (d\<lparr>dp_cursor := x\<rparr>))) = [j]" for f now why
      using release_own [of "c_ID row" "on_session i (appendEvent e) (d\<lparr>dp_cursor := x\<rparr>)" j now "claimedBy (dp_heap d i)" why] assms(1,3) c
      by (cases f) (auto simp: releaseClaimed_def ReleaseRow_def job_rows_def)
    then show ?thesis using rejected(4) by (simp add: i)
  next
    case (tried i' n' x)
    then show ?thesis using assms(7) by simp
  qed
  moreover have "\<not> claimable now q names j" if "now \<le> u" for now names
    using that assms(2,4) by (simp add: claimable_def)
  ultimately show ?thesis by blast
qed

theorem rejected_row_stays_claimed_witness:
  "job_rows 1 (snd (drain_row (sample_env (Some [])) ''default'' (5 * minute) (claimed_row sample_claimed)
      ([(''u1'', 2)], sample_disp\<lparr>dp_pool := sample_queue\<lparr>jobs := [sample_claimed]\<rparr>\<rparr>))) = [sample_claimed]
   \<and> \<not> claimable minute ''default'' [] sample_claimed"
proof -
  let ?d = "sample_disp\<lparr>dp_pool := sample_queue\<lparr>jobs := [sample_claimed]\<rparr>\<rparr>" and ?r = "claimed_row sample_claimed"
  have id: "c_ID ?r = 1" "c_JobName ?r = ''shop.Sync''" "j_id sample_claimed = 1"
    by (simp_all add: claimed_row_def sample_claimed_def claim_update_def sample_job_simps)
  obtain b' d' where dr: "drain_row (sample_env (Some [])) ''default'' (5 * minute) ?r ([(''u1'', 2)], ?d) = (b', d')" by fastforce
  have p: "pod_claim ?d = ''dispatcher/pod''" by (simp add: pod_claim_def sample_disp_simps sample_cfg_simps)
  have na: "\<not> authorised (de_row (sample_env (Some [])) (c_ID ?r)) ?d ''u1'' (c_JobName ?r)"
    by (simp add: authorised_def sample_env_def CheckSingleAuthz_def lookupJob_def)
  have sc: "j_status sample_claimed = Running" "j_claimed_by sample_claimed = Some (pod_claim ?d)" "j_claimed_until sample_claimed = Some (5 * minute)"
    unfolding p by (simp_all add: sample_claimed_def)
  have w: "handlesJob (dp_heap ?d ''u1'') (c_JobName ?r)" "ss_id (dp_heap ?d ''u1'') \<noteq> dc_PodID (dp_cfg ?d)"
    by (simp_all add: handlesJob_def id sample_disp_simps sample_worker_simps sample_cfg_simps)
  have "job_rows (c_ID ?r) ?d = [sample_claimed]" by (simp add: job_rows_def id)
  from rejected_row_stays_claimed [OF this sc _ w(1) na w(2) sample_env_ok(1) dr] dr show ?thesis unfolding id by simp
qed

text \<open>
  C33: a worker that stopped reading burns the retries of its queue. When the outbox of the chosen
  session is full, the row goes back to pending with the attempt of this claim counted, although it
  was never sent. The session is marked closed, but it stays in the list of its queue with the same
  free slots and the same full outbox, and keeps its budget in this drain: the next row and the
  next drain choose it again.
\<close>

theorem wedged_worker_burns_attempts:
  assumes "\<not> length (ss_outbox (dp_heap d i)) < ss_outboxCap (dp_heap d i)" and "job_rows (c_ID row) d = [j]"
    and "\<not> re_bind_fails (de_row env (c_ID row))" and "\<not> re_release_fails (de_row env (c_ID row))"
    and "dispatch_row env l row i b d = (b', d')"
  shows "b' = b \<and> (\<exists>j'. job_rows (c_ID row) d' = [j'] \<and> j_status j' = Pending \<and> j_attempts j' = j_attempts j)
    \<and> ss_closed (dp_heap d' i) \<and> dp_byQueue d' = dp_byQueue d \<and> availableSlots (dp_heap d' i) = availableSlots (dp_heap d i)
    \<and> ss_outbox (dp_heap d' i) = ss_outbox (dp_heap d i) \<and> \<not> length (ss_outbox (dp_heap d' i)) < ss_outboxCap (dp_heap d' i)"
proof -
  have bq: "dp_byQueue d' = dp_byQueue d" using dispatch_row_slots [OF assms(5)] by (auto simp: calm_def slot_used_def)
  show ?thesis
    using assms(5)
  proof (cases rule: dispatch_row_cases)
    case bind
    then show ?thesis using assms(3) by simp
  next
    case (full d1 t)
    then obtain u where "job_rows (c_ID row) (on_session i (\<lambda>_. t) d1)
        = [j\<lparr>j_claimed_by := Some (claimedBy (dp_heap d i)), j_session := Some (ss_id (dp_heap d i)), j_claimed_until := u\<rparr>]"
      using assms(2) by fastforce
    from release_own [OF this] full(3) assms(4)
    have "\<exists>j'. job_rows (c_ID row) d' = [j'] \<and> j_status j' = Pending \<and> j_attempts j' = j_attempts j" by simp
    with full bq show ?thesis by simp
  next
    case (sent d1 t)
    then show ?thesis using assms(1) by simp
  qed
qed

lemma availableSlots_outbox: "availableSlots (s\<lparr>ss_outbox := x\<rparr>) = availableSlots s"
  by (simp add: availableSlots_def inflightCount_def)

theorem wedged_worker_burns_attempts_witness:
  "let d = sample_disp\<lparr>dp_pool := sample_queue\<lparr>jobs := [sample_claimed]\<rparr>, dp_heap := (\<lambda>_. sample_worker\<lparr>ss_outbox := replicate 6 (Goodbye [])\<rparr>)\<rparr>;
       d' = snd (dispatch_row (sample_env None) (5 * minute) (claimed_row sample_claimed) ''u1'' [(''u1'', 2)] d)
   in (\<exists>j'. job_rows 1 d' = [j'] \<and> j_status j' = Pending \<and> j_attempts j' = 1) \<and> dp_byQueue d' ''default'' = [''u1'']
    \<and> availableSlots (dp_heap d' ''u1'') = 2"
proof -
  let ?d = "sample_disp\<lparr>dp_pool := sample_queue\<lparr>jobs := [sample_claimed]\<rparr>, dp_heap := (\<lambda>_. sample_worker\<lparr>ss_outbox := replicate 6 (Goodbye [])\<rparr>)\<rparr>"
  have id: "c_ID (claimed_row sample_claimed) = 1" "j_id sample_claimed = 1" "j_attempts sample_claimed = 1"
    by (simp_all add: claimed_row_def sample_claimed_def)
  obtain b' d' where dr: "dispatch_row (sample_env None) (5 * minute) (claimed_row sample_claimed) ''u1'' [(''u1'', 2)] ?d = (b', d')" by fastforce
  have f: "\<not> length (ss_outbox (dp_heap ?d ''u1'')) < ss_outboxCap (dp_heap ?d ''u1'')"
    by (simp add: sample_worker_def newSession_def sample_open_def appendEvent_def Let_def MinMaxInFlight_def MaxMaxInFlight_def)
  have j: "job_rows (c_ID (claimed_row sample_claimed)) ?d = [sample_claimed]" by (simp add: job_rows_def id)
  have a: "availableSlots (dp_heap ?d ''u1'') = 2"
    using sample_worker_simps(2) by (simp add: availableSlots_outbox)
  from wedged_worker_burns_attempts [OF f j _ _ dr] sample_env_ok(2) [of None 1] dr show ?thesis
    unfolding Let_def a id by (simp add: sample_disp_simps(1))
qed

end
