(* ===== verification/DispatchEnd.thy ===== *)
theory DispatchEnd
  imports DispatchRoutes
begin

text \<open>
  Opening and ending a worker's session: who may open one, what the batched lease processor
  writes, what a disconnect and a shutdown leave in the queue, and what a worker that stopped
  reading does to the rows of its queue.
\<close>

section \<open>Opening a session\<close>

text \<open>The check at open is the check at dispatch, for every declared job.\<close>

lemma CheckWorkerAuthz_iff:
  "CheckWorkerAuthz caller aliases names (Some ir) = Inr () \<longleftrightarrow>
     (\<forall>n\<in>set names. CheckSingleAuthz caller aliases n (Some ir) = Inr ())"
proof -
  have "authz_names caller aliases ir names = Inr () \<longleftrightarrow> (\<forall>n\<in>set names. CheckSingleAuthz caller aliases n (Some ir) = Inr ())"
    by (induction names) (auto simp: CheckSingleAuthz_def split: option.splits)
  then show ?thesis by (simp add: CheckWorkerAuthz_def)
qed

text \<open>
  C30: only an authorised worker is registered. If opening a stream succeeds, the first envelope
  was an \<open>Open\<close> with a queue and between 1 and 1024 job names, the loaded schema lets the caller
  (or one of its aliases) handle every one of them, and the new session is registered for that
  queue, idle, and handles exactly these jobs.
\<close>

theorem open_authorised:
  assumes "WorkerSession_open oe env d = (Inr acc, d')"
  shows "\<exists>op ir. w_Open env = Some op \<and> oe_ir oe = Inr (Some ir) \<and> o_Queue op \<noteq> []
    \<and> 1 \<le> length (o_JobNames op) \<and> length (o_JobNames op) \<le> 1024
    \<and> (\<forall>n\<in>set (o_JobNames op). CheckSingleAuthz (oe_caller oe) (oe_aliases oe) n (Some ir) = Inr ())
    \<and> oe_uuid oe \<in> set (dp_sessions d') \<and> oe_uuid oe \<in> set (dp_byQueue d' (o_Queue op))
    \<and> inflightCount (dp_heap d' (oe_uuid oe)) = 0
    \<and> (\<forall>n. handlesJob (dp_heap d' (oe_uuid oe)) n \<longleftrightarrow> n \<in> set (o_JobNames op))"
proof -
  from assms obtain op ir where o: "w_Open env = Some op" "oe_ir oe = Inr ir" "o_Queue op \<noteq> []"
    "length (o_JobNames op) \<noteq> 0" "\<not> length (o_JobNames op) > MaxJobNamesPerOpen"
    "CheckWorkerAuthz (oe_caller oe) (oe_aliases oe) (o_JobNames op) ir = Inr ()"
    and d': "d' = on_session (oe_uuid oe) (appendEvent (event (oe_now oe) ''session_opened'' 0 [] (oe_caller oe)))
      (register (oe_uuid oe) (on_session (oe_uuid oe) (\<lambda>_. newSession (oe_uuid oe) (oe_now oe) op (oe_caller oe) (oe_aliases oe)
         (perJobHeartbeats (o_JobNames op) (case ir of None \<Rightarrow> [] | Some js \<Rightarrow> js))) d))"
    unfolding WorkerSession_open_def Let_def by (auto split: option.splits if_splits sum.splits)
  obtain js where ir: "ir = Some js" using o(6) by (cases ir) (auto simp: CheckWorkerAuthz_def)
  have "\<forall>n\<in>set (o_JobNames op). CheckSingleAuthz (oe_caller oe) (oe_aliases oe) n (Some js) = Inr ()"
    using o(6) unfolding ir CheckWorkerAuthz_iff .
  moreover have "oe_uuid oe \<in> set (dp_sessions d')" "oe_uuid oe \<in> set (dp_byQueue d' (o_Queue op))"
    "inflightCount (dp_heap d' (oe_uuid oe)) = 0"
    "\<forall>n. handlesJob (dp_heap d' (oe_uuid oe)) n \<longleftrightarrow> n \<in> set (o_JobNames op)"
    unfolding d' by (simp_all add: register_def on_session_def Let_def newSession_def appendEvent_def inflightCount_def handlesJob_def)
  ultimately show ?thesis using o(1-5) unfolding ir MaxJobNamesPerOpen_def by (auto simp: Suc_le_eq)
qed

theorem open_authorised_witness:
  "CheckSingleAuthz ''crm'' [] ''shop.Sync'' (Some sample_ir) = Inr () \<and> handlesJob (dp_heap sample_disp ''u1'') ''shop.Sync''"
proof -
  obtain acc where "WorkerSession_open sample_oe sample_open sample_start = (Inr acc, sample_disp)"
    using sample_auth by (auto simp: sample_disp_def WorkerSession_open_def sample_open_def sample_oe_def MaxJobNamesPerOpen_def Let_def)
  from open_authorised [OF this] show ?thesis by (auto simp: sample_open_def sample_oe_def)
qed

section \<open>The lease processor\<close>

definition flush_dur :: "dconfig \<Rightarrow> session \<Rightarrow> int \<Rightarrow> duration" where
  "flush_dur cf s k = leaseDurFor s (i_jobName (the (map_of (ss_inflight s) k))) (dc_HeartbeatBudget cf)"

definition groups_ok :: "dconfig \<Rightarrow> session \<Rightarrow> (duration \<times> int list) list \<Rightarrow> int set \<Rightarrow> bool" where
  "groups_ok cf s g K \<longleftrightarrow> distinct (map fst g) \<and> (\<forall>(dur, ids)\<in>set g. ids \<noteq> [] \<and> (\<forall>k\<in>set ids. dur = flush_dur cf s k))
     \<and> (\<Union>(dur, ids)\<in>set g. set ids) = K"

lemma alist_update_set:
  "distinct (map fst al) \<Longrightarrow> set (AList.update k v al) = insert (k, v) {x \<in> set al. fst x \<noteq> k}"
  by (induction al) (auto simp: image_iff)

lemma groups_add:
  assumes ok: "groups_ok cf s g K" and D: "D = flush_dur cf s k"
    and v: "v = (case map_of g D of None \<Rightarrow> [] | Some ids \<Rightarrow> ids) @ [k]"
  shows "groups_ok cf s (AList.update D v g) (insert k K)"
proof -
  have d: "distinct (map fst g)" and un: "(\<Union>(dur, ids)\<in>set g. set ids) = K" using ok by (auto simp: groups_ok_def)
  have g: "b \<noteq> [] \<and> (\<forall>x\<in>set b. a = flush_dur cf s x)" if "(a, b) \<in> set g" for a b
    using ok that by (auto simp: groups_ok_def)
  have old: "set v = insert k (\<Union>(dur, ids)\<in>{x \<in> set g. fst x = D}. set ids)"
  proof (cases "map_of g D")
    case None
    then have e: "{x \<in> set g. fst x = D} = {}" by (force simp: map_of_eq_None_iff)
    show ?thesis unfolding e v None by simp
  next
    case (Some ids)
    then have e: "{x \<in> set g. fst x = D} = {(D, ids)}" using map_of_is_SomeI [OF d, of D] map_of_SomeD [OF Some] by fastforce
    show ?thesis unfolding e v Some by simp
  qed
  have vD: "v \<noteq> [] \<and> (\<forall>x\<in>set v. D = flush_dur cf s x)" unfolding old using g D by (auto simp: v)
  have mem: "set (AList.update D v g) = insert (D, v) {x \<in> set g. fst x \<noteq> D}" by (rule alist_update_set [OF d])
  have "\<forall>(a, b)\<in>set (AList.update D v g). b \<noteq> [] \<and> (\<forall>x\<in>set b. a = flush_dur cf s x)"
    unfolding mem using g vD by blast
  moreover have "(\<Union>(a, b)\<in>set (AList.update D v g). set b)
      = insert k ((\<Union>(a, b)\<in>{x \<in> set g. fst x = D}. set b) \<union> (\<Union>(a, b)\<in>{x \<in> set g. fst x \<noteq> D}. set b))"
    unfolding mem by (simp add: old)
  moreover have "(\<Union>(a, b)\<in>{x \<in> set g. fst x = D}. set b) \<union> (\<Union>(a, b)\<in>{x \<in> set g. fst x \<noteq> D}. set b) = K"
    unfolding un [symmetric] by blast
  ultimately show ?thesis using distinct_update [OF d] by (simp add: groups_ok_def)
qed

lemma lease_groups_ok: "groups_ok cf s (lease_groups cf s batch) {k \<in> set batch. map_of (ss_inflight s) k \<noteq> None}"
proof (induction batch rule: rev_induct)
  case Nil
  then show ?case by (simp add: lease_groups_def groups_ok_def)
next
  case (snoc k batch)
  show ?case
  proof (cases "map_of (ss_inflight s) k")
    case None
    have "lease_groups cf s (batch @ [k]) = lease_groups cf s batch" using None by (simp add: lease_groups_def)
    moreover have "{j \<in> set (batch @ [k]). map_of (ss_inflight s) j \<noteq> None} = {j \<in> set batch. map_of (ss_inflight s) j \<noteq> None}"
      using None by auto
    ultimately show ?thesis using snoc by simp
  next
    case (Some row)
    have "lease_groups cf s (batch @ [k]) = AList.update (flush_dur cf s k)
        ((case map_of (lease_groups cf s batch) (flush_dur cf s k) of None \<Rightarrow> [] | Some ids \<Rightarrow> ids) @ [k]) (lease_groups cf s batch)"
      using Some by (simp add: lease_groups_def flush_dur_def Let_def)
    moreover have "{j \<in> set (batch @ [k]). map_of (ss_inflight s) j \<noteq> None} = insert k {j \<in> set batch. map_of (ss_inflight s) j \<noteq> None}"
      using Some by auto
    ultimately show ?thesis using groups_add [OF snoc refl refl, of k] by simp
  qed
qed

text \<open>Extending one group after the other is extending all of them at once.\<close>

lemma update_where_twice:
  assumes "\<And>j. P (f j) = P j" and "\<And>j. f (f j) = f j"
  shows "update_where P f (update_where Q f js) = update_where (\<lambda>j. Q j \<or> P j) f js"
  unfolding update_where_def map_map comp_def by (rule map_cong [OF refl]) (simp add: assms)

lemma update_where_cong:
  assumes "\<And>j. j \<in> set js \<Longrightarrow> P j = Q j" and "\<And>j. j \<in> set js \<Longrightarrow> P j \<Longrightarrow> f j = g j"
  shows "update_where P f js = update_where Q g js"
  unfolding update_where_def by (rule map_cong [OF refl]) (simp add: assms)

definition lease_to :: "(int \<Rightarrow> instant) \<Rightarrow> job \<Rightarrow> job" where
  "lease_to D j = j\<lparr>j_claimed_until := Some (D (j_id j))\<rparr>"

definition leased :: "int set \<Rightarrow> string \<Rightarrow> job \<Rightarrow> bool" where
  "leased K who j \<longleftrightarrow> j_id j \<in> K \<and> j_claimed_by j = Some who"

lemma lease_to_simps: "leased K who (lease_to D j) = leased K who j" "lease_to D (lease_to D j) = lease_to D j"
  by (simp_all add: lease_to_def leased_def)

lemma extend_one:
  assumes "ids \<noteq> []" and "\<forall>k\<in>set ids. D k = dbnow + dur div millisecond * millisecond"
  shows "snd (ExtendLease False dbnow ids who dur db) = db\<lparr>jobs := update_where (leased (set ids) who) (lease_to D) (jobs db)\<rparr>"
proof -
  have "update_where (\<lambda>j. j_id j \<in> set ids \<and> j_claimed_by j = Some who)
      (\<lambda>j. j\<lparr>j_claimed_until := Some (dbnow + dur div millisecond * millisecond)\<rparr>) (jobs db)
    = update_where (leased (set ids) who) (lease_to D) (jobs db)"
    by (rule update_where_cong) (use assms(2) in \<open>simp_all add: leased_def lease_to_def\<close>)
  then show ?thesis using assms(1) by (simp add: ExtendLease_def)
qed

lemma extend_groups:
  assumes "\<forall>(dur, ids)\<in>set g. ids \<noteq> [] \<and> (\<forall>k\<in>set ids. D k = dbnow + dur div millisecond * millisecond)"
  shows "foldl (\<lambda>db (dur, ids). snd (ExtendLease False dbnow ids who dur db)) db g
    = db\<lparr>jobs := update_where (leased (\<Union>(dur, ids)\<in>set g. set ids) who) (lease_to D) (jobs db)\<rparr>"
  using assms
proof (induction g arbitrary: db)
  case Nil
  then show ?case by (simp add: update_where_def leased_def)
next
  case (Cons x g)
  obtain dur ids where x: "x = (dur, ids)" by fastforce
  let ?U = "\<Union>(dur, ids)\<in>set g. set ids"
  have e: "snd (ExtendLease False dbnow ids who dur db) = db\<lparr>jobs := update_where (leased (set ids) who) (lease_to D) (jobs db)\<rparr>"
    using Cons.prems by (intro extend_one) (simp_all add: x)
  have "update_where (leased ?U who) (lease_to D) (update_where (leased (set ids) who) (lease_to D) (jobs db))
      = update_where (leased (set ids \<union> ?U) who) (lease_to D) (jobs db)"
    unfolding update_where_twice [of "leased ?U who" "lease_to D", OF lease_to_simps] leased_def
    by (rule update_where_cong) auto
  with Cons.IH [of "snd (ExtendLease False dbnow ids who dur db)"] Cons.prems show ?case by (simp add: x e)
qed

text \<open>
  C29: the batched lease processor extends exactly the right leases. Flushing a batch of heartbeat
  ids, grouped by lease length, changes the table as one statement would: every row of the batch
  that the session still has in flight and still claims is leased for the length of its own job
  (the declared override or the default) from now on, and nothing else changes.
\<close>

theorem lease_flush_exact:
  "lease_flush (\<lambda>_. False) dbnow cf s batch db
   = db\<lparr>jobs := update_where (\<lambda>j. j_id j \<in> set batch \<and> map_of (ss_inflight s) (j_id j) \<noteq> None \<and> j_claimed_by j = Some (claimedBy s))
        (\<lambda>j. j\<lparr>j_claimed_until := Some (dbnow + flush_dur cf s (j_id j) div millisecond * millisecond)\<rparr>) (jobs db)\<rparr>"
proof -
  have g: "groups_ok cf s (lease_groups cf s batch) {k \<in> set batch. map_of (ss_inflight s) k \<noteq> None}" by (rule lease_groups_ok)
  let ?D = "\<lambda>k. dbnow + flush_dur cf s k div millisecond * millisecond"
  let ?K = "{k \<in> set batch. map_of (ss_inflight s) k \<noteq> None}"
  have "\<forall>(dur, ids)\<in>set (lease_groups cf s batch). ids \<noteq> [] \<and> (\<forall>k\<in>set ids. ?D k = dbnow + dur div millisecond * millisecond)"
    using g unfolding groups_ok_def by fastforce
  from extend_groups [OF this] g
  have "lease_flush (\<lambda>_. False) dbnow cf s batch db = db\<lparr>jobs := update_where (leased ?K (claimedBy s)) (lease_to ?D) (jobs db)\<rparr>"
    by (simp add: lease_flush_def groups_ok_def)
  also have "update_where (leased ?K (claimedBy s)) (lease_to ?D) (jobs db)
    = update_where (\<lambda>j. j_id j \<in> set batch \<and> map_of (ss_inflight s) (j_id j) \<noteq> None \<and> j_claimed_by j = Some (claimedBy s))
        (\<lambda>j. j\<lparr>j_claimed_until := Some (dbnow + flush_dur cf s (j_id j) div millisecond * millisecond)\<rparr>) (jobs db)"
    by (rule update_where_cong) (auto simp: leased_def lease_to_def)
  finally show ?thesis .
qed

section \<open>Closing a session\<close>

lemma update_where_once:
  assumes "\<And>j. \<not> P (f j)"
  shows "update_where P f (update_where Q f js) = update_where (\<lambda>j. Q j \<or> P j) f js"
  unfolding update_where_def map_map comp_def by (rule map_cong [OF refl]) (simp add: assms)

lemma requeue_not_leased: "\<not> leased K who (requeue now msg j)"
  by (simp add: leased_def)

lemma release_pool:
  "dp_pool (releaseClaimed False now k who reason d)
   = (dp_pool d)\<lparr>jobs := update_where (leased {k} who) (requeue now (''released:'' @ reason)) (jobs (dp_pool d))\<rparr>"
proof -
  have "(\<lambda>j. j_id j = k \<and> j_claimed_by j = Some who) = leased {k} who" by (auto simp: leased_def)
  then show ?thesis by (simp add: releaseClaimed_def ReleaseRow_def)
qed

text \<open>Releasing rows one by one is one bulk release.\<close>

lemma requeue_union:
  "update_where (leased B who) (requeue now msg) (update_where (leased A who) (requeue now msg) js)
   = update_where (leased (A \<union> B) who) (requeue now msg) js"
  unfolding update_where_once [of "leased B who", OF requeue_not_leased] leased_def by (rule update_where_cong) auto

lemma releases_pool:
  "dp_pool (foldl (\<lambda>d row. releaseClaimed False now (i_jobID row) who reason d) d rows)
   = (dp_pool d)\<lparr>jobs := update_where (leased (i_jobID ` set rows) who) (requeue now (''released:'' @ reason)) (jobs (dp_pool d))\<rparr>"
proof (induction rows arbitrary: d)
  case Nil
  then show ?case by (simp add: update_where_def leased_def)
next
  case (Cons row rows)
  show ?case unfolding foldl_Cons Cons.IH release_pool by (simp add: requeue_union)
qed

text \<open>
  C28: a disconnect gives the rows back. When a session ends and the database answers, exactly the
  rows it had in flight and still claimed are pending again, with their attempts kept; every other
  row is as it was, and no registry entry or owner entry for the session's rows remains.
\<close>

theorem unregister_releases:
  assumes "session_ok (dp_heap d i)" and "d' = unregister (\<lambda>_. False) now dbnow i reason d"
  shows "jobs (dp_pool d') = update_where (\<lambda>j. map_of (ss_inflight (dp_heap d i)) (j_id j) \<noteq> None
             \<and> j_claimed_by j = Some (claimedBy (dp_heap d i))) (requeue dbnow (''released:'' @ reason)) (jobs (dp_pool d))
    \<and> i \<notin> set (dp_sessions d') \<and> i \<notin> set (dp_byQueue d' (ss_queue (dp_heap d i)))
    \<and> (\<forall>k. map_of (ss_inflight (dp_heap d i)) k \<noteq> None \<longrightarrow> dp_owner d' k = None)"
proof -
  let ?s = "dp_heap d i"
  let ?rows = "snapshotInflight ?s"
  have "set (map i_jobID ?rows) = set (map fst (ss_inflight ?s))" unfolding snapshotInflight_ids [OF assms(1)] ..
  then have ids: "i_jobID ` set ?rows = {k. map_of (ss_inflight ?s) k \<noteq> None}" by (auto simp: map_of_eq_None_iff)
  let ?d1 = "d\<lparr>dp_sessions := filter (\<lambda>x. x \<noteq> i) (dp_sessions d),
       dp_byQueue := (dp_byQueue d)(ss_queue ?s := filter (\<lambda>x. x \<noteq> i) (dp_byQueue d (ss_queue ?s))),
       dp_owner := (dp_owner d) |` (- set (map i_jobID ?rows))\<rparr>"
  let ?d2 = "foldl (\<lambda>d row. releaseClaimed False dbnow (i_jobID row) (claimedBy ?s) reason d) ?d1 ?rows"
  have owner: "dp_owner (foldl (\<lambda>d row. releaseClaimed False dbnow (i_jobID row) who reason d) d0 rows) = dp_owner d0" for d0 rows who
    by (induction rows arbitrary: d0) simp_all
  have d': "d' = on_session i (\<lambda>s. appendEvent (event now ''session_closed'' 0 [] reason) (session_close s)) ?d2"
    using assms(2) by (simp add: unregister_def Let_def)
  have "dp_owner d' k = None" if "map_of (ss_inflight ?s) k \<noteq> None" for k
    using that ids unfolding d' by (auto simp: owner restrict_map_def)
  moreover have "jobs (dp_pool d') = update_where (leased (i_jobID ` set ?rows) (claimedBy ?s)) (requeue dbnow (''released:'' @ reason)) (jobs (dp_pool d))"
    unfolding d' by (simp add: releases_pool)
  moreover have "update_where (leased (i_jobID ` set ?rows) (claimedBy ?s)) (requeue dbnow (''released:'' @ reason)) (jobs (dp_pool d))
     = update_where (\<lambda>j. map_of (ss_inflight ?s) (j_id j) \<noteq> None \<and> j_claimed_by j = Some (claimedBy ?s)) (requeue dbnow (''released:'' @ reason)) (jobs (dp_pool d))"
    unfolding ids by (rule update_where_cong) (auto simp: leased_def)
  ultimately show ?thesis
    using unregister_parts(1,2) [of "\<lambda>_. False" now dbnow i reason d] assms(2) by auto
qed

text \<open>The sample worker with the sample job in flight.\<close>

definition sample_bound :: job where
  "sample_bound = sample_claimed\<lparr>j_claimed_by := Some ''dispatcher/u1'', j_session := Some ''u1''\<rparr>"

definition sample_row :: inflightRow where
  "sample_row = \<lparr>i_jobID = 1, i_jobName = ''shop.Sync'', i_dispatchedAt = 0, i_leaseUntil = 5 * minute, i_ackReceived = False,
     i_ackBy = 150 * second, i_timeoutMS = 1000\<rparr>"

definition sample_busy :: dispatcher where
  "sample_busy = sample_disp\<lparr>dp_pool := sample_queue\<lparr>jobs := [sample_bound]\<rparr>, dp_owner := [1 \<mapsto> ''u1''],
     dp_heap := (\<lambda>_. sample_worker\<lparr>ss_inflight := [(1, sample_row)], ss_inflightCounter := 1\<rparr>)\<rparr>"

lemma sample_bound_simps:
  "j_id sample_bound = 1" "j_claimed_by sample_bound = Some ''dispatcher/u1''"
  by (simp_all add: sample_bound_def sample_claimed_def)

lemma sample_busy_ok: "session_ok (dp_heap sample_busy i)"
  by (simp add: sample_busy_def sample_worker_def session_ok_def newSession_def sample_open_def appendEvent_def Let_def
      MinMaxInFlight_def MaxMaxInFlight_def sessionEventCap_def leaseEnqueueCap_def sample_row_def)

lemma sample_busy_simps:
  "ss_inflight (dp_heap sample_busy i) = [(1, sample_row)]" "claimedBy (dp_heap sample_busy i) = ''dispatcher/u1''"
  "jobs (dp_pool sample_busy) = [sample_bound]"
  by (simp_all add: sample_busy_def claimedBy_def sample_worker_simps)

theorem unregister_releases_witness:
  "jobs (dp_pool (unregister (\<lambda>_. False) 0 0 ''u1'' ''stream_closed'' sample_busy)) = [requeue 0 ''released:stream_closed'' sample_bound]"
  using unregister_releases [OF sample_busy_ok refl, of 0 0 "''u1''" "''stream_closed''"]
  by (simp add: sample_busy_simps update_where_def sample_bound_simps)

section \<open>Shutdown\<close>

definition none_held :: "dispatcher \<Rightarrow> string list \<Rightarrow> bool" where
  "none_held d ids \<longleftrightarrow> (\<forall>i\<in>set ids. \<forall>j\<in>set (jobs (dp_pool d)).
     \<not> leased (i_jobID ` set (snapshotInflight (dp_heap d i))) (claimedBy (dp_heap d i)) j)"

lemma offer_parts [simp]: "ss_inflight (snd (offer e s)) = ss_inflight s" "ss_id (snd (offer e s)) = ss_id s" "claimedBy (snd (offer e s)) = claimedBy s"
  by (simp_all add: offer_def claimedBy_def)

lemma close_parts [simp]: "ss_inflight (session_close s) = ss_inflight s" "ss_id (session_close s) = ss_id s" "claimedBy (session_close s) = claimedBy s"
  by (simp_all add: session_close_def claimedBy_def)

lemma force_row_parts:
  assumes "force_row (\<lambda>_. False) dbnow i (n, d) row = (n', d')"
  shows "jobs (dp_pool d') = update_where (leased {i_jobID row} (claimedBy (dp_heap d i))) (requeue dbnow (''released:'' @ ''shutdown_budget_exceeded'')) (jobs (dp_pool d))"
    and "ss_inflight (dp_heap d' k) = ss_inflight (dp_heap d k)" and "claimedBy (dp_heap d' k) = claimedBy (dp_heap d k)"
proof -
  have l: "(\<lambda>j. j_id j = i_jobID row \<and> j_claimed_by j = Some who) = leased {i_jobID row} who" for who by (auto simp: leased_def)
  show "jobs (dp_pool d') = update_where (leased {i_jobID row} (claimedBy (dp_heap d i))) (requeue dbnow (''released:'' @ ''shutdown_budget_exceeded'')) (jobs (dp_pool d))"
    "ss_inflight (dp_heap d' k) = ss_inflight (dp_heap d k)" "claimedBy (dp_heap d' k) = claimedBy (dp_heap d k)"
    using assms by (auto simp: force_row_def Let_def ReleaseRow_def l split: if_splits)
qed

lemma force_rows_parts:
  assumes "foldl (force_row (\<lambda>_. False) dbnow i) (n, d) rows = (n', d')"
  shows "jobs (dp_pool d') = update_where (leased (i_jobID ` set rows) (claimedBy (dp_heap d i))) (requeue dbnow (''released:'' @ ''shutdown_budget_exceeded'')) (jobs (dp_pool d))
    \<and> (\<forall>k. ss_inflight (dp_heap d' k) = ss_inflight (dp_heap d k) \<and> claimedBy (dp_heap d' k) = claimedBy (dp_heap d k))"
  using assms
proof (induction rows arbitrary: n d)
  case Nil
  then show ?case by (auto simp: update_where_def leased_def)
next
  case (Cons row rows)
  obtain n1 d1 where s: "force_row (\<lambda>_. False) dbnow i (n, d) row = (n1, d1)" by fastforce
  note p = force_row_parts [OF s]
  from Cons.prems s have "foldl (force_row (\<lambda>_. False) dbnow i) (n1, d1) rows = (n', d')" by simp
  from Cons.IH [OF this] show ?case by (simp add: p requeue_union)
qed

lemma force_all_parts:
  assumes "foldl (\<lambda>(released, d) i. (let (r1, d1) = foldl (force_row (\<lambda>_. False) dbnow i) (released, d) (snapshotInflight (dp_heap d i))
        in (r1, on_session i session_close d1))) (n, d) ids = (n', d')"
  shows "(\<forall>k. ss_inflight (dp_heap d' k) = ss_inflight (dp_heap d k) \<and> claimedBy (dp_heap d' k) = claimedBy (dp_heap d k))
    \<and> (\<forall>K who. (\<forall>j\<in>set (jobs (dp_pool d)). \<not> leased K who j) \<longrightarrow> (\<forall>j\<in>set (jobs (dp_pool d')). \<not> leased K who j))
    \<and> none_held d' ids"
  using assms
proof (induction ids arbitrary: n d)
  case Nil
  then show ?case by (auto simp: none_held_def)
next
  case (Cons i ids)
  obtain n1 d1 where s: "foldl (force_row (\<lambda>_. False) dbnow i) (n, d) (snapshotInflight (dp_heap d i)) = (n1, d1)" by fastforce
  let ?d2 = "on_session i session_close d1" and ?K = "i_jobID ` set (snapshotInflight (dp_heap d i))" and ?w = "claimedBy (dp_heap d i)"
  note p = force_rows_parts [OF s]
  have same: "ss_inflight (dp_heap ?d2 k) = ss_inflight (dp_heap d k)" "claimedBy (dp_heap ?d2 k) = claimedBy (dp_heap d k)" for k
    using p by auto
  have j2: "jobs (dp_pool ?d2) = update_where (leased ?K ?w) (requeue dbnow (''released:'' @ ''shutdown_budget_exceeded'')) (jobs (dp_pool d))"
    using p by simp
  have keep: "\<forall>j\<in>set (jobs (dp_pool ?d2)). \<not> leased K who j" if "\<forall>j\<in>set (jobs (dp_pool d)). \<not> leased K who j" for K who
    using that unfolding j2 set_update_where by (auto simp: requeue_not_leased)
  have own: "\<forall>j\<in>set (jobs (dp_pool ?d2)). \<not> leased ?K ?w j"
    unfolding j2 set_update_where by (auto simp: requeue_not_leased)
  from Cons.prems s have f: "foldl (\<lambda>(released, d) i. (let (r1, d1) = foldl (force_row (\<lambda>_. False) dbnow i) (released, d) (snapshotInflight (dp_heap d i))
        in (r1, on_session i session_close d1))) (n1, ?d2) ids = (n', d')" by (simp add: Let_def)
  note ih = Cons.IH [OF f, THEN conjunct1] Cons.IH [OF f, THEN conjunct2, THEN conjunct1, THEN spec, THEN spec, THEN mp]
    Cons.IH [OF f, THEN conjunct2, THEN conjunct2]
  have fin: "ss_inflight (dp_heap d' k) = ss_inflight (dp_heap d k)" "claimedBy (dp_heap d' k) = claimedBy (dp_heap d k)" for k
    using ih(1) same by simp_all
  have "\<forall>j\<in>set (jobs (dp_pool d')). \<not> leased ?K ?w j" by (rule ih(2) [OF own])
  then have "none_held d' (i # ids)" using ih(3) fin [of i] unfolding none_held_def snapshotInflight_def by (simp add: claimedBy_def)
  moreover have "\<forall>j\<in>set (jobs (dp_pool d')). \<not> leased K who j" if "\<forall>j\<in>set (jobs (dp_pool d)). \<not> leased K who j" for K who
    by (rule ih(2) [OF keep [OF that]])
  ultimately show ?case using fin by simp
qed

lemma shutdown_loop_returns:
  assumes "\<exists>(t, c, m)\<in>set polls. t > deadline"
  shows "\<exists>n d'. shutdown_loop (\<lambda>_. False) dbnow deadline ids polls d = (Some n, d')
    \<and> (sum_list (map (\<lambda>i. inflightCount (dp_heap d' i)) ids) = 0 \<or> none_held d' ids)"
  using assms
proof (induction polls arbitrary: d)
  case (Cons p polls)
  obtain t c m where p: "p = (t, c, m)" by (rule prod_cases3)
  show ?case
  proof (cases "sum_list (map (\<lambda>i. inflightCount (dp_heap d i)) ids) = 0")
    case False
    show ?thesis
    proof (cases "t > deadline \<or> c")
      case True
      obtain n d' where f: "forceReleaseAll (\<lambda>_. False) dbnow ids d = (n, d')" by fastforce
      then have "none_held d' ids" using force_all_parts [of dbnow 0 d ids n d'] by (simp add: forceReleaseAll_def)
      with True False f show ?thesis by (auto simp: p)
    next
      case nt: False
      with Cons.prems have "\<exists>(t, c, m)\<in>set polls. t > deadline" by (auto simp: p)
      from Cons.IH [OF this, of "m d"] False nt show ?thesis by (simp add: p)
    qed
  qed (simp add: p)
qed simp



end
