(* ===== verification/SimTable.thy ===== *)
theory SimTable
  imports Keys "HOL-Library.AList"
begin

text \<open>
  The storage layer of the sandbox simulator: \<open>internal/runtime/sandbox/sim/catalog.go\<close>
  and \<open>internal/runtime/sandbox/sim/table.go\<close>.

  \<^item> \<open>simval\<close> is a Go \<open>any\<close> with its dynamic type, because the executor switches on that
    type: an \<open>int64\<close> and an \<open>int\<close> of the same value are different values here.
  \<^item> A \<open>RowMap\<close> lives in a store \<open>rheap\<close>, and a table holds its address: marks, forks and
    live tables may hold the same address, which is what copy-on-write is about. A Go map
    is an association list with distinct keys; every reader of the code sorts the keys, so
    the order of the list is not observable.
  \<^item> A stored row is never written in place by the code (\<open>Insert\<close> and \<open>Update\<close> copy it
    first), so a row is a value and not an object of the store.
\<close>

section \<open>Values\<close>

datatype int_kind = KInt | KInt32 | KUint | KUint32 | KUint64

datatype simval =
    Nil_val
  | Int64_val int
  | Intk_val int_kind int
  | String_val string
  | Bool_val bool
  | Time_val instant
  | Bytes_val bytes
  | Float64_val "64 word"
  | Float32_val "32 word"
  | Float32s_val "32 word list"
  | Float64s_val "64 word list"
  | Int64s_val "int list"
  | Strings_val "string list"
  | Bools_val "bool list"
  | Anys_val "simval list"
  | Map_val "(string \<times> simval) list"

type_synonym row = "simval list"

text \<open>\<open>fmt.Sprintf("\%v", v)\<close>; \<open>fmt\<close> prints a map with its keys sorted.\<close>

abbreviation bracketed :: "string list \<Rightarrow> string" where
  "bracketed xs \<equiv> ''['' @ join '' '' xs @ '']''"

abbreviation show_bool :: "bool \<Rightarrow> string" where
  "show_bool b \<equiv> (if b then ''true'' else ''false'')"

fun sprintv :: "go_fmt \<Rightarrow> simval \<Rightarrow> string" where
  "sprintv F Nil_val = ''<nil>''"
| "sprintv F (Int64_val n) = dec_int n"
| "sprintv F (Intk_val k n) = dec_int n"
| "sprintv F (String_val s) = s"
| "sprintv F (Bool_val b) = show_bool b"
| "sprintv F (Time_val t) = fmt_time F t"
| "sprintv F (Bytes_val b) = bracketed (map (\<lambda>c. dec_nat (of_char c)) b)"
| "sprintv F (Float64_val x) = fmt_float64 F x"
| "sprintv F (Float32_val x) = fmt_float32 F x"
| "sprintv F (Float32s_val xs) = bracketed (map (fmt_float32 F) xs)"
| "sprintv F (Float64s_val xs) = bracketed (map (fmt_float64 F) xs)"
| "sprintv F (Int64s_val xs) = bracketed (map dec_int xs)"
| "sprintv F (Strings_val xs) = bracketed xs"
| "sprintv F (Bools_val xs) = bracketed (map show_bool xs)"
| "sprintv F (Anys_val xs) = bracketed (map (sprintv F) xs)"
| "sprintv F (Map_val kvs) =
     ''map'' @ bracketed (map snd (sort_key fst (map (\<lambda>(k, v). (k, k @ '':'' @ sprintv F v)) kvs)))"

section \<open>The catalog\<close>

datatype ColKind = KindUnknown | KindInt64 | KindString | KindBool | KindTime | KindBytes
  | KindNumeric | KindVector | KindArray

primrec ColKind_num :: "ColKind \<Rightarrow> nat" where
  "ColKind_num KindUnknown = 0"
| "ColKind_num KindInt64 = 1"
| "ColKind_num KindString = 2"
| "ColKind_num KindBool = 3"
| "ColKind_num KindTime = 4"
| "ColKind_num KindBytes = 5"
| "ColKind_num KindNumeric = 6"
| "ColKind_num KindVector = 7"
| "ColKind_num KindArray = 8"

record Column =
  cl_name :: string
  cl_kind :: ColKind
  cl_nullable :: bool

record TableDesc =
  td_schema :: string
  td_name :: string
  td_cols :: "Column list"
  td_pkcols :: "string list"
  td_soft_delete :: string
  td_touch :: string
  td_partition :: string
  td_time :: string
  td_identity :: string

definition Desc_Qualified :: "TableDesc \<Rightarrow> string" where
  "Desc_Qualified d = td_schema d @ ''.'' @ td_name d"

text \<open>The result \<open>-1\<close> of \<open>ColIndex\<close> is \<open>None\<close>.\<close>

fun col_index_loop :: "nat \<Rightarrow> Column list \<Rightarrow> string \<Rightarrow> nat option" where
  "col_index_loop i [] name = None"
| "col_index_loop i (c # cs) name =
     (if cl_name c = name then Some i else col_index_loop (Suc i) cs name)"

definition ColIndex :: "TableDesc \<Rightarrow> string \<Rightarrow> nat option" where
  "ColIndex d name = col_index_loop 0 (td_cols d) name"

definition IsPKCol :: "TableDesc \<Rightarrow> string \<Rightarrow> bool" where
  "IsPKCol d name = list_ex (\<lambda>p. p = name) (td_pkcols d)"

text \<open>The catalog's map from qualified names to descriptors.\<close>

type_synonym Catalog = "(string \<times> TableDesc) list"

datatype sim_err =
    ErrNoRows
  | ErrPKConflict
  | ErrColumnNotFound
  | ErrTableNotFound
  | ErrUnsupported
  | ErrCatalog string
  | ErrPKMissing
  | ErrPKNull
  | ErrNotBound
  | ErrExec string
  | ErrScan string
  | GoPanic

definition NewCatalog :: Catalog where
  "NewCatalog = []"

definition Lookup :: "Catalog \<Rightarrow> string \<Rightarrow> TableDesc option" where
  "Lookup c qualified = map_of c qualified"

definition RegisterTable :: "TableDesc \<Rightarrow> Catalog \<Rightarrow> sim_err option \<times> Catalog" where
  "RegisterTable d c =
     (if td_schema d = [] \<or> td_name d = [] then (Some (ErrCatalog ''needs Schema and Name''), c)
      else if td_pkcols d = [] then (Some (ErrCatalog ''no PK''), c)
      else if list_ex (\<lambda>p. ColIndex d p = None) (td_pkcols d)
        then (Some (ErrCatalog ''PK column not declared''), c)
      else if map_of c (Desc_Qualified d) \<noteq> None
        then (Some (ErrCatalog ''already registered''), c)
      else (None, AList.update (Desc_Qualified d) d c))"

definition QualifiedNames :: "Catalog \<Rightarrow> string list" where
  "QualifiedNames c = sort (map fst c)"

definition show_column :: "Column \<Rightarrow> string" where
  "show_column c =
     cl_name c @ '':'' @ dec_nat (ColKind_num (cl_kind c)) @ '':'' @ show_bool (cl_nullable c)"

definition canonical :: "TableDesc \<Rightarrow> string" where
  "canonical d =
     Desc_Qualified d @ ''|cols='' @ join '','' (map show_column (td_cols d))
     @ ''|pk='' @ join '','' (td_pkcols d)
     @ ''|sd='' @ td_soft_delete d @ ''|tu='' @ td_touch d @ ''|p='' @ td_partition d
     @ ''|tf='' @ td_time d @ ''|id='' @ td_identity d"

text \<open>SHA-256 with the hexadecimal rendering of the digest is an argument.\<close>

definition Signature :: "(bytes \<Rightarrow> string) \<Rightarrow> Catalog \<Rightarrow> string" where
  "Signature sha256_hex c =
     sha256_hex (concat (map (\<lambda>n. case Lookup c n of
         None \<Rightarrow> []
       | Some d \<Rightarrow> canonical d @ [CHR 0x0A]) (QualifiedNames c)))"

section \<open>Row maps and tables\<close>

record RowMap =
  rm_m :: "(string \<times> row) list"
  rm_shared :: bool

type_synonym rheap = "RowMap list"

record Table =
  tb_desc :: TableDesc
  tb_rows :: nat
  tb_serial :: int

abbreviation empty_map :: RowMap where
  "empty_map \<equiv> \<lparr>rm_m = [], rm_shared = False\<rparr>"

definition RowMap_Snapshot :: "rheap \<Rightarrow> nat \<Rightarrow> (string \<times> row) list" where
  "RowMap_Snapshot h a = rm_m (h ! a)"

definition NewTable :: "TableDesc \<Rightarrow> rheap \<Rightarrow> Table \<times> rheap" where
  "NewTable d h = (\<lparr>tb_desc = d, tb_rows = length h, tb_serial = 0\<rparr>, h @ [empty_map])"

definition CurrentRows :: "Table \<Rightarrow> rheap \<Rightarrow> nat \<times> rheap" where
  "CurrentRows t h = (tb_rows t, h[tb_rows t := (h ! tb_rows t)\<lparr>rm_shared := True\<rparr>])"

definition ReplaceRows :: "nat \<Rightarrow> Table \<Rightarrow> Table" where
  "ReplaceRows a t = t\<lparr>tb_rows := a\<rparr>"

text \<open>
  \<open>PKKey\<close>: the loop over the key columns, then the parts joined with a zero byte. A table
  without key columns would index \<open>parts[0]\<close> out of range.
\<close>

fun pk_parts :: "go_fmt \<Rightarrow> TableDesc \<Rightarrow> row \<Rightarrow> string list \<Rightarrow> sim_err + string list" where
  "pk_parts F d r [] = Inr []"
| "pk_parts F d r (pk # pks) =
     (case ColIndex d pk of
        None \<Rightarrow> Inl ErrPKMissing
      | Some idx \<Rightarrow>
          if idx \<ge> length r then Inl ErrPKMissing
          else if r ! idx = Nil_val then Inl ErrPKNull
          else case pk_parts F d r pks of
                 Inl e \<Rightarrow> Inl e
               | Inr ps \<Rightarrow> Inr (sprintv F (r ! idx) # ps))"

definition zero_join :: "string list \<Rightarrow> string" where
  "zero_join parts =
     (if length parts = 1 then hd parts
      else foldl (\<lambda>out p. out @ [CHR 0x00] @ p) (hd parts) (tl parts))"

definition PKKey :: "go_fmt \<Rightarrow> TableDesc \<Rightarrow> row \<Rightarrow> sim_err + string" where
  "PKKey F d r =
     (case pk_parts F d r (td_pkcols d) of
        Inl e \<Rightarrow> Inl e
      | Inr parts \<Rightarrow> if parts = [] then Inl GoPanic else Inr (zero_join parts))"

definition writable :: "Table \<Rightarrow> rheap \<Rightarrow> Table \<times> rheap" where
  "writable t h =
     (if \<not> rm_shared (h ! tb_rows t) then (t, h)
      else (t\<lparr>tb_rows := length h\<rparr>, h @ [\<lparr>rm_m = rm_m (h ! tb_rows t), rm_shared = False\<rparr>]))"

text \<open>Writing the map the table points at.\<close>

definition set_map :: "Table \<Rightarrow> ((string \<times> row) list \<Rightarrow> (string \<times> row) list) \<Rightarrow> rheap \<Rightarrow> rheap" where
  "set_map t f h = h[tb_rows t := (h ! tb_rows t)\<lparr>rm_m := f (rm_m (h ! tb_rows t))\<rparr>]"

definition Table_Insert :: "go_fmt \<Rightarrow> row \<Rightarrow> Table \<Rightarrow> rheap \<Rightarrow> (sim_err + string) \<times> Table \<times> rheap" where
  "Table_Insert F r t h =
     (case PKKey F (tb_desc t) r of
        Inl e \<Rightarrow> (Inl e, t, h)
      | Inr key \<Rightarrow>
          (case writable t h of (t, h) \<Rightarrow>
             if map_of (rm_m (h ! tb_rows t)) key \<noteq> None then (Inl ErrPKConflict, t, h)
             else (Inr key, t, set_map t (AList.update key r) h)))"

definition Table_Get :: "string \<Rightarrow> Table \<Rightarrow> rheap \<Rightarrow> row option" where
  "Table_Get key t h = map_of (rm_m (h ! tb_rows t)) key"

text \<open>The patch is a Go map: distinct columns, so the order of the loop does not matter.\<close>

fun patch_loop :: "TableDesc \<Rightarrow> (string \<times> simval) list \<Rightarrow> row \<Rightarrow> row option" where
  "patch_loop d [] cp = Some cp"
| "patch_loop d ((col, v) # patch) cp =
     (case ColIndex d col of
        None \<Rightarrow> patch_loop d patch cp
      | Some idx \<Rightarrow> if idx \<ge> length cp then None else patch_loop d patch (cp[idx := v]))"

definition Table_Update ::
  "string \<Rightarrow> (string \<times> simval) list \<Rightarrow> Table \<Rightarrow> rheap \<Rightarrow> (sim_err + int) \<times> Table \<times> rheap" where
  "Table_Update key patch t h =
     (case writable t h of (t, h) \<Rightarrow>
        case map_of (rm_m (h ! tb_rows t)) key of
          None \<Rightarrow> (Inr 0, t, h)
        | Some r \<Rightarrow>
            (case patch_loop (tb_desc t) patch r of
               None \<Rightarrow> (Inl GoPanic, t, h)
             | Some cp \<Rightarrow> (Inr 1, t, set_map t (AList.update key cp) h)))"

definition Table_Delete :: "string \<Rightarrow> Table \<Rightarrow> rheap \<Rightarrow> int \<times> Table \<times> rheap" where
  "Table_Delete key t h =
     (case writable t h of (t, h) \<Rightarrow>
        case map_of (rm_m (h ! tb_rows t)) key of
          None \<Rightarrow> (0, t, h)
        | Some r \<Rightarrow> (1, t, set_map t (AList.delete key) h))"

definition Table_Len :: "Table \<Rightarrow> rheap \<Rightarrow> int" where
  "Table_Len t h = int (length (rm_m (h ! tb_rows t)))"

definition NextSerial :: "Table \<Rightarrow> int \<times> Table" where
  "NextSerial t = (wrap64 (tb_serial t + 1), t\<lparr>tb_serial := wrap64 (tb_serial t + 1)\<rparr>)"

text \<open>
  The loop of \<open>Scan\<close> and \<open>ScanKeyed\<close> over the sorted keys. \<open>rd\<close> reads \<open>rm.m[k]\<close> when the
  loop gets there: the callback of an \<open>UPDATE\<close> writes the map the loop runs over.
\<close>

fun scan_loop ::
  "('s \<Rightarrow> string \<Rightarrow> row option) \<Rightarrow> (string \<Rightarrow> row \<Rightarrow> 's \<Rightarrow> sim_err option \<times> 's)
   \<Rightarrow> string list \<Rightarrow> 's \<Rightarrow> sim_err option \<times> 's" where
  "scan_loop rd fn [] s = (None, s)"
| "scan_loop rd fn (k # ks) s =
     (case rd s k of
        None \<Rightarrow> scan_loop rd fn ks s
      | Some r \<Rightarrow>
          (case fn k r s of
             (Some e, s') \<Rightarrow> (Some e, s')
           | (None, s') \<Rightarrow> scan_loop rd fn ks s'))"

definition scan_keys :: "Table \<Rightarrow> rheap \<Rightarrow> string list" where
  "scan_keys t h = sort_loop (map fst (rm_m (h ! tb_rows t)))"

text \<open>\<open>Scan\<close> with a callback that does not write tables; \<open>'s\<close> is what the callback captures.\<close>

definition Scan ::
  "(row \<Rightarrow> 's \<Rightarrow> sim_err option \<times> 's) \<Rightarrow> Table \<Rightarrow> rheap \<Rightarrow> 's \<Rightarrow> sim_err option \<times> 's" where
  "Scan fn t h s =
     scan_loop (\<lambda>_ k. map_of (rm_m (h ! tb_rows t)) k) (\<lambda>k r. fn r) (scan_keys t h) s"

text \<open>\<open>ScanKeyed\<close>; \<open>hp\<close> reads the store out of the callback's state.\<close>

definition ScanKeyed ::
  "('s \<Rightarrow> rheap) \<Rightarrow> (string \<Rightarrow> row \<Rightarrow> 's \<Rightarrow> sim_err option \<times> 's) \<Rightarrow> Table \<Rightarrow> 's
   \<Rightarrow> sim_err option \<times> 's" where
  "ScanKeyed hp fn t s =
     scan_loop (\<lambda>s k. map_of (rm_m (hp s ! tb_rows t)) k) fn (scan_keys t (hp s)) s"

section \<open>Columns\<close>

lemma set_AList_update: "x \<in> set (AList.update k v m) \<Longrightarrow> x = (k, v) \<or> x \<in> set m"
  by (induction m) (auto split: if_splits)

lemma col_index_loop_Some:
  "col_index_loop i cs name = Some j \<Longrightarrow> i \<le> j \<and> j - i < length cs \<and> cl_name (cs ! (j - i)) = name"
proof (induction i cs name rule: col_index_loop.induct)
  case (2 i c cs name)
  show ?case
  proof (cases "cl_name c = name")
    case False
    with 2 have "Suc i \<le> j \<and> j - Suc i < length cs \<and> cl_name (cs ! (j - Suc i)) = name" by simp
    moreover from this have "j - i = Suc (j - Suc i)" by arith
    ultimately show ?thesis by simp
  qed (use 2 in simp)
qed simp

lemma ColIndex_Some: "ColIndex d name = Some j \<Longrightarrow> j < length (td_cols d) \<and> cl_name (td_cols d ! j) = name"
  using col_index_loop_Some [of 0] by (fastforce simp: ColIndex_def)

lemma ColIndex_inj: "ColIndex d a = Some j \<Longrightarrow> ColIndex d b = Some j \<Longrightarrow> a = b"
  using ColIndex_Some by blast

lemma IsPKCol_iff [simp]: "IsPKCol d name \<longleftrightarrow> name \<in> set (td_pkcols d)"
  by (auto simp: IsPKCol_def list_ex_iff)

text \<open>What \<open>RegisterTable\<close> guarantees of a descriptor in the catalog.\<close>

definition desc_ok :: "TableDesc \<Rightarrow> bool" where
  "desc_ok d \<longleftrightarrow> td_pkcols d \<noteq> [] \<and> list_all (\<lambda>p. ColIndex d p \<noteq> None) (td_pkcols d)"

definition catalog_ok :: "Catalog \<Rightarrow> bool" where
  "catalog_ok c \<longleftrightarrow> distinct (map fst c) \<and> list_all (\<lambda>(n, d). n = Desc_Qualified d \<and> desc_ok d) c"

lemma catalog_ok_Lookup: "catalog_ok c \<Longrightarrow> Lookup c n = Some d \<Longrightarrow> n = Desc_Qualified d \<and> desc_ok d"
  by (auto simp: catalog_ok_def Lookup_def list_all_iff dest: map_of_SomeD)

lemma NewCatalog_ok [simp]: "catalog_ok NewCatalog"
  by (simp add: catalog_ok_def NewCatalog_def)

lemma RegisterTable_ok: "catalog_ok c \<Longrightarrow> catalog_ok (snd (RegisterTable d c))"
  by (auto simp: RegisterTable_def catalog_ok_def desc_ok_def list_all_iff list_ex_iff
      AList.update_conv' AList.distinct_update dest!: set_AList_update)

lemma RegisterTable_extends: "Lookup c n = Some e \<Longrightarrow> Lookup (snd (RegisterTable d c)) n = Some e"
  by (auto simp: RegisterTable_def Lookup_def AList.update_conv')

lemma Lookup_QualifiedNames: "n \<in> set (QualifiedNames c) \<longleftrightarrow> Lookup c n \<noteq> None"
  by (simp add: QualifiedNames_def Lookup_def map_of_eq_None_iff)

section \<open>Keys of rows\<close>

lemma pk_parts_cong:
  assumes "length r = length r'"
    and "\<And>pk idx. pk \<in> set pks \<Longrightarrow> ColIndex d pk = Some idx \<Longrightarrow> r ! idx = r' ! idx"
  shows "pk_parts F d r pks = pk_parts F d r' pks"
  using assms(2)
proof (induction pks)
  case (Cons pk pks)
  have "pk_parts F d r pks = pk_parts F d r' pks"
    by (rule Cons.IH) (rule Cons.prems, simp_all)
  moreover have "ColIndex d pk = Some idx \<Longrightarrow> r ! idx = r' ! idx" for idx
    by (rule Cons.prems [of pk]) simp_all
  ultimately show ?case using assms(1) by (cases "ColIndex d pk") (simp_all split: sum.split)
qed simp

text \<open>A patch that names no key column keeps the key of the row.\<close>

definition patch_ok :: "TableDesc \<Rightarrow> (string \<times> simval) list \<Rightarrow> bool" where
  "patch_ok d patch \<longleftrightarrow> list_all (\<lambda>(col, v). \<not> IsPKCol d col) patch"

lemma patch_loop_PKKey: "patch_ok d patch \<Longrightarrow> patch_loop d patch r = Some r' \<Longrightarrow> PKKey F d r' = PKKey F d r"
proof (induction d patch r rule: patch_loop.induct)
  case (2 d col v patch cp)
  show ?case
  proof (cases "ColIndex d col")
    case None
    with 2 show ?thesis by (simp add: patch_ok_def)
  next
    case (Some idx)
    with 2 have "PKKey F d r' = PKKey F d (cp[idx := v])"
      by (simp add: patch_ok_def split: if_splits)
    moreover have "pk_parts F d (cp[idx := v]) (td_pkcols d) = pk_parts F d cp (td_pkcols d)"
    proof (rule pk_parts_cong)
      fix pk i assume "pk \<in> set (td_pkcols d)" "ColIndex d pk = Some i"
      with Some "2.prems"(1) have "i \<noteq> idx" by (auto simp: patch_ok_def dest: ColIndex_inj)
      then show "cp[idx := v] ! i = cp ! i" by simp
    qed simp
    ultimately show ?thesis by (simp add: PKKey_def)
  qed
qed simp

lemma patch_loop_length: "patch_loop d patch r = Some r' \<Longrightarrow> length r' = length r"
  by (induction d patch r rule: patch_loop.induct) (auto split: option.splits if_splits)

text \<open>\<open>zero_join\<close> is the joining of the parts with the zero byte.\<close>

lemma foldl_zero: "foldl (\<lambda>out p. out @ [CHR 0x00] @ p) a ps = a @ concat (map (\<lambda>p. CHR 0x00 # p) ps)"
  by (induction ps arbitrary: a) auto

lemma zero_join_Cons: "zero_join (p # ps) = p @ concat (map (\<lambda>p. CHR 0x00 # p) ps)"
  by (simp add: zero_join_def foldl_zero del: append.simps)

lemma zero_join_eq_join: "ps \<noteq> [] \<Longrightarrow> zero_join ps = join [CHR 0x00] ps"
proof (induction "[CHR 0x00]" ps rule: join.induct)
  case (3 s t ts)
  then show ?case by (simp add: zero_join_Cons)
qed (simp_all add: zero_join_def)

section \<open>The invariant of a row map\<close>

abbreviation rows_of :: "Table \<Rightarrow> rheap \<Rightarrow> (string \<times> row) list" where
  "rows_of t h \<equiv> rm_m (h ! tb_rows t)"

text \<open>Every row is stored under its own key, at most once.\<close>

definition rows_ok :: "go_fmt \<Rightarrow> TableDesc \<Rightarrow> (string \<times> row) list \<Rightarrow> bool" where
  "rows_ok F d m \<longleftrightarrow> distinct (map fst m) \<and> list_all (\<lambda>(k, r). PKKey F d r = Inr k) m"

lemma rows_ok_Nil [simp]: "rows_ok F d []"
  by (simp add: rows_ok_def)

lemma rows_ok_update: "rows_ok F d m \<Longrightarrow> PKKey F d r = Inr k \<Longrightarrow> rows_ok F d (AList.update k r m)"
  by (auto simp: rows_ok_def list_all_iff AList.distinct_update dest!: set_AList_update)

lemma rows_ok_delete: "rows_ok F d m \<Longrightarrow> rows_ok F d (AList.delete k m)"
  by (auto simp: rows_ok_def list_all_iff AList.delete_eq distinct_map_filter)

lemma rows_ok_get: "rows_ok F d m \<Longrightarrow> map_of m k = Some r \<Longrightarrow> PKKey F d r = Inr k"
  by (auto simp: rows_ok_def list_all_iff dest: map_of_SomeD)

section \<open>What a writer of one table may touch\<close>

text \<open>
  Of the maps that exist before the write, only the one the table points at may change, and
  only while it is not shared; the table ends up on that same map or on a new one.
\<close>

definition writes :: "Table \<Rightarrow> rheap \<Rightarrow> Table \<Rightarrow> rheap \<Rightarrow> bool" where
  "writes t h t' h' \<longleftrightarrow>
     length h \<le> length h' \<and> tb_rows t' < length h' \<and> tb_desc t' = tb_desc t
     \<and> (tb_rows t' = tb_rows t \<or> length h \<le> tb_rows t')
     \<and> (\<forall>a < length h. rm_shared (h' ! a) = rm_shared (h ! a)
          \<and> (a \<noteq> tb_rows t \<or> rm_shared (h ! a) \<longrightarrow> h' ! a = h ! a))"

lemma writes_refl [simp]: "tb_rows t < length h \<Longrightarrow> writes t h t h"
  by (simp add: writes_def)

lemma writes_trans:
  assumes "writes t h t' h'" and "writes t' h' t'' h''"
  shows "writes t h t'' h''"
proof -
  have "rm_shared (h'' ! a) = rm_shared (h ! a)
      \<and> (a \<noteq> tb_rows t \<or> rm_shared (h ! a) \<longrightarrow> h'' ! a = h ! a)" if "a < length h" for a
  proof -
    from that assms(1) have "a < length h'" by (simp add: writes_def)
    moreover have "a = tb_rows t' \<Longrightarrow> a = tb_rows t"
      using that assms(1) by (auto simp: writes_def)
    ultimately show ?thesis using that assms by (auto simp: writes_def)
  qed
  with assms show ?thesis by (auto simp: writes_def)
qed

text \<open>The contract all operations on one table share: the frame, and the invariant.\<close>

definition table_step :: "go_fmt \<Rightarrow> Table \<Rightarrow> rheap \<Rightarrow> Table \<Rightarrow> rheap \<Rightarrow> bool" where
  "table_step F t h t' h' \<longleftrightarrow>
     writes t h t' h'
     \<and> (rows_ok F (tb_desc t) (rows_of t h) \<longrightarrow> rows_ok F (tb_desc t) (rows_of t' h'))"

lemma table_step_refl [simp]: "tb_rows t < length h \<Longrightarrow> table_step F t h t h"
  by (simp add: table_step_def)

lemma table_step_trans:
  "table_step F t h t' h' \<Longrightarrow> table_step F t' h' t'' h'' \<Longrightarrow> table_step F t h t'' h''"
  by (auto simp: table_step_def intro: writes_trans) (auto simp: writes_def)

lemma table_step_bound: "table_step F t h t' h' \<Longrightarrow> tb_rows t' < length h'"
  by (simp add: table_step_def writes_def)

lemma table_step_desc: "table_step F t h t' h' \<Longrightarrow> tb_desc t' = tb_desc t"
  by (simp add: table_step_def writes_def)

lemma writable_spec:
  assumes "tb_rows t < length h" and "writable t h = (t', h')"
  shows "table_step F t h t' h'" and "rows_of t' h' = rows_of t h"
    and "\<not> rm_shared (h' ! tb_rows t')"
  using assms by (auto simp: writable_def table_step_def writes_def nth_append split: if_splits)

lemma set_map_step:
  assumes "tb_rows t < length h" and "\<not> rm_shared (h ! tb_rows t)"
    and "rows_ok F (tb_desc t) (rows_of t h) \<Longrightarrow> rows_ok F (tb_desc t) (f (rows_of t h))"
  shows "table_step F t h t (set_map t f h)" and "rows_of t (set_map t f h) = f (rows_of t h)"
  using assms by (auto simp: set_map_def table_step_def writes_def nth_list_update)

text \<open>A write is \<open>writable\<close> followed by a change of the map it returns.\<close>

lemma writable_then_set_map:
  assumes "tb_rows t < length h" and "writable t h = (t', h')"
    and "rows_ok F (tb_desc t) (rows_of t h) \<Longrightarrow> rows_ok F (tb_desc t) (f (rows_of t h))"
  shows "table_step F t h t' (set_map t' f h')" and "rows_of t' (set_map t' f h') = f (rows_of t h)"
proof -
  note w = writable_spec(1) [OF assms(1,2), of F] writable_spec(2,3) [OF assms(1,2)]
  have d: "tb_desc t' = tb_desc t" by (rule table_step_desc [OF w(1)])
  have "rows_ok F (tb_desc t') (rows_of t' h') \<Longrightarrow> rows_ok F (tb_desc t') (f (rows_of t' h'))"
    using assms(3) by (simp add: w(2) d)
  note s = set_map_step [where f = f, OF table_step_bound [OF w(1)] w(3) this]
  from table_step_trans [OF w(1) s(1)] show "table_step F t h t' (set_map t' f h')" .
  from s(2) w(2) show "rows_of t' (set_map t' f h') = f (rows_of t h)" by simp
qed

lemma Table_Insert_spec:
  assumes "tb_rows t < length h" and "Table_Insert F r t h = (res, t', h')"
  shows "table_step F t h t' h'"
    and "rows_of t' h' = (case res of Inl e \<Rightarrow> rows_of t h | Inr k \<Rightarrow> AList.update k r (rows_of t h))"
    and "res = (case PKKey F (tb_desc t) r of Inl e \<Rightarrow> Inl e
                | Inr k \<Rightarrow> if map_of (rows_of t h) k = None then Inr k else Inl ErrPKConflict)"
proof -
  have "table_step F t h t' h'
      \<and> rows_of t' h' = (case res of Inl e \<Rightarrow> rows_of t h | Inr k \<Rightarrow> AList.update k r (rows_of t h))
      \<and> res = (case PKKey F (tb_desc t) r of Inl e \<Rightarrow> Inl e
                | Inr k \<Rightarrow> if map_of (rows_of t h) k = None then Inr k else Inl ErrPKConflict)"
  proof (cases "PKKey F (tb_desc t) r")
    case (Inl e)
    with assms(2) have "res = Inl e \<and> t' = t \<and> h' = h" by (auto simp: Table_Insert_def)
    with Inl assms(1) show ?thesis by simp
  next
    case (Inr k)
    obtain t1 h1 where w: "writable t h = (t1, h1)" by (cases "writable t h")
    note ws = writable_spec(1) [OF assms(1) w, of F] writable_spec(2,3) [OF assms(1) w]
    note us = writable_then_set_map [where f = "AList.update k r", OF assms(1) w rows_ok_update [OF _ Inr]]
    have "(res, t', h') = (if map_of (rows_of t h) k = None
        then (Inr k, t1, set_map t1 (AList.update k r) h1) else (Inl ErrPKConflict, t1, h1))"
      using assms(2) by (cases "map_of (rows_of t h) k") (auto simp: Table_Insert_def Inr w ws(2))
    then show ?thesis using ws us by (cases "map_of (rows_of t h) k") (simp_all add: Inr)
  qed
  then show "table_step F t h t' h'"
    and "rows_of t' h' = (case res of Inl e \<Rightarrow> rows_of t h | Inr k \<Rightarrow> AList.update k r (rows_of t h))"
    and "res = (case PKKey F (tb_desc t) r of Inl e \<Rightarrow> Inl e
                | Inr k \<Rightarrow> if map_of (rows_of t h) k = None then Inr k else Inl ErrPKConflict)"
    by blast+
qed

lemma Table_Delete_spec:
  assumes "tb_rows t < length h" and "Table_Delete k t h = (n, t', h')"
  shows "table_step F t h t' h'" and "rows_of t' h' = AList.delete k (rows_of t h)"
    and "n = (if map_of (rows_of t h) k = None then 0 else 1)"
proof -
  obtain t1 h1 where w: "writable t h = (t1, h1)" by (cases "writable t h")
  note ws = writable_spec(1) [OF assms(1) w, of F] writable_spec(2,3) [OF assms(1) w]
  note us = writable_then_set_map [where f = "AList.delete k", OF assms(1) w rows_ok_delete, of F]
  have none: "map_of (rows_of t h) k = None \<Longrightarrow> AList.delete k (rows_of t h) = rows_of t h"
    by (auto simp: map_of_eq_None_iff delete_id)
  have "table_step F t h t' h' \<and> rows_of t' h' = AList.delete k (rows_of t h)
      \<and> n = (if map_of (rows_of t h) k = None then 0 else 1)"
    using assms(2) w ws us none by (auto simp: Table_Delete_def split: option.splits)
  then show "table_step F t h t' h'" and "rows_of t' h' = AList.delete k (rows_of t h)"
    and "n = (if map_of (rows_of t h) k = None then 0 else 1)"
    by blast+
qed

text \<open>The map after a patch of the row under \<open>k\<close>.\<close>

definition patched :: "TableDesc \<Rightarrow> (string \<times> simval) list \<Rightarrow> string \<Rightarrow> (string \<times> row) list \<Rightarrow> (string \<times> row) list" where
  "patched d patch k m =
     (case map_of m k of
        None \<Rightarrow> m
      | Some r \<Rightarrow> (case patch_loop d patch r of None \<Rightarrow> m | Some cp \<Rightarrow> AList.update k cp m))"

lemma Table_Update_spec:
  assumes "tb_rows t < length h" and "Table_Update k patch t h = (res, t', h')"
    and "patch_ok (tb_desc t) patch"
  shows "table_step F t h t' h'" and "rows_of t' h' = patched (tb_desc t) patch k (rows_of t h)"
    and "res = (case map_of (rows_of t h) k of None \<Rightarrow> Inr 0
                | Some r \<Rightarrow> if patch_loop (tb_desc t) patch r = None then Inl GoPanic else Inr 1)"
proof -
  obtain t1 h1 where w: "writable t h = (t1, h1)" by (cases "writable t h")
  note ws = writable_spec(1) [OF assms(1) w, of F] writable_spec(2,3) [OF assms(1) w]
  have d: "tb_desc t1 = tb_desc t" by (rule table_step_desc [OF ws(1)])
  have "table_step F t h t' h' \<and> rows_of t' h' = patched (tb_desc t) patch k (rows_of t h)
      \<and> res = (case map_of (rows_of t h) k of None \<Rightarrow> Inr 0
                | Some r \<Rightarrow> if patch_loop (tb_desc t) patch r = None then Inl GoPanic else Inr 1)"
  proof (cases "map_of (rows_of t h) k")
    case None
    with assms(2) w ws show ?thesis by (auto simp: Table_Update_def patched_def)
  next
    case (Some r)
    show ?thesis
    proof (cases "patch_loop (tb_desc t) patch r")
      case None
      with Some assms(2) w ws d show ?thesis by (auto simp: Table_Update_def patched_def)
    next
      case (Some cp)
      have "rows_ok F (tb_desc t) (rows_of t h) \<Longrightarrow> PKKey F (tb_desc t) cp = Inr k"
        using patch_loop_PKKey [OF assms(3) Some, of F] \<open>map_of _ k = Some r\<close>
        by (simp add: rows_ok_get)
      then have "rows_ok F (tb_desc t) (rows_of t h)
          \<Longrightarrow> rows_ok F (tb_desc t) (AList.update k cp (rows_of t h))"
        by (simp add: rows_ok_update)
      note us = writable_then_set_map [where f = "AList.update k cp", OF assms(1) w this]
      show ?thesis using \<open>map_of _ k = Some r\<close> Some assms(2) w ws us d
        by (auto simp: Table_Update_def patched_def)
    qed
  qed
  then show "table_step F t h t' h'" and "rows_of t' h' = patched (tb_desc t) patch k (rows_of t h)"
    and "res = (case map_of (rows_of t h) k of None \<Rightarrow> Inr 0
                | Some r \<Rightarrow> if patch_loop (tb_desc t) patch r = None then Inl GoPanic else Inr 1)"
    by blast+
qed

end
