(* ===== verification/SimExec.thy ===== *)
theory SimExec
  imports SimTable
begin

text \<open>
  The statement executor of the sandbox simulator: the statement types of
  \<open>internal/runtime/sandbox/sim/sql/ast.go\<close> and
  \<open>internal/runtime/sandbox/sim/exec.go\<close>.

  \<^item> \<open>simlib\<close> holds what the executor takes from outside: the float arithmetic of the
    machine, \<open>encoding/json\<close>, and the parts of \<open>fmt\<close> that print floats and times. Float
    comparison is written out.
  \<^item> \<open>now()\<close> calls the injected clock at every evaluation. \<open>en_clock\<close> gives the instant
    of the \<open>n\<close>-th call and the evaluation functions thread the number of calls made.
  \<^item> A statement works on the table \<open>env.table\<close> returned: its body takes that table and the
    store of row maps and returns them changed.
  \<^item> An index out of range and a comparison of incomparable values are \<open>GoPanic\<close>.
\<close>

section \<open>Statements\<close>

type_synonym placeholder = int

datatype LiteralKind = LitString | LitInt64

datatype VectorOp = VecCosine | VecL2 | VecIP

datatype expr =
    Placeholder placeholder
  | Literal LiteralKind string int
  | FuncCall string "expr list"
  | Coalesce placeholder expr
  | ExcludedRef string
  | ColumnRef string
  | VectorDistance string VectorOp placeholder
  | JsonExtract string "string list" bool

datatype CmpOp = OpEq | OpLT | OpLE | OpGT | OpGE | OpNE

datatype Connective = ConnAnd | ConnOr

datatype pred =
    CmpPred string CmpOp expr
  | IsNullPred string bool
  | AnyPred string placeholder
  | GroupPred Connective "pred list"
  | JsonExtractPred string "string list" bool CmpOp expr

record TableRef =
  tr_schema :: string
  tr_name :: string

definition Ref_Qualified :: "TableRef \<Rightarrow> string" where
  "Ref_Qualified t = tr_schema t @ ''.'' @ tr_name t"

record Projection =
  pj_column :: string
  pj_window :: string
  pj_expr :: "expr option"
  pj_alias :: string
  pj_star :: bool

definition IsWindowCount :: "Projection \<Rightarrow> bool" where
  "IsWindowCount p \<longleftrightarrow> pj_window p \<noteq> []"

definition IsExpr :: "Projection \<Rightarrow> bool" where
  "IsExpr p \<longleftrightarrow> pj_expr p \<noteq> None"

definition IsStar :: "Projection \<Rightarrow> bool" where
  "IsStar p \<longleftrightarrow> pj_star p"

datatype ConflictAction = ConflictNone | ConflictNothing | ConflictUpdate

record Assign =
  as_column :: string
  as_value :: expr

record Insert =
  in_table :: TableRef
  in_cols :: "string list"
  in_args :: "expr list"
  in_returning :: "string list"
  in_conflict :: ConflictAction
  in_target :: "string list"
  in_updates :: "Assign list"

datatype NullsOrder = NullsDefault | NullsFirst | NullsLast

record OrderByCol =
  ob_column :: string
  ob_expr :: "expr option"
  ob_desc :: bool
  ob_nulls :: NullsOrder

record Select =
  se_table :: TableRef
  se_cols :: "Projection list"
  se_where :: "pred list"
  se_order :: "OrderByCol list"
  se_limit :: "expr option"
  se_offset :: "expr option"

record Update =
  up_table :: TableRef
  up_set :: "Assign list"
  up_where :: "pred list"

record Delete =
  de_table :: TableRef
  de_where :: "pred list"

datatype stmt = InsertStmt Insert | SelectStmt Select | UpdateStmt Update | DeleteStmt Delete

section \<open>Expressions\<close>

record simlib =
  lib_fmt :: go_fmt
  fl_of32 :: "32 word \<Rightarrow> 64 word"
  fl_to32 :: "64 word \<Rightarrow> 32 word"
  fl_add :: "64 word \<Rightarrow> 64 word \<Rightarrow> 64 word"
  fl_sub :: "64 word \<Rightarrow> 64 word \<Rightarrow> 64 word"
  fl_mul :: "64 word \<Rightarrow> 64 word \<Rightarrow> 64 word"
  fl_div :: "64 word \<Rightarrow> 64 word \<Rightarrow> 64 word"
  fl_sqrt :: "64 word \<Rightarrow> 64 word"
  fl_neg :: "64 word \<Rightarrow> 64 word"
  json_Unmarshal :: "bytes \<Rightarrow> simval option"
  json_Marshal :: "simval \<Rightarrow> bytes option"
  fmt_g :: "64 word \<Rightarrow> string"

text \<open>
  The IEEE order of floats from their bits: a NaN is unordered, both zeros are equal, and
  otherwise the order is that of the magnitude with the sign.
\<close>

definition f64_nan :: "64 word \<Rightarrow> bool" where
  "f64_nan x \<longleftrightarrow> uint (take_bit 63 x) > 0x7FF0000000000000"

definition f64_ord :: "64 word \<Rightarrow> int" where
  "f64_ord x = (if bit x 63 then - uint (take_bit 63 x) else uint (take_bit 63 x))"

definition f64_less :: "64 word \<Rightarrow> 64 word \<Rightarrow> bool" where
  "f64_less a b \<longleftrightarrow> \<not> f64_nan a \<and> \<not> f64_nan b \<and> f64_ord a < f64_ord b"

definition f64_eq :: "64 word \<Rightarrow> 64 word \<Rightarrow> bool" where
  "f64_eq a b \<longleftrightarrow> \<not> f64_nan a \<and> \<not> f64_nan b \<and> f64_ord a = f64_ord b"

definition f32_nan :: "32 word \<Rightarrow> bool" where
  "f32_nan x \<longleftrightarrow> uint (take_bit 31 x) > 0x7F800000"

definition f32_ord :: "32 word \<Rightarrow> int" where
  "f32_ord x = (if bit x 31 then - uint (take_bit 31 x) else uint (take_bit 31 x))"

definition f32_less :: "32 word \<Rightarrow> 32 word \<Rightarrow> bool" where
  "f32_less a b \<longleftrightarrow> \<not> f32_nan a \<and> \<not> f32_nan b \<and> f32_ord a < f32_ord b"

definition f32_eq :: "32 word \<Rightarrow> 32 word \<Rightarrow> bool" where
  "f32_eq a b \<longleftrightarrow> \<not> f32_nan a \<and> \<not> f32_nan b \<and> f32_ord a = f32_ord b"

abbreviation f64_zero :: "64 word" where "f64_zero \<equiv> 0"
abbreviation f64_one :: "64 word" where "f64_one \<equiv> 0x3FF0000000000000"

record execEnv =
  en_catalog :: Catalog
  en_args :: "simval list"
  en_clock :: "nat \<Rightarrow> instant"
  en_proposed :: "(row \<times> TableDesc) option"
  en_scan :: "(row \<times> TableDesc) option"

definition env_arg :: "execEnv \<Rightarrow> int \<Rightarrow> sim_err + simval" where
  "env_arg e n =
     (if n < 1 \<or> n \<ge> int (length (en_args e)) then Inl ErrNotBound else Inr (en_args e ! nat n))"

definition row_at :: "row \<Rightarrow> nat \<Rightarrow> sim_err + simval" where
  "row_at r idx = (if idx < length r then Inr (r ! idx) else Inl GoPanic)"

fun vec_elems :: "simlib \<Rightarrow> simval list \<Rightarrow> sim_err + 32 word list" where
  "vec_elems L [] = Inr []"
| "vec_elems L (v # vs) =
     (case v of
        Float32_val f \<Rightarrow> (case vec_elems L vs of Inl e \<Rightarrow> Inl e | Inr fs \<Rightarrow> Inr (f # fs))
      | Float64_val f \<Rightarrow> (case vec_elems L vs of Inl e \<Rightarrow> Inl e | Inr fs \<Rightarrow> Inr (fl_to32 L f # fs))
      | _ \<Rightarrow> Inl (ErrExec ''vector element, want float''))"

definition asFloat32Slice :: "simlib \<Rightarrow> simval \<Rightarrow> sim_err + 32 word list" where
  "asFloat32Slice L v =
     (case v of
        Float32s_val x \<Rightarrow> Inr x
      | Float64s_val x \<Rightarrow> Inr (map (fl_to32 L) x)
      | Anys_val x \<Rightarrow> vec_elems L x
      | _ \<Rightarrow> Inl (ErrExec ''expected vector''))"

definition vectorDistance :: "simlib \<Rightarrow> 32 word list \<Rightarrow> 32 word list \<Rightarrow> VectorOp \<Rightarrow> 64 word" where
  "vectorDistance L a b vop =
     (if length a \<noteq> length b then f64_zero
      else let ab = map (\<lambda>(x, y). (fl_of32 L x, fl_of32 L y)) (zip a b)
      in case vop of
        VecCosine \<Rightarrow>
          (let (dot, na, nb) =
             foldl (\<lambda>(dot, na, nb) (fa, fb).
               (fl_add L dot (fl_mul L fa fb), fl_add L na (fl_mul L fa fa),
                fl_add L nb (fl_mul L fb fb))) (f64_zero, f64_zero, f64_zero) ab
           in if f64_eq na f64_zero \<or> f64_eq nb f64_zero then f64_one
              else fl_sub L f64_one (fl_div L dot (fl_mul L (fl_sqrt L na) (fl_sqrt L nb))))
      | VecL2 \<Rightarrow>
          fl_sqrt L (foldl (\<lambda>s (fa, fb). let d = fl_sub L fa fb in fl_add L s (fl_mul L d d)) f64_zero ab)
      | VecIP \<Rightarrow> fl_neg L (foldl (\<lambda>dot (fa, fb). fl_add L dot (fl_mul L fa fb)) f64_zero ab))"

fun json_walk :: "simval \<Rightarrow> string list \<Rightarrow> simval option" where
  "json_walk node [] = Some node"
| "json_walk node (k # ks) =
     (case node of
        Map_val m \<Rightarrow> (case map_of m k of None \<Rightarrow> None | Some n \<Rightarrow> json_walk n ks)
      | _ \<Rightarrow> None)"

definition json_root :: "simlib \<Rightarrow> simval \<Rightarrow> sim_err + simval" where
  "json_root L v =
     (case v of
        Bytes_val x \<Rightarrow> (case json_Unmarshal L x of
            None \<Rightarrow> Inl (ErrExec ''JSONB parse'') | Some n \<Rightarrow> Inr n)
      | String_val x \<Rightarrow> (case json_Unmarshal L x of
            None \<Rightarrow> Inl (ErrExec ''JSONB parse'') | Some n \<Rightarrow> Inr n)
      | _ \<Rightarrow> Inr v)"

definition resolveJsonPath :: "simlib \<Rightarrow> simval \<Rightarrow> string list \<Rightarrow> bool \<Rightarrow> sim_err + simval" where
  "resolveJsonPath L v path asText =
     (if v = Nil_val then Inr Nil_val
      else case json_root L v of
        Inl e \<Rightarrow> Inl e
      | Inr root \<Rightarrow>
          (case json_walk root path of
             None \<Rightarrow> Inr Nil_val
           | Some node \<Rightarrow>
               if \<not> asText then Inr node
               else (case node of
                  Nil_val \<Rightarrow> Inr Nil_val
                | String_val s \<Rightarrow> Inr (String_val s)
                | Float64_val x \<Rightarrow> Inr (String_val (fmt_g L x))
                | Bool_val b \<Rightarrow> Inr (String_val (show_bool b))
                | _ \<Rightarrow> (case json_Marshal L node of
                         None \<Rightarrow> Inl (ErrExec ''JSON marshal'')
                       | Some b \<Rightarrow> Inr (String_val b)))))"

definition ascii_lower :: "string \<Rightarrow> string" where
  "ascii_lower s = map (\<lambda>c. if 65 \<le> (of_char c :: nat) \<and> (of_char c :: nat) \<le> 90
     then char_of (of_char c + 32 :: nat) else c) s"

fun evalExpr :: "simlib \<Rightarrow> execEnv \<Rightarrow> expr \<Rightarrow> nat \<Rightarrow> (sim_err + simval) \<times> nat" where
  "evalExpr L e (Placeholder n) w = (env_arg e n, w)"
| "evalExpr L e (Literal kind s i) w =
     (case kind of LitString \<Rightarrow> (Inr (String_val s), w) | LitInt64 \<Rightarrow> (Inr (Int64_val i), w))"
| "evalExpr L e (Coalesce n dflt) w =
     (case env_arg e n of
        Inl er \<Rightarrow> (Inl er, w)
      | Inr val \<Rightarrow> if val \<noteq> Nil_val then (Inr val, w) else evalExpr L e dflt w)"
| "evalExpr L e (FuncCall name args) w =
     (if ascii_lower name = ''now''
      then if args \<noteq> [] then (Inl (ErrExec ''now() takes no arguments''), w)
           else (Inr (Time_val (en_clock e w)), Suc w)
      else (Inl ErrUnsupported, w))"
| "evalExpr L e (ExcludedRef col) w =
     (case en_proposed e of
        None \<Rightarrow> (Inl (ErrExec ''EXCLUDED used outside ON CONFLICT DO UPDATE''), w)
      | Some (r, d) \<Rightarrow>
          (case ColIndex d col of
             None \<Rightarrow> (Inl ErrColumnNotFound, w)
           | Some idx \<Rightarrow> (row_at r idx, w)))"
| "evalExpr L e (ColumnRef col) w =
     (case en_scan e of
        None \<Rightarrow> (Inl (ErrExec ''bare column outside row context''), w)
      | Some (r, d) \<Rightarrow>
          (case ColIndex d col of
             None \<Rightarrow> (Inl ErrColumnNotFound, w)
           | Some idx \<Rightarrow> (row_at r idx, w)))"
| "evalExpr L e (VectorDistance col vop n) w =
     (case en_scan e of
        None \<Rightarrow> (Inl (ErrExec ''vector distance outside row context''), w)
      | Some (r, d) \<Rightarrow>
          (case ColIndex d col of
             None \<Rightarrow> (Inl ErrColumnNotFound, w)
           | Some idx \<Rightarrow>
               (case row_at r idx of
                  Inl er \<Rightarrow> (Inl er, w)
                | Inr rv \<Rightarrow>
                    (case asFloat32Slice L rv of
                       Inl er \<Rightarrow> (Inl er, w)
                     | Inr rowVec \<Rightarrow>
                         (case env_arg e n of
                            Inl er \<Rightarrow> (Inl er, w)
                          | Inr argVal \<Rightarrow>
                              (case asFloat32Slice L argVal of
                                 Inl er \<Rightarrow> (Inl er, w)
                               | Inr argVec \<Rightarrow>
                                   (Inr (Float64_val (vectorDistance L rowVec argVec vop)), w)))))))"
| "evalExpr L e (JsonExtract col path asText) w =
     (case en_scan e of
        None \<Rightarrow> (Inl (ErrExec ''JSONB extract outside row context''), w)
      | Some (r, d) \<Rightarrow>
          (case ColIndex d col of
             None \<Rightarrow> (Inl ErrColumnNotFound, w)
           | Some idx \<Rightarrow>
               (case row_at r idx of
                  Inl er \<Rightarrow> (Inl er, w)
                | Inr v \<Rightarrow> (resolveJsonPath L v path asText, w))))"

section \<open>Comparisons\<close>

definition three_way :: "'a \<Rightarrow> 'a \<Rightarrow> ('a \<Rightarrow> 'a \<Rightarrow> bool) \<Rightarrow> int" where
  "three_way a b lt = (if lt a b then -1 else if lt b a then 1 else 0)"

definition compareValues :: "simval \<Rightarrow> simval \<Rightarrow> int" where
  "compareValues a b =
     (case a of
        Int64_val av \<Rightarrow> (case b of Int64_val bv \<Rightarrow> three_way av bv (<) | _ \<Rightarrow> 0)
      | Float64_val av \<Rightarrow> (case b of Float64_val bv \<Rightarrow> three_way av bv f64_less | _ \<Rightarrow> 0)
      | Float32_val av \<Rightarrow> (case b of Float32_val bv \<Rightarrow> three_way av bv f32_less | _ \<Rightarrow> 0)
      | String_val av \<Rightarrow> (case b of String_val bv \<Rightarrow> three_way av bv (<) | _ \<Rightarrow> 0)
      | Bool_val av \<Rightarrow> (case b of Bool_val bv \<Rightarrow> three_way av bv (\<lambda>x y. \<not> x \<and> y) | _ \<Rightarrow> 0)
      | Time_val av \<Rightarrow> (case b of Time_val bv \<Rightarrow> three_way av bv (<) | _ \<Rightarrow> 0)
      | _ \<Rightarrow> 0)"

text \<open>Go's \<open>==\<close> on interfaces: comparing two slices or two maps of the same type panics.\<close>

definition iface_eq :: "simval \<Rightarrow> simval \<Rightarrow> sim_err + bool" where
  "iface_eq a b =
     (case (a, b) of
        (Int64_val x, Int64_val y) \<Rightarrow> Inr (x = y)
      | (Intk_val k x, Intk_val l y) \<Rightarrow> Inr (k = l \<and> x = y)
      | (String_val x, String_val y) \<Rightarrow> Inr (x = y)
      | (Bool_val x, Bool_val y) \<Rightarrow> Inr (x = y)
      | (Time_val x, Time_val y) \<Rightarrow> Inr (x = y)
      | (Float64_val x, Float64_val y) \<Rightarrow> Inr (f64_eq x y)
      | (Float32_val x, Float32_val y) \<Rightarrow> Inr (f32_eq x y)
      | (Nil_val, Nil_val) \<Rightarrow> Inr True
      | (Bytes_val x, Bytes_val y) \<Rightarrow> Inl GoPanic
      | (Float32s_val x, Float32s_val y) \<Rightarrow> Inl GoPanic
      | (Float64s_val x, Float64s_val y) \<Rightarrow> Inl GoPanic
      | (Int64s_val x, Int64s_val y) \<Rightarrow> Inl GoPanic
      | (Strings_val x, Strings_val y) \<Rightarrow> Inl GoPanic
      | (Bools_val x, Bools_val y) \<Rightarrow> Inl GoPanic
      | (Anys_val x, Anys_val y) \<Rightarrow> Inl GoPanic
      | (Map_val x, Map_val y) \<Rightarrow> Inl GoPanic
      | _ \<Rightarrow> Inr False)"

definition equalValues :: "simval \<Rightarrow> simval \<Rightarrow> sim_err + bool" where
  "equalValues a b =
     (if a = Nil_val \<or> b = Nil_val then Inr False
      else case a of
        Time_val ta \<Rightarrow> (case b of Time_val tb \<Rightarrow> Inr (ta = tb) | _ \<Rightarrow> Inr False)
      | _ \<Rightarrow> iface_eq a b)"

definition compareWithOp :: "simval \<Rightarrow> CmpOp \<Rightarrow> simval \<Rightarrow> bool" where
  "compareWithOp a cop b =
     (if a = Nil_val \<or> b = Nil_val then False
      else let c = compareValues a b
      in case cop of
        OpEq \<Rightarrow> c = 0
      | OpNE \<Rightarrow> c \<noteq> 0
      | OpLT \<Rightarrow> c < 0
      | OpLE \<Rightarrow> c \<le> 0
      | OpGT \<Rightarrow> c > 0
      | OpGE \<Rightarrow> c \<ge> 0)"

fun any_loop :: "simval list \<Rightarrow> simval \<Rightarrow> sim_err + bool" where
  "any_loop [] target = Inr False"
| "any_loop (v # vs) target =
     (case equalValues v target of
        Inl e \<Rightarrow> Inl e
      | Inr hit \<Rightarrow> if hit then Inr True else any_loop vs target)"

definition anyContains :: "simval \<Rightarrow> simval \<Rightarrow> sim_err + bool" where
  "anyContains arr target =
     (case arr of
        Int64s_val s \<Rightarrow> (case target of Int64_val t \<Rightarrow> Inr (t \<in> set s) | _ \<Rightarrow> Inr False)
      | Strings_val s \<Rightarrow> (case target of String_val t \<Rightarrow> Inr (t \<in> set s) | _ \<Rightarrow> Inr False)
      | Bools_val s \<Rightarrow> (case target of Bool_val t \<Rightarrow> Inr (t \<in> set s) | _ \<Rightarrow> Inr False)
      | Anys_val s \<Rightarrow> any_loop s target
      | _ \<Rightarrow> Inl ErrUnsupported)"

definition compareOrdered :: "simval \<Rightarrow> simval \<Rightarrow> OrderByCol \<Rightarrow> int" where
  "compareOrdered a b oc =
     (let aNil = (a = Nil_val); bNil = (b = Nil_val)
      in if aNil \<and> bNil then 0
         else if aNil \<or> bNil then
           let nullsFirst = (case ob_nulls oc of
                 NullsFirst \<Rightarrow> True | NullsLast \<Rightarrow> False | NullsDefault \<Rightarrow> ob_desc oc)
           in if aNil then (if nullsFirst then -1 else 1)
              else (if nullsFirst then 1 else -1)
         else let c = compareValues a b in if ob_desc oc then - c else c)"

definition toInt64 :: "simval \<Rightarrow> int option" where
  "toInt64 v =
     (case v of
        Int64_val x \<Rightarrow> Some x
      | Intk_val k x \<Rightarrow> Some (wrap64 x)
      | _ \<Rightarrow> None)"

section \<open>Predicates\<close>

text \<open>
  \<open>evalPreds\<close> is the conjunction over a list, which is also the \<open>ConnAnd\<close> branch of
  \<open>evalPred\<close>; \<open>evalPred_or\<close> is the loop of its \<open>ConnOr\<close> branch.
\<close>

fun evalPred :: "simlib \<Rightarrow> execEnv \<Rightarrow> TableDesc \<Rightarrow> row \<Rightarrow> pred \<Rightarrow> nat \<Rightarrow> (sim_err + bool) \<times> nat"
  and evalPreds :: "simlib \<Rightarrow> execEnv \<Rightarrow> TableDesc \<Rightarrow> row \<Rightarrow> pred list \<Rightarrow> nat \<Rightarrow> (sim_err + bool) \<times> nat"
  and evalPred_or :: "simlib \<Rightarrow> execEnv \<Rightarrow> TableDesc \<Rightarrow> row \<Rightarrow> pred list \<Rightarrow> nat \<Rightarrow> (sim_err + bool) \<times> nat"
where
  "evalPred L e d r (CmpPred col cop v) w =
     (case ColIndex d col of
        None \<Rightarrow> (Inl ErrColumnNotFound, w)
      | Some idx \<Rightarrow>
          (case evalExpr L e v w of
             (Inl er, w) \<Rightarrow> (Inl er, w)
           | (Inr want, w) \<Rightarrow>
               (case row_at r idx of
                  Inl er \<Rightarrow> (Inl er, w)
                | Inr x \<Rightarrow> (Inr (compareWithOp x cop want), w))))"
| "evalPred L e d r (GroupPred conn ps) w =
     (case conn of ConnAnd \<Rightarrow> evalPreds L e d r ps w | ConnOr \<Rightarrow> evalPred_or L e d r ps w)"
| "evalPred L e d r (IsNullPred col neg) w =
     (case ColIndex d col of
        None \<Rightarrow> (Inl ErrColumnNotFound, w)
      | Some idx \<Rightarrow>
          (case row_at r idx of
             Inl er \<Rightarrow> (Inl er, w)
           | Inr x \<Rightarrow> (Inr (if neg then x \<noteq> Nil_val else x = Nil_val), w)))"
| "evalPred L e d r (AnyPred col n) w =
     (case ColIndex d col of
        None \<Rightarrow> (Inl ErrColumnNotFound, w)
      | Some idx \<Rightarrow>
          (case env_arg e n of
             Inl er \<Rightarrow> (Inl er, w)
           | Inr arr \<Rightarrow>
               (case row_at r idx of
                  Inl er \<Rightarrow> (Inl er, w)
                | Inr x \<Rightarrow> (anyContains arr x, w))))"
| "evalPred L e d r (JsonExtractPred col path asText cop v) w =
     (case ColIndex d col of
        None \<Rightarrow> (Inl ErrColumnNotFound, w)
      | Some idx \<Rightarrow>
          (case row_at r idx of
             Inl er \<Rightarrow> (Inl er, w)
           | Inr x \<Rightarrow>
               (case resolveJsonPath L x path asText of
                  Inl er \<Rightarrow> (Inl er, w)
                | Inr lhs \<Rightarrow>
                    (case evalExpr L e v w of
                       (Inl er, w) \<Rightarrow> (Inl er, w)
                     | (Inr want, w) \<Rightarrow> (Inr (compareWithOp lhs cop want), w)))))"
| "evalPreds L e d r [] w = (Inr True, w)"
| "evalPreds L e d r (p # ps) w =
     (case evalPred L e d r p w of
        (Inl er, w) \<Rightarrow> (Inl er, w)
      | (Inr ok, w) \<Rightarrow> if \<not> ok then (Inr False, w) else evalPreds L e d r ps w)"
| "evalPred_or L e d r [] w = (Inr False, w)"
| "evalPred_or L e d r (p # ps) w =
     (case evalPred L e d r p w of
        (Inl er, w) \<Rightarrow> (Inl er, w)
      | (Inr ok, w) \<Rightarrow> if ok then (Inr True, w) else evalPred_or L e d r ps w)"

fun validateWhereCol :: "TableDesc \<Rightarrow> pred \<Rightarrow> sim_err option"
  and validateWhereCols :: "TableDesc \<Rightarrow> pred list \<Rightarrow> sim_err option"
where
  "validateWhereCol d (CmpPred col cop v) =
     (if ColIndex d col = None then Some ErrColumnNotFound else None)"
| "validateWhereCol d (IsNullPred col neg) =
     (if ColIndex d col = None then Some ErrColumnNotFound else None)"
| "validateWhereCol d (AnyPred col n) =
     (if ColIndex d col = None then Some ErrColumnNotFound else None)"
| "validateWhereCol d (JsonExtractPred col path asText cop v) =
     (if ColIndex d col = None then Some ErrColumnNotFound else None)"
| "validateWhereCol d (GroupPred conn ps) = validateWhereCols d ps"
| "validateWhereCols d [] = None"
| "validateWhereCols d (p # ps) =
     (case validateWhereCol d p of Some e \<Rightarrow> Some e | None \<Rightarrow> validateWhereCols d ps)"

text \<open>
  \<open>matchesPK\<close>: the values and the \<open>matched\<close> flags of the key columns as one list, \<open>None\<close>
  where the flag is unset.
\<close>

fun match_cols ::
  "simlib \<Rightarrow> execEnv \<Rightarrow> string \<Rightarrow> expr \<Rightarrow> string list \<Rightarrow> simval option list \<Rightarrow> nat
   \<Rightarrow> (sim_err + simval option list) \<times> nat" where
  "match_cols L e col v (pk # pks) (m # ms) w =
     (case (if col = pk then (case evalExpr L e v w of
                (Inl er, w) \<Rightarrow> (Inl er, w) | (Inr x, w) \<Rightarrow> (Inr (Some x), w))
            else (Inr m, w)) of
        (Inl er, w) \<Rightarrow> (Inl er, w)
      | (Inr m', w) \<Rightarrow>
          (case match_cols L e col v pks ms w of
             (Inl er, w) \<Rightarrow> (Inl er, w)
           | (Inr ms', w) \<Rightarrow> (Inr (m' # ms'), w)))"
| "match_cols L e col v pks ms w = (Inr [], w)"

fun match_preds ::
  "simlib \<Rightarrow> execEnv \<Rightarrow> string list \<Rightarrow> pred list \<Rightarrow> simval option list \<Rightarrow> nat
   \<Rightarrow> (sim_err + simval option list) \<times> nat" where
  "match_preds L e pks [] ms w = (Inr ms, w)"
| "match_preds L e pks (p # ps) ms w =
     (case p of
        CmpPred col OpEq v \<Rightarrow>
          (case match_cols L e col v pks ms w of
             (Inl er, w) \<Rightarrow> (Inl er, w)
           | (Inr ms', w) \<Rightarrow> match_preds L e pks ps ms' w)
      | _ \<Rightarrow> match_preds L e pks ps ms w)"

definition matchesPK ::
  "simlib \<Rightarrow> execEnv \<Rightarrow> TableDesc \<Rightarrow> pred list \<Rightarrow> nat \<Rightarrow> (sim_err + simval list option) \<times> nat" where
  "matchesPK L e d preds w =
     (if td_pkcols d = [] then (Inr None, w)
      else case match_preds L e (td_pkcols d) preds (replicate (length (td_pkcols d)) None) w of
        (Inl er, w) \<Rightarrow> (Inl er, w)
      | (Inr ms, w) \<Rightarrow> (Inr (if list_ex (\<lambda>m. m = None) ms then None else Some (map the ms)), w))"

definition pkKeyFromValues :: "go_fmt \<Rightarrow> simval list \<Rightarrow> string" where
  "pkKeyFromValues F vals = zero_join (map (sprintv F) vals)"

section \<open>INSERT\<close>

fun insert_row ::
  "simlib \<Rightarrow> execEnv \<Rightarrow> TableDesc \<Rightarrow> string list \<Rightarrow> expr list \<Rightarrow> row \<Rightarrow> nat \<Rightarrow> (sim_err + row) \<times> nat" where
  "insert_row L e d [] args r w = (Inr r, w)"
| "insert_row L e d (col # cols) args r w =
     (case ColIndex d col of
        None \<Rightarrow> (Inl ErrColumnNotFound, w)
      | Some idx \<Rightarrow>
          (case args of
             [] \<Rightarrow> (Inl GoPanic, w)
           | a # as \<Rightarrow>
               (case evalExpr L e a w of
                  (Inl er, w) \<Rightarrow> (Inl er, w)
                | (Inr v, w) \<Rightarrow> insert_row L e d cols as (r[idx := v]) w)))"

text \<open>The loop over assignments of \<open>UPDATE\<close> and of \<open>ON CONFLICT DO UPDATE\<close>.\<close>

fun assign_loop ::
  "simlib \<Rightarrow> execEnv \<Rightarrow> TableDesc \<Rightarrow> Assign list \<Rightarrow> (string \<times> simval) list \<Rightarrow> nat
   \<Rightarrow> (sim_err + (string \<times> simval) list) \<times> nat" where
  "assign_loop L e d [] patch w = (Inr patch, w)"
| "assign_loop L e d (a # as) patch w =
     (if ColIndex d (as_column a) = None then (Inl ErrColumnNotFound, w)
      else if IsPKCol d (as_column a) then (Inl (ErrExec ''cannot reassign PK column''), w)
      else case evalExpr L e (as_value a) w of
        (Inl er, w) \<Rightarrow> (Inl er, w)
      | (Inr v, w) \<Rightarrow> assign_loop L e d as (AList.update (as_column a) v patch) w)"

fun same_loop :: "(string \<Rightarrow> int) \<Rightarrow> string list \<Rightarrow> bool" where
  "same_loop seen [] = True"
| "same_loop seen (x # xs) =
     (if seen x - 1 < 0 then False else same_loop (seen(x := seen x - 1)) xs)"

definition sameColumnSet :: "string list \<Rightarrow> string list \<Rightarrow> bool" where
  "sameColumnSet a b =
     (if length a \<noteq> length b then False
      else same_loop (foldl (\<lambda>seen x. seen(x := seen x + 1)) (\<lambda>_. 0) a) b)"

text \<open>A statement body: the result, the clock calls made, the table and the store after it.\<close>

type_synonym 'a body = "Table \<Rightarrow> rheap \<Rightarrow> ((sim_err + 'a) \<times> nat) \<times> Table \<times> rheap"

definition store_row :: "simlib \<Rightarrow> row \<Rightarrow> nat \<Rightarrow> (int \<times> row) body" where
  "store_row L r w t h =
     (case Table_Insert (lib_fmt L) r t h of
        (Inl er, t, h) \<Rightarrow> ((Inl er, w), t, h)
      | (Inr key, t, h) \<Rightarrow> ((Inr (1, r), w), t, h))"

definition upsert_row :: "simlib \<Rightarrow> execEnv \<Rightarrow> Insert \<Rightarrow> row \<Rightarrow> string \<Rightarrow> nat \<Rightarrow> (int \<times> row) body" where
  "upsert_row L e ins r key w t h =
     (case assign_loop L (e\<lparr>en_proposed := Some (r, tb_desc t)\<rparr>) (tb_desc t) (in_updates ins) [] w of
        (Inl er, w) \<Rightarrow> ((Inl er, w), t, h)
      | (Inr patch, w) \<Rightarrow>
          (case Table_Update key patch t h of
             (Inl er, t, h) \<Rightarrow> ((Inl er, w), t, h)
           | (Inr affected, t, h) \<Rightarrow>
               (case Table_Get key t h of
                  None \<Rightarrow> ((Inr (affected, []), w), t, h)
                | Some updated \<Rightarrow> ((Inr (affected, updated), w), t, h))))"

definition insert_body :: "simlib \<Rightarrow> execEnv \<Rightarrow> Insert \<Rightarrow> nat \<Rightarrow> (int \<times> row) body" where
  "insert_body L e ins w t h =
     (let d = tb_desc t in
      case insert_row L e d (in_cols ins) (in_args ins) (replicate (length (td_cols d)) Nil_val) w of
        (Inl er, w) \<Rightarrow> ((Inl er, w), t, h)
      | (Inr r, w) \<Rightarrow>
          if in_conflict ins = ConflictNone then store_row L r w t h
          else if \<not> sameColumnSet (in_target ins) (td_pkcols d) then ((Inl ErrUnsupported, w), t, h)
          else case PKKey (lib_fmt L) d r of
            Inl er \<Rightarrow> ((Inl er, w), t, h)
          | Inr key \<Rightarrow>
              (case Table_Get key t h of
                 None \<Rightarrow> store_row L r w t h
               | Some existing \<Rightarrow>
                   if in_conflict ins = ConflictNothing then ((Inr (0, existing), w), t, h)
                   else upsert_row L e ins r key w t h))"

section \<open>UPDATE and DELETE\<close>

text \<open>The callback of the \<open>UPDATE\<close> scan; its state is the count, the clock calls, table and store.\<close>

definition update_visit ::
  "simlib \<Rightarrow> execEnv \<Rightarrow> pred list \<Rightarrow> (string \<times> simval) list \<Rightarrow> string \<Rightarrow> row
   \<Rightarrow> int \<times> nat \<times> Table \<times> rheap \<Rightarrow> sim_err option \<times> int \<times> nat \<times> Table \<times> rheap" where
  "update_visit L e preds patch key r s =
     (case s of (affected, w, t, h) \<Rightarrow>
        case evalPreds L e (tb_desc t) r preds w of
          (Inl er, w) \<Rightarrow> (Some er, affected, w, t, h)
        | (Inr ok, w) \<Rightarrow>
            if \<not> ok then (None, affected, w, t, h)
            else case Table_Update key patch t h of
              (Inl er, t, h) \<Rightarrow> (Some er, affected, w, t, h)
            | (Inr n, t, h) \<Rightarrow> (None, affected + n, w, t, h))"

definition update_scan ::
  "simlib \<Rightarrow> execEnv \<Rightarrow> pred list \<Rightarrow> (string \<times> simval) list \<Rightarrow> nat \<Rightarrow> int body" where
  "update_scan L e preds patch w t h =
     (case ScanKeyed (\<lambda>(affected, w, t, h). h) (update_visit L e preds patch) t (0, w, t, h) of
        (Some er, affected, w, t, h) \<Rightarrow> ((Inl er, w), t, h)
      | (None, affected, w, t, h) \<Rightarrow> ((Inr affected, w), t, h))"

definition update_body :: "simlib \<Rightarrow> execEnv \<Rightarrow> Update \<Rightarrow> nat \<Rightarrow> int body" where
  "update_body L e upd w t h =
     (let d = tb_desc t in
      if up_where upd = [] then ((Inl ErrUnsupported, w), t, h)
      else case assign_loop L e d (up_set upd) [] w of
        (Inl er, w) \<Rightarrow> ((Inl er, w), t, h)
      | (Inr patch, w) \<Rightarrow>
          (case matchesPK L e d (up_where upd) w of
             (Inl er, w) \<Rightarrow> ((Inl er, w), t, h)
           | (Inr (Some pkVals), w) \<Rightarrow>
               (let key = pkKeyFromValues (lib_fmt L) pkVals in
                case Table_Get key t h of
                  None \<Rightarrow> ((Inr 0, w), t, h)
                | Some r \<Rightarrow>
                    (case evalPreds L e d r (up_where upd) w of
                       (Inl er, w) \<Rightarrow> ((Inl er, w), t, h)
                     | (Inr ok, w) \<Rightarrow>
                         if \<not> ok then ((Inr 0, w), t, h)
                         else case Table_Update key patch t h of (res, t, h) \<Rightarrow> ((res, w), t, h)))
           | (Inr None, w) \<Rightarrow> update_scan L e (up_where upd) patch w t h))"

definition delete_visit ::
  "simlib \<Rightarrow> execEnv \<Rightarrow> TableDesc \<Rightarrow> pred list \<Rightarrow> string \<Rightarrow> row
   \<Rightarrow> rheap \<times> string list \<times> nat \<Rightarrow> sim_err option \<times> rheap \<times> string list \<times> nat" where
  "delete_visit L e d preds key r s =
     (case s of (h, keys, w) \<Rightarrow>
        case evalPreds L e d r preds w of
          (Inl er, w) \<Rightarrow> (Some er, h, keys, w)
        | (Inr ok, w) \<Rightarrow> (None, h, (if ok then keys @ [key] else keys), w))"

fun delete_keys :: "string list \<Rightarrow> int \<Rightarrow> Table \<Rightarrow> rheap \<Rightarrow> int \<times> Table \<times> rheap" where
  "delete_keys [] affected t h = (affected, t, h)"
| "delete_keys (k # ks) affected t h =
     (case Table_Delete k t h of (n, t, h) \<Rightarrow> delete_keys ks (affected + n) t h)"

definition delete_scan :: "simlib \<Rightarrow> execEnv \<Rightarrow> pred list \<Rightarrow> nat \<Rightarrow> int body" where
  "delete_scan L e preds w t h =
     (case ScanKeyed fst (delete_visit L e (tb_desc t) preds) t (h, [], w) of
        (Some er, h', keys, w) \<Rightarrow> ((Inl er, w), t, h)
      | (None, h', keys, w) \<Rightarrow>
          (case delete_keys keys 0 t h of (affected, t, h) \<Rightarrow> ((Inr affected, w), t, h)))"

definition delete_body :: "simlib \<Rightarrow> execEnv \<Rightarrow> Delete \<Rightarrow> nat \<Rightarrow> int body" where
  "delete_body L e del w t h =
     (let d = tb_desc t in
      if de_where del = [] then ((Inl ErrUnsupported, w), t, h)
      else case matchesPK L e d (de_where del) w of
        (Inl er, w) \<Rightarrow> ((Inl er, w), t, h)
      | (Inr (Some pkVals), w) \<Rightarrow>
          (let key = pkKeyFromValues (lib_fmt L) pkVals in
           case Table_Get key t h of
             None \<Rightarrow> ((Inr 0, w), t, h)
           | Some r \<Rightarrow>
               (case evalPreds L e d r (de_where del) w of
                  (Inl er, w) \<Rightarrow> ((Inl er, w), t, h)
                | (Inr ok, w) \<Rightarrow>
                    if \<not> ok then ((Inr 0, w), t, h)
                    else case Table_Delete key t h of (n, t, h) \<Rightarrow> ((Inr n, w), t, h)))
      | (Inr None, w) \<Rightarrow> delete_scan L e (de_where del) w t h)"

section \<open>SELECT\<close>

definition select_visit ::
  "simlib \<Rightarrow> execEnv \<Rightarrow> TableDesc \<Rightarrow> pred list \<Rightarrow> row \<Rightarrow> row list \<times> nat
   \<Rightarrow> sim_err option \<times> row list \<times> nat" where
  "select_visit L e d preds r s =
     (case s of (out, w) \<Rightarrow>
        case evalPreds L e d r preds w of
          (Inl er, w) \<Rightarrow> (Some er, out, w)
        | (Inr ok, w) \<Rightarrow> (None, (if ok then out @ [r] else out), w))"

definition select_scan ::
  "simlib \<Rightarrow> execEnv \<Rightarrow> pred list \<Rightarrow> Table \<Rightarrow> rheap \<Rightarrow> nat \<Rightarrow> (sim_err + row list) \<times> nat" where
  "select_scan L e preds t h w =
     (case Scan (select_visit L e (tb_desc t) preds) t h ([], w) of
        (Some er, out, w) \<Rightarrow> (Inl er, w)
      | (None, out, w) \<Rightarrow> (Inr out, w))"

definition selectRows ::
  "simlib \<Rightarrow> execEnv \<Rightarrow> pred list \<Rightarrow> Table \<Rightarrow> rheap \<Rightarrow> nat \<Rightarrow> (sim_err + row list) \<times> nat" where
  "selectRows L e preds t h w =
     (let d = tb_desc t in
      case matchesPK L e d preds w of
        (Inl er, w) \<Rightarrow> (Inl er, w)
      | (Inr (Some pkVals), w) \<Rightarrow>
          (case Table_Get (pkKeyFromValues (lib_fmt L) pkVals) t h of
             None \<Rightarrow> (Inr [], w)
           | Some r \<Rightarrow>
               (case evalPreds L e d r preds w of
                  (Inl er, w) \<Rightarrow> (Inl er, w)
                | (Inr ok, w) \<Rightarrow> (Inr (if ok then [r] else []), w)))
      | (Inr None, w) \<Rightarrow> select_scan L e preds t h w)"

definition expandStarProjections :: "Projection list \<Rightarrow> TableDesc \<Rightarrow> Projection list" where
  "expandStarProjections ps d =
     (if \<not> list_ex IsStar ps then ps
      else concat (map (\<lambda>p. if \<not> IsStar p then [p]
             else map (\<lambda>c. \<lparr>pj_column = cl_name c, pj_window = [], pj_expr = None,
                            pj_alias = [], pj_star = False\<rparr>) (td_cols d)) ps))"

fun project_row ::
  "simlib \<Rightarrow> execEnv \<Rightarrow> TableDesc \<Rightarrow> row \<Rightarrow> int \<Rightarrow> Projection list \<Rightarrow> nat \<Rightarrow> (sim_err + row) \<times> nat" where
  "project_row L e d r total_n [] w = (Inr [], w)"
| "project_row L e d r total_n (p # ps) w =
     (case (if IsWindowCount p then (Inr (Int64_val total_n), w)
            else case pj_expr p of
              Some x \<Rightarrow> evalExpr L (e\<lparr>en_scan := Some (r, d)\<rparr>) x w
            | None \<Rightarrow> (case ColIndex d (pj_column p) of
                         None \<Rightarrow> (Inl GoPanic, w)
                       | Some idx \<Rightarrow> (row_at r idx, w))) of
        (Inl er, w) \<Rightarrow> (Inl er, w)
      | (Inr v, w) \<Rightarrow>
          (case project_row L e d r total_n ps w of
             (Inl er, w) \<Rightarrow> (Inl er, w)
           | (Inr vs, w) \<Rightarrow> (Inr (v # vs), w)))"

definition projectRowWithExpr ::
  "simlib \<Rightarrow> execEnv \<Rightarrow> TableDesc \<Rightarrow> row \<Rightarrow> Projection list \<Rightarrow> int \<Rightarrow> nat \<Rightarrow> (sim_err + row) \<times> nat" where
  "projectRowWithExpr L e d r projs total_n w = project_row L e d r total_n projs w"

fun project_rows ::
  "simlib \<Rightarrow> execEnv \<Rightarrow> TableDesc \<Rightarrow> Projection list \<Rightarrow> int \<Rightarrow> row list \<Rightarrow> nat \<Rightarrow> (sim_err + row list) \<times> nat" where
  "project_rows L e d projs total_n [] w = (Inr [], w)"
| "project_rows L e d projs total_n (r # rs) w =
     (case projectRowWithExpr L e d r projs total_n w of
        (Inl er, w) \<Rightarrow> (Inl er, w)
      | (Inr v, w) \<Rightarrow>
          (case project_rows L e d projs total_n rs w of
             (Inl er, w) \<Rightarrow> (Inl er, w)
           | (Inr vs, w) \<Rightarrow> (Inr (v # vs), w)))"

text \<open>The sort key of a row, one value per \<open>ORDER BY\<close> item.\<close>

fun order_key ::
  "simlib \<Rightarrow> execEnv \<Rightarrow> TableDesc \<Rightarrow> row \<Rightarrow> OrderByCol list \<Rightarrow> nat \<Rightarrow> (sim_err + simval list) \<times> nat" where
  "order_key L e d r [] w = (Inr [], w)"
| "order_key L e d r (oc # ocs) w =
     (case (case ob_expr oc of
              Some x \<Rightarrow> evalExpr L (e\<lparr>en_scan := Some (r, d)\<rparr>) x w
            | None \<Rightarrow> (case ColIndex d (ob_column oc) of
                         None \<Rightarrow> (Inl ErrColumnNotFound, w)
                       | Some idx \<Rightarrow> (row_at r idx, w))) of
        (Inl er, w) \<Rightarrow> (Inl er, w)
      | (Inr v, w) \<Rightarrow>
          (case order_key L e d r ocs w of
             (Inl er, w) \<Rightarrow> (Inl er, w)
           | (Inr vs, w) \<Rightarrow> (Inr (v # vs), w)))"

fun order_keys ::
  "simlib \<Rightarrow> execEnv \<Rightarrow> TableDesc \<Rightarrow> OrderByCol list \<Rightarrow> row list \<Rightarrow> nat
   \<Rightarrow> (sim_err + (simval list \<times> row) list) \<times> nat" where
  "order_keys L e d ocs [] w = (Inr [], w)"
| "order_keys L e d ocs (r # rs) w =
     (case order_key L e d r ocs w of
        (Inl er, w) \<Rightarrow> (Inl er, w)
      | (Inr k, w) \<Rightarrow>
          (case order_keys L e d ocs rs w of
             (Inl er, w) \<Rightarrow> (Inl er, w)
           | (Inr ks, w) \<Rightarrow> (Inr ((k, r) # ks), w)))"

fun order_less :: "OrderByCol list \<Rightarrow> simval list \<Rightarrow> simval list \<Rightarrow> bool" where
  "order_less (oc # ocs) (a # as) (b # bs) =
     (let cmp = compareOrdered a b oc in if cmp \<noteq> 0 then cmp < 0 else order_less ocs as bs)"
| "order_less ocs as bs = False"

text \<open>
  \<open>sort.SliceStable\<close> as a stable insertion from the left; a stable sort by an order has only
  one result.
\<close>

fun insert_right :: "('a \<Rightarrow> 'a \<Rightarrow> bool) \<Rightarrow> 'a \<Rightarrow> 'a list \<Rightarrow> 'a list" where
  "insert_right lt x [] = [x]"
| "insert_right lt x (y # ys) = (if lt x y then y # insert_right lt x ys else x # y # ys)"

definition SliceStable :: "('a \<Rightarrow> 'a \<Rightarrow> bool) \<Rightarrow> 'a list \<Rightarrow> 'a list" where
  "SliceStable lt xs = rev (foldl (\<lambda>acc x. insert_right lt x acc) [] xs)"

definition order_rows ::
  "simlib \<Rightarrow> execEnv \<Rightarrow> TableDesc \<Rightarrow> OrderByCol list \<Rightarrow> row list \<Rightarrow> nat \<Rightarrow> (sim_err + row list) \<times> nat" where
  "order_rows L e d ocs rows w =
     (if ocs = [] then (Inr rows, w)
      else if list_ex (\<lambda>oc. ob_expr oc = None \<and> ColIndex d (ob_column oc) = None) ocs
        then (Inl ErrColumnNotFound, w)
      else case order_keys L e d ocs rows w of
        (Inl er, w) \<Rightarrow> (Inl er, w)
      | (Inr krs, w) \<Rightarrow> (Inr (map snd (SliceStable (\<lambda>x y. order_less ocs (fst x) (fst y)) krs)), w))"

definition evalIntExpr :: "simlib \<Rightarrow> execEnv \<Rightarrow> expr \<Rightarrow> nat \<Rightarrow> (sim_err + int) \<times> nat" where
  "evalIntExpr L e x w =
     (case evalExpr L e x w of
        (Inl er, w) \<Rightarrow> (Inl er, w)
      | (Inr v, w) \<Rightarrow>
          (case toInt64 v of
             None \<Rightarrow> (Inl (ErrExec ''must be int''), w)
           | Some n \<Rightarrow> (Inr n, w)))"

text \<open>An absent \<open>LIMIT\<close> or \<open>OFFSET\<close> leaves the default.\<close>

definition bound_expr :: "simlib \<Rightarrow> execEnv \<Rightarrow> expr option \<Rightarrow> int \<Rightarrow> nat \<Rightarrow> (sim_err + int) \<times> nat" where
  "bound_expr L e x dflt w = (case x of None \<Rightarrow> (Inr dflt, w) | Some x \<Rightarrow> evalIntExpr L e x w)"

text \<open>\<open>rows[off:]\<close> and \<open>rows[:lim]\<close>: a negative bound panics.\<close>

definition page_rows :: "int \<Rightarrow> int \<Rightarrow> 'a list \<Rightarrow> sim_err + 'a list" where
  "page_rows off lim rows =
     (if off \<le> int (length rows) \<and> off < 0 then Inl GoPanic
      else let rows = (if off > int (length rows) then [] else drop (nat off) rows)
      in if int (length rows) > lim
         then if lim < 0 then Inl GoPanic else Inr (take (nat lim) rows)
         else Inr rows)"

fun projections_ok :: "TableDesc \<Rightarrow> Projection list \<Rightarrow> bool" where
  "projections_ok d [] = True"
| "projections_ok d (p # ps) =
     (if IsWindowCount p \<or> IsExpr p then projections_ok d ps
      else if ColIndex d (pj_column p) = None then False
      else projections_ok d ps)"

text \<open>The result of a \<open>SELECT\<close>: the rewritten projections, the projected rows, the total.\<close>

type_synonym select_result = "Projection list \<times> row list \<times> int"

definition select_body ::
  "simlib \<Rightarrow> execEnv \<Rightarrow> Select \<Rightarrow> nat \<Rightarrow> Table \<Rightarrow> rheap \<Rightarrow> (sim_err + select_result) \<times> nat" where
  "select_body L e sel w t h =
     (let d = tb_desc t; projs = expandStarProjections (se_cols sel) d in
      if \<not> projections_ok d projs then (Inl ErrColumnNotFound, w)
      else case validateWhereCols d (se_where sel) of
        Some er \<Rightarrow> (Inl er, w)
      | None \<Rightarrow>
      (case selectRows L e (se_where sel) t h w of
        (Inl er, w) \<Rightarrow> (Inl er, w)
      | (Inr rows, w) \<Rightarrow>
      (case order_rows L e d (se_order sel) rows w of
        (Inl er, w) \<Rightarrow> (Inl er, w)
      | (Inr rows, w) \<Rightarrow>
      (let total_n = int (length rows) in
       case bound_expr L e (se_offset sel) 0 w of
        (Inl er, w) \<Rightarrow> (Inl er, w)
      | (Inr off, w) \<Rightarrow>
      (case bound_expr L e (se_limit sel) total_n w of
        (Inl er, w) \<Rightarrow> (Inl er, w)
      | (Inr lim, w) \<Rightarrow>
      (case page_rows off lim rows of
        Inl er \<Rightarrow> (Inl er, w)
      | Inr rows \<Rightarrow>
      (case project_rows L e d projs total_n rows w of
        (Inl er, w) \<Rightarrow> (Inl er, w)
      | (Inr out, w) \<Rightarrow> (Inr (projs, out, total_n), w))))))))"

fun nofrom_row :: "simlib \<Rightarrow> execEnv \<Rightarrow> Projection list \<Rightarrow> nat \<Rightarrow> (sim_err + row) \<times> nat" where
  "nofrom_row L e [] w = (Inr [], w)"
| "nofrom_row L e (p # ps) w =
     (if IsStar p \<or> IsWindowCount p then (Inl ErrUnsupported, w)
      else case pj_expr p of
        None \<Rightarrow> (Inl ErrColumnNotFound, w)
      | Some x \<Rightarrow>
          (case evalExpr L e x w of
             (Inl er, w) \<Rightarrow> (Inl er, w)
           | (Inr v, w) \<Rightarrow>
               (case nofrom_row L e ps w of
                  (Inl er, w) \<Rightarrow> (Inl er, w)
                | (Inr vs, w) \<Rightarrow> (Inr (v # vs), w))))"

definition execSelectNoFrom :: "simlib \<Rightarrow> execEnv \<Rightarrow> Select \<Rightarrow> nat \<Rightarrow> (sim_err + select_result) \<times> nat" where
  "execSelectNoFrom L e sel w =
     (if se_where sel \<noteq> [] then (Inl ErrUnsupported, w)
      else if se_order sel \<noteq> [] then (Inl ErrUnsupported, w)
      else if se_limit sel \<noteq> None \<or> se_offset sel \<noteq> None then (Inl ErrUnsupported, w)
      else case nofrom_row L e (se_cols sel) w of
        (Inl er, w) \<Rightarrow> (Inl er, w)
      | (Inr r, w) \<Rightarrow> (Inr (se_cols sel, [r], 1), w))"

section \<open>Scanning a result\<close>

text \<open>The pointer types a caller scans into; the result is the value the pointer then holds.\<close>

datatype scan_target = AnyPtr | Int64Ptr | StringPtr | BoolPtr | TimePtr | BytesPtr
  | StringsPtr | Int64sPtr | OtherPtr

definition zero_time :: instant where
  "zero_time = - 62135596800000000000"

fun strings_of :: "simval list \<Rightarrow> string list option" where
  "strings_of [] = Some []"
| "strings_of (v # vs) =
     (case v of
        String_val s \<Rightarrow> (case strings_of vs of None \<Rightarrow> None | Some ss \<Rightarrow> Some (s # ss))
      | _ \<Rightarrow> None)"

fun ints_of :: "simval list \<Rightarrow> int list option" where
  "ints_of [] = Some []"
| "ints_of (v # vs) =
     (case toInt64 v of
        None \<Rightarrow> None
      | Some n \<Rightarrow> (case ints_of vs of None \<Rightarrow> None | Some ns \<Rightarrow> Some (n # ns)))"

definition assign :: "scan_target \<Rightarrow> simval \<Rightarrow> sim_err + simval" where
  "assign dst v =
     (case dst of
        AnyPtr \<Rightarrow> Inr v
      | Int64Ptr \<Rightarrow>
          (case v of
             Nil_val \<Rightarrow> Inr (Int64_val 0)
           | Int64_val x \<Rightarrow> Inr (Int64_val x)
           | Intk_val k x \<Rightarrow> if k = KInt \<or> k = KInt32 then Inr (Int64_val x)
                              else Inl (ErrScan ''cannot assign to *int64'')
           | _ \<Rightarrow> Inl (ErrScan ''cannot assign to *int64''))
      | StringPtr \<Rightarrow>
          (case v of
             Nil_val \<Rightarrow> Inr (String_val [])
           | String_val s \<Rightarrow> Inr (String_val s)
           | _ \<Rightarrow> Inl (ErrScan ''cannot assign to *string''))
      | BoolPtr \<Rightarrow>
          (case v of
             Nil_val \<Rightarrow> Inr (Bool_val False)
           | Bool_val b \<Rightarrow> Inr (Bool_val b)
           | _ \<Rightarrow> Inl (ErrScan ''cannot assign to *bool''))
      | TimePtr \<Rightarrow>
          (case v of
             Nil_val \<Rightarrow> Inr (Time_val zero_time)
           | Time_val t \<Rightarrow> Inr (Time_val t)
           | _ \<Rightarrow> Inl (ErrScan ''cannot assign to *time.Time''))
      | BytesPtr \<Rightarrow>
          (case v of
             Nil_val \<Rightarrow> Inr (Bytes_val [])
           | Bytes_val b \<Rightarrow> Inr (Bytes_val b)
           | _ \<Rightarrow> Inl (ErrScan ''cannot assign to *[]byte''))
      | StringsPtr \<Rightarrow>
          (case v of
             Nil_val \<Rightarrow> Inr (Strings_val [])
           | Strings_val s \<Rightarrow> Inr (Strings_val s)
           | Anys_val s \<Rightarrow> (case strings_of s of
                 None \<Rightarrow> Inl (ErrScan ''array element, want string'')
               | Some out \<Rightarrow> Inr (Strings_val out))
           | _ \<Rightarrow> Inl (ErrScan ''cannot assign to *[]string''))
      | Int64sPtr \<Rightarrow>
          (case v of
             Nil_val \<Rightarrow> Inr (Int64s_val [])
           | Int64s_val s \<Rightarrow> Inr (Int64s_val s)
           | Anys_val s \<Rightarrow> (case ints_of s of
                 None \<Rightarrow> Inl (ErrScan ''array element, want int'')
               | Some out \<Rightarrow> Inr (Int64s_val out))
           | _ \<Rightarrow> Inl (ErrScan ''cannot assign to *[]int64''))
      | OtherPtr \<Rightarrow> Inl (ErrScan ''unsupported scan target''))"

fun assign_all :: "scan_target list \<Rightarrow> simval list \<Rightarrow> sim_err + simval list" where
  "assign_all (d # ds) (v # vs) =
     (case assign d v of
        Inl e \<Rightarrow> Inl e
      | Inr x \<Rightarrow> (case assign_all ds vs of Inl e \<Rightarrow> Inl e | Inr xs \<Rightarrow> Inr (x # xs)))"
| "assign_all (d # ds) [] = Inl GoPanic"
| "assign_all [] vs = Inr []"

definition scanProjected :: "Projection list \<Rightarrow> row \<Rightarrow> scan_target list \<Rightarrow> sim_err + simval list" where
  "scanProjected projs r dest =
     (if length projs \<noteq> length dest then Inl (ErrScan ''projections vs dest'')
      else assign_all dest r)"

fun scan_cols :: "TableDesc \<Rightarrow> row \<Rightarrow> string list \<Rightarrow> scan_target list \<Rightarrow> sim_err + simval list" where
  "scan_cols d r (c # cs) (t # ts) =
     (case ColIndex d c of
        None \<Rightarrow> Inl ErrColumnNotFound
      | Some idx \<Rightarrow>
          (case row_at r idx of
             Inl e \<Rightarrow> Inl e
           | Inr v \<Rightarrow>
               (case assign t v of
                  Inl e \<Rightarrow> Inl e
                | Inr x \<Rightarrow> (case scan_cols d r cs ts of Inl e \<Rightarrow> Inl e | Inr xs \<Rightarrow> Inr (x # xs)))))"
| "scan_cols d r cs ts = Inr []"

definition scanInto :: "TableDesc \<Rightarrow> row \<Rightarrow> string list \<Rightarrow> scan_target list \<Rightarrow> sim_err + simval list" where
  "scanInto d r cols dest =
     (if length cols \<noteq> length dest then Inl (ErrScan ''cols vs dest'')
      else scan_cols d r cols dest)"

end
