(* ===== verification/SimSpec.thy ===== *)
theory SimSpec
  imports SimExec
begin

text \<open>
  What the statements of the simulator do to the rows of a table, without the store, the
  sharing and the copying: each statement as a function on a plain map from keys to rows,
  and the proof that the bodies of \<open>SimExec\<close> compute these functions. A locale states the
  contract that links the two, and the three writing statements are interpreted in it.
\<close>

section \<open>Statements on plain maps\<close>

type_synonym rows = "(string \<times> row) list"

text \<open>The keys a \<open>WHERE\<close> clause visits: the one key it fixes, or every key in order.\<close>

definition visit_keys ::
  "simlib \<Rightarrow> execEnv \<Rightarrow> TableDesc \<Rightarrow> pred list \<Rightarrow> rows \<Rightarrow> nat \<Rightarrow> (sim_err + string list) \<times> nat" where
  "visit_keys L e d preds m w =
     (case matchesPK L e d preds w of
        (Inl er, w) \<Rightarrow> (Inl er, w)
      | (Inr (Some vals), w) \<Rightarrow> (Inr [pkKeyFromValues (lib_fmt L) vals], w)
      | (Inr None, w) \<Rightarrow> (Inr (sort (map fst m)), w))"

text \<open>The visited keys whose row satisfies the clause.\<close>

fun where_loop ::
  "simlib \<Rightarrow> execEnv \<Rightarrow> TableDesc \<Rightarrow> pred list \<Rightarrow> rows \<Rightarrow> string list \<Rightarrow> nat \<Rightarrow> (sim_err + string list) \<times> nat" where
  "where_loop L e d preds m [] w = (Inr [], w)"
| "where_loop L e d preds m (k # ks) w =
     (case map_of m k of
        None \<Rightarrow> where_loop L e d preds m ks w
      | Some r \<Rightarrow>
          (case evalPreds L e d r preds w of
             (Inl er, w) \<Rightarrow> (Inl er, w)
           | (Inr ok, w) \<Rightarrow>
               (case where_loop L e d preds m ks w of
                  (Inl er, w) \<Rightarrow> (Inl er, w)
                | (Inr hits, w) \<Rightarrow> (Inr (if ok then k # hits else hits), w))))"

definition rows_at :: "rows \<Rightarrow> string list \<Rightarrow> row list" where
  "rows_at m ks = map (\<lambda>k. the (map_of m k)) ks"

definition select_spec ::
  "simlib \<Rightarrow> execEnv \<Rightarrow> pred list \<Rightarrow> nat \<Rightarrow> TableDesc \<Rightarrow> rows \<Rightarrow> (sim_err + row list) \<times> nat" where
  "select_spec L e preds w d m =
     (case visit_keys L e d preds m w of
        (Inl er, w) \<Rightarrow> (Inl er, w)
      | (Inr ks, w) \<Rightarrow>
          (case where_loop L e d preds m ks w of
             (Inl er, w) \<Rightarrow> (Inl er, w)
           | (Inr hits, w) \<Rightarrow> (Inr (rows_at m hits), w)))"

definition delete_spec ::
  "simlib \<Rightarrow> execEnv \<Rightarrow> Delete \<Rightarrow> nat \<Rightarrow> TableDesc \<Rightarrow> rows \<Rightarrow> ((sim_err + int) \<times> nat) \<times> rows" where
  "delete_spec L e del w d m =
     (if de_where del = [] then ((Inl ErrUnsupported, w), m)
      else case visit_keys L e d (de_where del) m w of
        (Inl er, w) \<Rightarrow> ((Inl er, w), m)
      | (Inr ks, w) \<Rightarrow>
          (case where_loop L e d (de_where del) m ks w of
             (Inl er, w) \<Rightarrow> ((Inl er, w), m)
           | (Inr hits, w) \<Rightarrow>
               ((Inr (int (length hits)), w), foldl (\<lambda>m k. AList.delete k m) m hits)))"

text \<open>An \<open>UPDATE\<close> writes while it scans: an error leaves the rows before it updated.\<close>

fun update_loop ::
  "simlib \<Rightarrow> execEnv \<Rightarrow> TableDesc \<Rightarrow> pred list \<Rightarrow> (string \<times> simval) list \<Rightarrow> string list \<Rightarrow> int \<Rightarrow> nat
   \<Rightarrow> rows \<Rightarrow> ((sim_err + int) \<times> nat) \<times> rows" where
  "update_loop L e d preds patch [] n w m = ((Inr n, w), m)"
| "update_loop L e d preds patch (k # ks) n w m =
     (case map_of m k of
        None \<Rightarrow> update_loop L e d preds patch ks n w m
      | Some r \<Rightarrow>
          (case evalPreds L e d r preds w of
             (Inl er, w) \<Rightarrow> ((Inl er, w), m)
           | (Inr ok, w) \<Rightarrow>
               if \<not> ok then update_loop L e d preds patch ks n w m
               else (case patch_loop d patch r of
                  None \<Rightarrow> ((Inl GoPanic, w), m)
                | Some r' \<Rightarrow> update_loop L e d preds patch ks (n + 1) w (AList.update k r' m))))"

definition update_spec ::
  "simlib \<Rightarrow> execEnv \<Rightarrow> Update \<Rightarrow> nat \<Rightarrow> TableDesc \<Rightarrow> rows \<Rightarrow> ((sim_err + int) \<times> nat) \<times> rows" where
  "update_spec L e upd w d m =
     (if up_where upd = [] then ((Inl ErrUnsupported, w), m)
      else case assign_loop L e d (up_set upd) [] w of
        (Inl er, w) \<Rightarrow> ((Inl er, w), m)
      | (Inr patch, w) \<Rightarrow>
          (case visit_keys L e d (up_where upd) m w of
             (Inl er, w) \<Rightarrow> ((Inl er, w), m)
           | (Inr ks, w) \<Rightarrow> update_loop L e d (up_where upd) patch ks 0 w m))"

definition insert_spec ::
  "simlib \<Rightarrow> execEnv \<Rightarrow> Insert \<Rightarrow> nat \<Rightarrow> TableDesc \<Rightarrow> rows \<Rightarrow> ((sim_err + int \<times> row) \<times> nat) \<times> rows" where
  "insert_spec L e ins w d m =
     (case insert_row L e d (in_cols ins) (in_args ins) (replicate (length (td_cols d)) Nil_val) w of
        (Inl er, w) \<Rightarrow> ((Inl er, w), m)
      | (Inr r, w) \<Rightarrow>
          if in_conflict ins \<noteq> ConflictNone \<and> \<not> sameColumnSet (in_target ins) (td_pkcols d)
          then ((Inl ErrUnsupported, w), m)
          else case PKKey (lib_fmt L) d r of
            Inl er \<Rightarrow> ((Inl er, w), m)
          | Inr k \<Rightarrow>
              (case map_of m k of
                 None \<Rightarrow> ((Inr (1, r), w), AList.update k r m)
               | Some old \<Rightarrow>
                   (case in_conflict ins of
                      ConflictNone \<Rightarrow> ((Inl ErrPKConflict, w), m)
                    | ConflictNothing \<Rightarrow> ((Inr (0, old), w), m)
                    | ConflictUpdate \<Rightarrow>
                        (case assign_loop L (e\<lparr>en_proposed := Some (r, d)\<rparr>) d (in_updates ins) [] w of
                           (Inl er, w) \<Rightarrow> ((Inl er, w), m)
                         | (Inr patch, w) \<Rightarrow>
                             (case patch_loop d patch old of
                                None \<Rightarrow> ((Inl GoPanic, w), m)
                              | Some r' \<Rightarrow> ((Inr (1, r'), w), AList.update k r' m))))))"

section \<open>The contract\<close>

text \<open>
  A program on one table keeps to the frame and the row invariant, and computes a function
  on the rows of the table.
\<close>

locale table_program =
  fixes F :: go_fmt
    and prog :: "Table \<Rightarrow> rheap \<Rightarrow> 'r \<times> Table \<times> rheap"
    and spec :: "TableDesc \<Rightarrow> rows \<Rightarrow> 'r \<times> rows"
  assumes prog_step:
      "tb_rows t < length h \<Longrightarrow> rows_ok F (tb_desc t) (rows_of t h) \<Longrightarrow> prog t h = (r, t', h')
       \<Longrightarrow> table_step F t h t' h'"
    and prog_refines:
      "tb_rows t < length h \<Longrightarrow> rows_ok F (tb_desc t) (rows_of t h) \<Longrightarrow> prog t h = (r, t', h')
       \<Longrightarrow> spec (tb_desc t) (rows_of t h) = (r, rows_of t' h')"
begin

text \<open>Two tables with the same rows answer alike, however their maps are shared.\<close>

lemma prog_sharing_unobservable:
  assumes "tb_rows t < length h" and "tb_rows u < length g" and "tb_desc u = tb_desc t"
    and "rows_of u g = rows_of t h" and "rows_ok F (tb_desc t) (rows_of t h)"
    and "prog t h = (r, t', h')" and "prog u g = (s, u', g')"
  shows "r = s \<and> rows_of t' h' = rows_of u' g'"
  using prog_refines [OF assms(1,5,6)] prog_refines [of u g s u' g'] assms by simp

end

section \<open>Scans\<close>

lemma assign_loop_patch_ok:
  "assign_loop L e d as patch w = (Inr patch', w') \<Longrightarrow> patch_ok d patch \<Longrightarrow> patch_ok d patch'"
proof (induction L e d as patch w rule: assign_loop.induct)
  case (2 L e d a as patch w)
  have "patch_ok d (AList.update (as_column a) v patch)" if "\<not> IsPKCol d (as_column a)" for v
    using that "2.prems"(2) by (auto simp: patch_ok_def list_all_iff dest!: set_AList_update)
  with 2 show ?case by (fastforce split: if_splits prod.splits sum.splits)
qed simp

lemma assign_loop_patch_ok_Nil: "assign_loop L e d as [] w = (Inr patch, w') \<Longrightarrow> patch_ok d patch"
  using assign_loop_patch_ok [of L e d as "[]" w patch w'] by (simp add: patch_ok_def)

lemma map_of_fst: "rows_ok F d m \<Longrightarrow> k \<in> set (map fst m) \<longleftrightarrow> map_of m k \<noteq> None"
  by (simp add: map_of_eq_None_iff)

lemma distinct_scan_keys: "rows_ok F d (rows_of t h) \<Longrightarrow> distinct (scan_keys t h)"
  by (simp add: scan_keys_def sort_loop_eq_sort rows_ok_def)

lemma select_scan_loop:
  "case where_loop L e d preds m ks w of
     (Inl er, w') \<Rightarrow>
       \<exists>out'. scan_loop (\<lambda>_ k. map_of m k) (\<lambda>k r. select_visit L e d preds r) ks (out, w) = (Some er, out', w')
   | (Inr hits, w') \<Rightarrow>
       scan_loop (\<lambda>_ k. map_of m k) (\<lambda>k r. select_visit L e d preds r) ks (out, w)
         = (None, out @ rows_at m hits, w')"
proof (induction ks arbitrary: out w)
  case (Cons k ks)
  show ?case
  proof (cases "map_of m k")
    case None
    with Cons.IH [of out w] show ?thesis by (simp split: prod.splits sum.splits)
  next
    case (Some r)
    obtain x w1 where e: "evalPreds L e d r preds w = (x, w1)" by (cases "evalPreds L e d r preds w")
    show ?thesis
    proof (cases x)
      case (Inl er)
      with Some e show ?thesis by (simp add: select_visit_def)
    next
      case (Inr ok)
      then have "select_visit L e d preds r (out, w) = (None, if ok then out @ [r] else out, w1)"
        by (simp add: select_visit_def e)
      with Cons.IH [of "if ok then out @ [r] else out" w1] Some e Inr show ?thesis
        by (auto simp: rows_at_def split: prod.splits sum.splits)
    qed
  qed
qed (simp add: rows_at_def)

lemma select_scan_eq:
  "select_scan L e preds t h w =
     (case where_loop L e (tb_desc t) preds (rows_of t h) (sort (map fst (rows_of t h))) w of
        (Inl er, w) \<Rightarrow> (Inl er, w)
      | (Inr hits, w) \<Rightarrow> (Inr (rows_at (rows_of t h) hits), w))"
  using select_scan_loop [where L = L and e = e and d = "tb_desc t" and preds = preds and m = "rows_of t h"
      and ks = "sort (map fst (rows_of t h))" and w = w and out = "[]"]
  by (auto simp: select_scan_def Scan_def scan_keys_def sort_loop_eq_sort split: prod.splits sum.splits)

lemma selectRows_refines: "selectRows L e preds t h w = select_spec L e preds w (tb_desc t) (rows_of t h)"
proof -
  obtain x w1 where mk: "matchesPK L e (tb_desc t) preds w = (x, w1)"
    by (cases "matchesPK L e (tb_desc t) preds w")
  show ?thesis
  proof (cases x)
    case (Inl er)
    with mk show ?thesis by (simp add: selectRows_def select_spec_def visit_keys_def)
  next
    case (Inr v)
    show ?thesis
    proof (cases v)
      case None
      with mk Inr show ?thesis
        by (simp add: selectRows_def select_spec_def visit_keys_def select_scan_eq)
    next
      case (Some vals)
      with mk Inr show ?thesis
        by (simp add: selectRows_def select_spec_def visit_keys_def Table_Get_def rows_at_def
            split: prod.split sum.split option.split)
    qed
  qed
qed

lemma delete_scan_loop:
  "case where_loop L e d preds (rm_m (h ! a)) ks w of
     (Inl er, w') \<Rightarrow>
       \<exists>keys'. scan_loop (\<lambda>s k. map_of (rm_m (fst s ! a)) k) (delete_visit L e d preds) ks (h, keys, w)
         = (Some er, h, keys', w')
   | (Inr hits, w') \<Rightarrow>
       scan_loop (\<lambda>s k. map_of (rm_m (fst s ! a)) k) (delete_visit L e d preds) ks (h, keys, w)
         = (None, h, keys @ hits, w')"
proof (induction ks arbitrary: keys w)
  case (Cons k ks)
  show ?case
  proof (cases "map_of (rm_m (h ! a)) k")
    case None
    with Cons.IH [of keys w] show ?thesis by (simp split: prod.splits sum.splits)
  next
    case (Some r)
    obtain x w1 where e: "evalPreds L e d r preds w = (x, w1)" by (cases "evalPreds L e d r preds w")
    show ?thesis
    proof (cases x)
      case (Inl er)
      with Some e show ?thesis by (simp add: delete_visit_def)
    next
      case (Inr ok)
      then have "delete_visit L e d preds k r (h, keys, w) = (None, h, if ok then keys @ [k] else keys, w1)"
        by (simp add: delete_visit_def e)
      with Cons.IH [of "if ok then keys @ [k] else keys" w1] Some e Inr show ?thesis
        by (auto split: prod.splits sum.splits)
    qed
  qed
qed simp

lemma where_loop_hits:
  "where_loop L e d preds m ks w = (Inr hits, w')
   \<Longrightarrow> set hits \<subseteq> set ks \<and> (\<forall>k \<in> set hits. map_of m k \<noteq> None) \<and> (distinct ks \<longrightarrow> distinct hits)"
proof (induction ks arbitrary: hits w)
  case (Cons k ks)
  show ?case
  proof (cases "map_of m k")
    case None
    with Cons.prems Cons.IH [of w hits] show ?thesis by auto
  next
    case (Some r)
    obtain ok w1 rest where "evalPreds L e d r preds w = (Inr ok, w1)"
      and rest: "where_loop L e d preds m ks w1 = (Inr rest, w')" and "hits = (if ok then k # rest else rest)"
      using Cons.prems Some by (auto split: prod.splits sum.splits)
    with Cons.IH [OF rest] Some show ?thesis by auto
  qed
qed simp

lemma delete_keys_spec:
  assumes "tb_rows t < length h" and "delete_keys ks n t h = (n', t', h')"
  shows "table_step F t h t' h' \<and> rows_of t' h' = foldl (\<lambda>m k. AList.delete k m) (rows_of t h) ks
    \<and> (distinct ks \<and> (\<forall>k \<in> set ks. map_of (rows_of t h) k \<noteq> None) \<longrightarrow> n' = n + int (length ks))"
  using assms
proof (induction ks arbitrary: n t h)
  case (Cons k ks)
  obtain c t1 h1 where k: "Table_Delete k t h = (c, t1, h1)" by (cases "Table_Delete k t h")
  note s = Table_Delete_spec(1) [OF Cons.prems(1) k, of F] Table_Delete_spec(2,3) [OF Cons.prems(1) k]
  from Cons.prems(2) k have "delete_keys ks (n + c) t1 h1 = (n', t', h')" by simp
  note ih = Cons.IH [OF table_step_bound [OF s(1)] this]
  have "map_of (rows_of t1 h1) x = map_of (rows_of t h) x" if "x \<noteq> k" for x
    using that by (simp add: s(2))
  then have "distinct (k # ks) \<and> (\<forall>x \<in> set (k # ks). map_of (rows_of t h) x \<noteq> None)
      \<Longrightarrow> distinct ks \<and> (\<forall>x \<in> set ks. map_of (rows_of t1 h1) x \<noteq> None)"
    by (metis distinct.simps(2) list.set_intros(2))
  with ih s show ?case by (auto intro: table_step_trans [OF s(1)])
qed simp

lemma Table_Update_in_place:
  "\<not> rm_shared (h ! tb_rows t) \<Longrightarrow> Table_Update k patch t h = (res, t', h') \<Longrightarrow> tb_rows t' = tb_rows t"
  by (auto simp: Table_Update_def writable_def split: option.splits)

lemma update_visit_agree:
  assumes "Table_Update k patch t h = (res, t1, h1)" and "patch_ok (tb_desc t) patch"
    and "tb_rows t < length h" and "a < length h" and "rm_shared (h ! a) \<or> a = tb_rows t"
    and "\<forall>x \<in> set (k # ks). map_of (rm_m (h ! a)) x = map_of (rows_of t h) x" and "k \<notin> set ks"
  shows "a < length h1 \<and> (rm_shared (h1 ! a) \<or> a = tb_rows t1)
    \<and> (\<forall>x \<in> set ks. map_of (rm_m (h1 ! a)) x = map_of (rows_of t1 h1) x)"
proof -
  note s = Table_Update_spec(2) [OF assms(3,1,2)]
  from Table_Update_spec(1) [OF assms(3,1,2)] have w: "writes t h t1 h1" by (simp add: table_step_def)
  show ?thesis
  proof (cases "rm_shared (h ! a)")
    case True
    with w assms(4) have "h1 ! a = h ! a" "a < length h1" by (auto simp: writes_def)
    moreover have "map_of (rows_of t1 h1) x = map_of (rows_of t h) x" if "x \<in> set ks" for x
    proof -
      from that assms(7) have "x \<noteq> k" by auto
      then show ?thesis
        by (auto simp: s patched_def AList.update_conv' split: option.split)
    qed
    ultimately show ?thesis using True assms(6) by simp
  next
    case False
    with assms(5) have "a = tb_rows t" by simp
    with False Table_Update_in_place [OF _ assms(1)] have "a = tb_rows t1" by simp
    with w show ?thesis by (simp add: writes_def)
  qed
qed

lemma update_scan_loop:
  assumes "scan_loop (\<lambda>s k. map_of (rm_m ((case s of (n, w, t, h) \<Rightarrow> h) ! a)) k) (update_visit L e preds patch)
      ks (n, w, t, h) = (x, n', w', t', h')"
    and "patch_ok (tb_desc t) patch" and "tb_rows t < length h" and "a < length h"
    and "rm_shared (h ! a) \<or> a = tb_rows t"
    and "\<forall>k \<in> set ks. map_of (rm_m (h ! a)) k = map_of (rows_of t h) k" and "distinct ks"
  shows "table_step F t h t' h'
    \<and> update_loop L e (tb_desc t) preds patch ks n w (rows_of t h)
      = ((case x of Some er \<Rightarrow> Inl er | None \<Rightarrow> Inr n', w'), rows_of t' h')"
  using assms
proof (induction ks arbitrary: n w t h)
  case (Cons k ks)
  let ?rd = "\<lambda>s k. map_of (rm_m ((case s of (n, w, t, h) \<Rightarrow> h) ! a)) k"
  show ?case
  proof (cases "map_of (rows_of t h) k")
    case None
    with Cons show ?thesis by simp
  next
    case (Some r)
    with Cons.prems(6) have rd: "map_of (rm_m (h ! a)) k = Some r" by simp
    obtain y w1 where e: "evalPreds L e (tb_desc t) r preds w = (y, w1)"
      by (cases "evalPreds L e (tb_desc t) r preds w")
    show ?thesis
    proof (cases y)
      case (Inl er)
      with Cons.prems Some rd e show ?thesis by (auto simp: update_visit_def)
    next
      case (Inr ok)
      show ?thesis
      proof (cases ok)
        case False
        then have "update_visit L e preds patch k r (n, w, t, h) = (None, n, w1, t, h)"
          using e Inr by (simp add: update_visit_def)
        with Cons Some rd e Inr False show ?thesis by simp
      next
        case True
        obtain res t1 h1 where u: "Table_Update k patch t h = (res, t1, h1)"
          by (cases "Table_Update k patch t h")
        note s = Table_Update_spec(1) [OF Cons.prems(3) u Cons.prems(2), of F]
          Table_Update_spec(2,3) [OF Cons.prems(3) u Cons.prems(2)]
        show ?thesis
        proof (cases "patch_loop (tb_desc t) patch r")
          case None
          with s Some have "res = Inl GoPanic" "rows_of t1 h1 = rows_of t h"
            by (simp_all add: patched_def)
          with Cons.prems(1) s(1) Some rd e Inr True None u show ?thesis
            by (auto simp: update_visit_def)
        next
          case (Some r')
          with s \<open>map_of (rows_of t h) k = Some r\<close> have res: "res = Inr 1"
            and m: "rows_of t1 h1 = AList.update k r' (rows_of t h)" by (simp_all add: patched_def)
          have "update_visit L e preds patch k r (n, w, t, h) = (None, n + 1, w1, t1, h1)"
            using e Inr True u res by (simp add: update_visit_def)
          then have "scan_loop ?rd (update_visit L e preds patch) ks (n + 1, w1, t1, h1) = (x, n', w', t', h')"
            using Cons.prems(1) rd by simp
          moreover have "k \<notin> set ks" using Cons.prems(7) by simp
          note ag = update_visit_agree [OF u Cons.prems(2-6) this]
          ultimately have "table_step F t1 h1 t' h'
            \<and> update_loop L e (tb_desc t1) preds patch ks (n + 1) w1 (rows_of t1 h1)
              = ((case x of Some er \<Rightarrow> Inl er | None \<Rightarrow> Inr n', w'), rows_of t' h')"
            using Cons.IH [of "n + 1" w1 t1 h1] ag Cons.prems(2,7) table_step_bound [OF s(1)]
              table_step_desc [OF s(1)] by simp
          with Some \<open>map_of (rows_of t h) k = Some r\<close> e Inr True m table_step_desc [OF s(1)] show ?thesis
            by (auto intro: table_step_trans [OF s(1)])
        qed
      qed
    qed
  qed
qed auto

section \<open>The three writing statements keep the contract\<close>

lemma store_row_spec:
  assumes "tb_rows t < length h" and "store_row L r w t h = (res, t', h')"
  shows "table_step (lib_fmt L) t h t' h'
    \<and> (res, rows_of t' h') = (case PKKey (lib_fmt L) (tb_desc t) r of
        Inl er \<Rightarrow> ((Inl er, w), rows_of t h)
      | Inr k \<Rightarrow> (case map_of (rows_of t h) k of
            None \<Rightarrow> ((Inr (1, r), w), AList.update k r (rows_of t h))
          | Some _ \<Rightarrow> ((Inl ErrPKConflict, w), rows_of t h)))"
proof -
  obtain x t1 h1 where i: "Table_Insert (lib_fmt L) r t h = (x, t1, h1)"
    by (cases "Table_Insert (lib_fmt L) r t h")
  note s = Table_Insert_spec [OF assms(1) i]
  from assms(2) i have "t' = t1" "h' = h1"
    and "res = (case x of Inl er \<Rightarrow> (Inl er, w) | Inr k \<Rightarrow> (Inr (1, r), w))"
    by (auto simp: store_row_def split: sum.splits)
  with s show ?thesis by (auto split: sum.splits option.splits if_splits)
qed

lemma upsert_row_spec:
  assumes "tb_rows t < length h" and "map_of (rows_of t h) k = Some old"
    and "upsert_row L e ins r k w t h = (res, t', h')"
  shows "table_step F t h t' h'
    \<and> (res, rows_of t' h') =
      (case assign_loop L (e\<lparr>en_proposed := Some (r, tb_desc t)\<rparr>) (tb_desc t) (in_updates ins) [] w of
         (Inl er, w) \<Rightarrow> ((Inl er, w), rows_of t h)
       | (Inr patch, w) \<Rightarrow>
           (case patch_loop (tb_desc t) patch old of
              None \<Rightarrow> ((Inl GoPanic, w), rows_of t h)
            | Some r' \<Rightarrow> ((Inr (1, r'), w), AList.update k r' (rows_of t h))))"
proof -
  obtain x w1 where a: "assign_loop L (e\<lparr>en_proposed := Some (r, tb_desc t)\<rparr>) (tb_desc t) (in_updates ins) [] w = (x, w1)"
    by (cases "assign_loop L (e\<lparr>en_proposed := Some (r, tb_desc t)\<rparr>) (tb_desc t) (in_updates ins) [] w")
  show ?thesis
  proof (cases x)
    case (Inl er)
    with a assms show ?thesis by (auto simp: upsert_row_def)
  next
    case (Inr patch)
    with a have ok: "patch_ok (tb_desc t) patch" by (auto dest: assign_loop_patch_ok_Nil)
    obtain y t1 h1 where u: "Table_Update k patch t h = (y, t1, h1)"
      by (cases "Table_Update k patch t h")
    note s = Table_Update_spec(1) [OF assms(1) u ok, of F] Table_Update_spec(2,3) [OF assms(1) u ok]
    show ?thesis
    proof (cases "patch_loop (tb_desc t) patch old")
      case None
      with s assms(2) have "y = Inl GoPanic" "rows_of t1 h1 = rows_of t h" by (simp_all add: patched_def)
      with assms(3) a Inr u None s(1) show ?thesis by (auto simp: upsert_row_def)
    next
      case (Some r')
      with s assms(2) have "y = Inr 1" and m: "rows_of t1 h1 = AList.update k r' (rows_of t h)"
        by (simp_all add: patched_def)
      moreover have "Table_Get k t1 h1 = Some r'" by (simp add: Table_Get_def m AList.update_conv')
      ultimately have "upsert_row L e ins r k w t h = ((Inr (1, r'), w1), t1, h1)"
        using a Inr u by (simp add: upsert_row_def)
      with assms(3) s(1) a Inr Some m show ?thesis by simp
    qed
  qed
qed

lemma insert_body_spec:
  assumes "tb_rows t < length h" and "insert_body L e ins w t h = (res, t', h')"
  shows "table_step (lib_fmt L) t h t' h' \<and> insert_spec L e ins w (tb_desc t) (rows_of t h) = (res, rows_of t' h')"
proof -
  let ?d = "tb_desc t" and ?m = "rows_of t h"
  obtain x w1 where ir: "insert_row L e ?d (in_cols ins) (in_args ins) (replicate (length (td_cols ?d)) Nil_val) w = (x, w1)"
    by (cases "insert_row L e ?d (in_cols ins) (in_args ins) (replicate (length (td_cols ?d)) Nil_val) w")
  show ?thesis
  proof (cases x)
    case (Inl er)
    with ir assms show ?thesis by (auto simp: insert_body_def insert_spec_def)
  next
    case (Inr r)
    consider (refused) "in_conflict ins \<noteq> ConflictNone \<and> \<not> sameColumnSet (in_target ins) (td_pkcols ?d)"
      | (nokey) er where "\<not> (in_conflict ins \<noteq> ConflictNone \<and> \<not> sameColumnSet (in_target ins) (td_pkcols ?d))"
          "PKKey (lib_fmt L) ?d r = Inl er"
      | (fresh) k where "\<not> (in_conflict ins \<noteq> ConflictNone \<and> \<not> sameColumnSet (in_target ins) (td_pkcols ?d))"
          "PKKey (lib_fmt L) ?d r = Inr k" "map_of ?m k = None"
      | (old) k old where "\<not> (in_conflict ins \<noteq> ConflictNone \<and> \<not> sameColumnSet (in_target ins) (td_pkcols ?d))"
          "PKKey (lib_fmt L) ?d r = Inr k" "map_of ?m k = Some old"
      by (cases "PKKey (lib_fmt L) ?d r"; cases "map_of ?m (projr (PKKey (lib_fmt L) ?d r))") auto
    then show ?thesis
    proof cases
      case refused
      with assms ir Inr show ?thesis by (auto simp: insert_body_def insert_spec_def)
    next
      case nokey
      with assms ir Inr store_row_spec [OF assms(1), of L r w1] show ?thesis
        by (cases "in_conflict ins = ConflictNone") (auto simp: insert_body_def insert_spec_def)
    next
      case fresh
      with assms ir Inr have "store_row L r w1 t h = (res, t', h')"
        by (cases "in_conflict ins = ConflictNone") (auto simp: insert_body_def Table_Get_def)
      from store_row_spec [OF assms(1) this] fresh ir Inr show ?thesis
        by (auto simp: insert_spec_def)
    next
      case old
      show ?thesis
      proof (cases "in_conflict ins")
        case ConflictNone
        with assms ir Inr have "store_row L r w1 t h = (res, t', h')" by (auto simp: insert_body_def)
        from store_row_spec [OF assms(1) this] old ir Inr ConflictNone show ?thesis
          by (auto simp: insert_spec_def)
      next
        case ConflictNothing
        with assms ir Inr old show ?thesis by (auto simp: insert_body_def insert_spec_def Table_Get_def)
      next
        case ConflictUpdate
        with assms ir Inr old have "upsert_row L e ins r k w1 t h = (res, t', h')"
          by (auto simp: insert_body_def Table_Get_def)
        from upsert_row_spec [OF assms(1) old(3) this, of "lib_fmt L"] old ir Inr ConflictUpdate show ?thesis
          by (simp add: insert_spec_def)
      qed
    qed
  qed
qed

lemma update_scan_spec:
  assumes "tb_rows t < length h" and "rows_ok F (tb_desc t) (rows_of t h)" and "patch_ok (tb_desc t) patch"
    and "update_scan L e preds patch w t h = (res, t', h')"
  shows "table_step F t h t' h'
    \<and> update_loop L e (tb_desc t) preds patch (sort (map fst (rows_of t h))) 0 w (rows_of t h) = (res, rows_of t' h')"
proof -
  obtain y n' w' t1 h1 where
    sk: "ScanKeyed (\<lambda>(n, w, t, h). h) (update_visit L e preds patch) t (0, w, t, h) = (y, n', w', t1, h1)"
    by (rule prod_cases5)
  with assms(4) have "(res, t', h') = ((case y of Some er \<Rightarrow> Inl er | None \<Rightarrow> Inr n', w'), t1, h1)"
    by (auto simp: update_scan_def split: option.splits)
  moreover from sk have "table_step F t h t1 h1
      \<and> update_loop L e (tb_desc t) preds patch (scan_keys t h) 0 w (rows_of t h)
        = ((case y of Some er \<Rightarrow> Inl er | None \<Rightarrow> Inr n', w'), rows_of t1 h1)"
    by (intro update_scan_loop [where a = "tb_rows t"])
      (simp_all add: ScanKeyed_def assms(1,3) distinct_scan_keys [OF assms(2)])
  ultimately show ?thesis by (simp add: scan_keys_def sort_loop_eq_sort)
qed

lemma update_body_spec:
  assumes "tb_rows t < length h" and "rows_ok F (tb_desc t) (rows_of t h)"
    and "update_body L e upd w t h = (res, t', h')"
  shows "table_step F t h t' h' \<and> update_spec L e upd w (tb_desc t) (rows_of t h) = (res, rows_of t' h')"
proof (cases "up_where upd = []")
  case True
  with assms show ?thesis by (auto simp: update_body_def update_spec_def)
next
  case False
  let ?d = "tb_desc t" and ?m = "rows_of t h"
  obtain x w1 where a: "assign_loop L e ?d (up_set upd) [] w = (x, w1)"
    by (cases "assign_loop L e ?d (up_set upd) [] w")
  obtain v w2 where k: "matchesPK L e ?d (up_where upd) w1 = (v, w2)"
    by (cases "matchesPK L e ?d (up_where upd) w1")
  show ?thesis
  proof (cases x)
    case (Inl er)
    with a assms False show ?thesis by (auto simp: update_body_def update_spec_def)
  next
    case (Inr patch)
    with a have ok: "patch_ok ?d patch" by (auto dest: assign_loop_patch_ok_Nil)
    consider (err) er where "v = Inl er" | (scan) "v = Inr None" | (key) vals where "v = Inr (Some vals)"
      by (metis obj_sumE option.exhaust)
    then show ?thesis
    proof cases
      case err
      with a k Inr assms False show ?thesis by (auto simp: update_body_def update_spec_def visit_keys_def)
    next
      case scan
      with a k Inr False assms(3) have "update_scan L e (up_where upd) patch w2 t h = (res, t', h')"
        by (simp add: update_body_def)
      from update_scan_spec [OF assms(1,2) ok this] a k Inr scan False show ?thesis
        by (simp add: update_spec_def visit_keys_def)
    next
      case key
      let ?k = "pkKeyFromValues (lib_fmt L) vals"
      obtain y t1 h1 where u: "Table_Update ?k patch t h = (y, t1, h1)" by (cases "Table_Update ?k patch t h")
      note s = Table_Update_spec(1) [OF assms(1) u ok, of F] Table_Update_spec(2,3) [OF assms(1) u ok]
      have "update_spec L e upd w ?d ?m = update_loop L e ?d (up_where upd) patch [?k] 0 w2 ?m"
        using a k Inr key False by (simp add: update_spec_def visit_keys_def)
      with assms(1,3) a k Inr key False u s show ?thesis
        by (auto simp: update_body_def Table_Get_def patched_def
            split: option.splits prod.splits sum.splits if_splits)
    qed
  qed
qed

lemma delete_scan_spec:
  assumes "tb_rows t < length h" and "rows_ok F (tb_desc t) (rows_of t h)"
    and "delete_scan L e preds w t h = (res, t', h')"
  shows "table_step F t h t' h' \<and> (res, rows_of t' h') =
    (case where_loop L e (tb_desc t) preds (rows_of t h) (sort (map fst (rows_of t h))) w of
       (Inl er, w) \<Rightarrow> ((Inl er, w), rows_of t h)
     | (Inr hits, w) \<Rightarrow>
         ((Inr (int (length hits)), w), foldl (\<lambda>m k. AList.delete k m) (rows_of t h) hits))"
proof -
  let ?d = "tb_desc t" and ?m = "rows_of t h"
  obtain y w3 where wl: "where_loop L e ?d preds ?m (scan_keys t h) w = (y, w3)"
    by (cases "where_loop L e ?d preds ?m (scan_keys t h) w")
  have loop: "case y of
      Inl er \<Rightarrow> \<exists>keys'. ScanKeyed fst (delete_visit L e ?d preds) t (h, [], w) = (Some er, h, keys', w3)
    | Inr hits \<Rightarrow> ScanKeyed fst (delete_visit L e ?d preds) t (h, [], w) = (None, h, hits, w3)"
    using delete_scan_loop [where a = "tb_rows t" and h = h and keys = "[]" and ks = "scan_keys t h"
        and L = L and e = e and d = ?d and preds = preds and w = w] wl
    by (simp add: ScanKeyed_def split: sum.splits)
  have sk: "sort (map fst ?m) = scan_keys t h" by (simp add: scan_keys_def sort_loop_eq_sort)
  show ?thesis
  proof (cases y)
    case (Inl er)
    with loop assms(1,3) wl show ?thesis by (auto simp: delete_scan_def sk)
  next
    case (Inr hits)
    obtain n t1 h1 where dk: "delete_keys hits 0 t h = (n, t1, h1)" by (cases "delete_keys hits 0 t h")
    note hs = where_loop_hits [OF wl [unfolded Inr]]
    with delete_keys_spec [OF assms(1) dk, of F] distinct_scan_keys [OF assms(2)]
    have "table_step F t h t1 h1 \<and> rows_of t1 h1 = foldl (\<lambda>m k. AList.delete k m) ?m hits
        \<and> n = int (length hits)" by simp
    with loop assms(3) dk Inr wl show ?thesis by (auto simp: delete_scan_def sk)
  qed
qed

lemma delete_body_spec:
  assumes "tb_rows t < length h" and "rows_ok F (tb_desc t) (rows_of t h)"
    and "delete_body L e del w t h = (res, t', h')"
  shows "table_step F t h t' h' \<and> delete_spec L e del w (tb_desc t) (rows_of t h) = (res, rows_of t' h')"
proof (cases "de_where del = []")
  case True
  with assms show ?thesis by (auto simp: delete_body_def delete_spec_def)
next
  case False
  let ?d = "tb_desc t" and ?p = "de_where del"
  obtain v w2 where k: "matchesPK L e ?d ?p w = (v, w2)" by (cases "matchesPK L e ?d ?p w")
  consider (err) er where "v = Inl er" | (scan) "v = Inr None" | (key) vals where "v = Inr (Some vals)"
    by (metis obj_sumE option.exhaust)
  then show ?thesis
  proof cases
    case err
    with k assms False show ?thesis by (auto simp: delete_body_def delete_spec_def visit_keys_def)
  next
    case scan
    with k False assms(3) have "delete_scan L e ?p w2 t h = (res, t', h')" by (simp add: delete_body_def)
    from delete_scan_spec [OF assms(1,2) this] k scan False show ?thesis
      by (simp add: delete_spec_def visit_keys_def)
  next
    case key
    let ?k = "pkKeyFromValues (lib_fmt L) vals"
    obtain y t1 h1 where u: "Table_Delete ?k t h = (y, t1, h1)" by (cases "Table_Delete ?k t h")
    note s = Table_Delete_spec(1) [OF assms(1) u, of F] Table_Delete_spec(2,3) [OF assms(1) u]
    from assms(1,3) k key False u s show ?thesis
      by (auto simp: delete_body_def delete_spec_def visit_keys_def Table_Get_def
          split: option.splits prod.splits sum.splits if_splits)
  qed
qed

interpretation ins: table_program "lib_fmt L" "insert_body L e ins w" "insert_spec L e ins w" for L e ins w
  by unfold_locales (use insert_body_spec in blast)+

interpretation upd: table_program F "update_body L e upd w" "update_spec L e upd w" for F L e upd w
  by unfold_locales (use update_body_spec in blast)+

interpretation del: table_program F "delete_body L e del w" "delete_spec L e del w" for F L e del w
  by unfold_locales (use delete_body_spec in blast)+

end
