(* ===== verification/SimPool.thy ===== *)
theory SimPool
  imports StubCache SimSpec
begin

text \<open>
  The simulator's pool and the sandboxes built on it:
  \<open>internal/runtime/sandbox/sim/pool.go\<close>, and \<open>sandbox.go\<close>, \<open>marks.go\<close>, \<open>fork.go\<close>,
  \<open>snapshot.go\<close> and \<open>outbox.go\<close> of \<open>internal/runtime/sandbox\<close>.

  A \<open>Family\<close> is one sandbox made by \<open>New\<close> with all its descendants by \<open>Fork\<close>: they hold the
  same catalog, the same clock and row maps in the same store. The index of a sandbox in
  the family stands for its pointer. The SQL parser, the clock, SHA-256 and \<open>encoding/gob\<close>
  are arguments, collected in the record \<open>world\<close>. The embedded Postgres backend is not
  modelled: a sandbox on it is one without a pool.
\<close>

section \<open>The pool\<close>

record Pool =
  pl_tables :: "(string \<times> Table) list"
  pl_warned :: "string list"
  pl_warnings :: "string list"

definition NewPool :: Pool where
  "NewPool = \<lparr>pl_tables = [], pl_warned = [], pl_warnings = []\<rparr>"

definition warnHypertableOnce :: "Catalog \<Rightarrow> string \<Rightarrow> Pool \<Rightarrow> Pool" where
  "warnHypertableOnce c q p =
     (case Lookup c q of
        None \<Rightarrow> p
      | Some d \<Rightarrow>
          if td_time d = [] then p
          else if q \<in> set (pl_warned p) then p
          else p\<lparr>pl_warned := q # pl_warned p,
                 pl_warnings := pl_warnings p @
                   [''hypertable '' @ q @ '' executed as regular table (time_field='' @ td_time d
                    @ ''); production performance not represented'']\<rparr>)"

definition put_table :: "string \<Rightarrow> Table \<Rightarrow> Pool \<Rightarrow> Pool" where
  "put_table q t p = p\<lparr>pl_tables := AList.update q t (pl_tables p)\<rparr>"

definition env_table :: "Catalog \<Rightarrow> TableRef \<Rightarrow> Pool \<Rightarrow> rheap \<Rightarrow> (sim_err + Table) \<times> Pool \<times> rheap" where
  "env_table c ref p h =
     (let q = Ref_Qualified ref in
      case Lookup c q of
        None \<Rightarrow> (Inl ErrTableNotFound, p, h)
      | Some d \<Rightarrow>
          (case map_of (pl_tables p) q of
             Some t \<Rightarrow> (Inr t, warnHypertableOnce c q p, h)
           | None \<Rightarrow>
               (case NewTable d h of (t, h) \<Rightarrow>
                  (Inr t, warnHypertableOnce c q (put_table q t p), h))))"

text \<open>A statement body run on the table \<open>env.table\<close> resolves; the pool holds that table.\<close>

definition on_table ::
  "Catalog \<Rightarrow> TableRef \<Rightarrow> nat \<Rightarrow> 'a body \<Rightarrow> Pool \<Rightarrow> rheap
   \<Rightarrow> ((sim_err + TableDesc \<times> 'a) \<times> nat) \<times> Pool \<times> rheap" where
  "on_table c ref w body p h =
     (case env_table c ref p h of
        (Inl er, p, h) \<Rightarrow> ((Inl er, w), p, h)
      | (Inr t, p, h) \<Rightarrow>
          (case body t h of
             ((Inl er, w), t', h') \<Rightarrow> ((Inl er, w), put_table (Ref_Qualified ref) t' p, h')
           | ((Inr x, w), t', h') \<Rightarrow>
               ((Inr (tb_desc t, x), w), put_table (Ref_Qualified ref) t' p, h')))"

definition execInsert ::
  "simlib \<Rightarrow> execEnv \<Rightarrow> Insert \<Rightarrow> nat \<Rightarrow> Pool \<Rightarrow> rheap
   \<Rightarrow> ((sim_err + TableDesc \<times> int \<times> row) \<times> nat) \<times> Pool \<times> rheap" where
  "execInsert L e ins w p h =
     on_table (en_catalog e) (in_table ins) w (insert_body L e ins w) p h"

definition execUpdate ::
  "simlib \<Rightarrow> execEnv \<Rightarrow> Update \<Rightarrow> nat \<Rightarrow> Pool \<Rightarrow> rheap
   \<Rightarrow> ((sim_err + TableDesc \<times> int) \<times> nat) \<times> Pool \<times> rheap" where
  "execUpdate L e upd w p h =
     on_table (en_catalog e) (up_table upd) w (update_body L e upd w) p h"

definition execDelete ::
  "simlib \<Rightarrow> execEnv \<Rightarrow> Delete \<Rightarrow> nat \<Rightarrow> Pool \<Rightarrow> rheap
   \<Rightarrow> ((sim_err + TableDesc \<times> int) \<times> nat) \<times> Pool \<times> rheap" where
  "execDelete L e del w p h =
     on_table (en_catalog e) (de_table del) w (delete_body L e del w) p h"

definition execSelect ::
  "simlib \<Rightarrow> execEnv \<Rightarrow> Select \<Rightarrow> nat \<Rightarrow> Pool \<Rightarrow> rheap
   \<Rightarrow> ((sim_err + select_result) \<times> nat) \<times> Pool \<times> rheap" where
  "execSelect L e sel w p h =
     (if tr_schema (se_table sel) = [] \<and> tr_name (se_table sel) = []
      then (execSelectNoFrom L e sel w, p, h)
      else case on_table (en_catalog e) (se_table sel) w
                  (\<lambda>t h. (select_body L e sel w t h, t, h)) p h of
        ((Inl er, w), p, h) \<Rightarrow> ((Inl er, w), p, h)
      | ((Inr (d, x), w), p, h) \<Rightarrow> ((Inr x, w), p, h))"

definition Pool_env :: "Catalog \<Rightarrow> (nat \<Rightarrow> instant) \<Rightarrow> simval list \<Rightarrow> execEnv" where
  "Pool_env c clk args =
     \<lparr>en_catalog = c, en_args = Nil_val # args, en_clock = clk, en_proposed = None, en_scan = None\<rparr>"

datatype Row_handle =
    ErrRow sim_err
  | SimRow "Projection list" row
  | ReturningRow "string list" row TableDesc

definition Row_Scan :: "Row_handle \<Rightarrow> scan_target list \<Rightarrow> sim_err + simval list" where
  "Row_Scan r dest =
     (case r of
        ErrRow e \<Rightarrow> Inl e
      | SimRow projs vals \<Rightarrow> scanProjected projs vals dest
      | ReturningRow cols vals d \<Rightarrow> scanInto d vals cols dest)"

type_synonym sql_parser = "string \<Rightarrow> sim_err + stmt"

definition Pool_QueryRow ::
  "simlib \<Rightarrow> sql_parser \<Rightarrow> (nat \<Rightarrow> instant) \<Rightarrow> Catalog \<Rightarrow> string \<Rightarrow> simval list \<Rightarrow> nat \<Rightarrow> Pool \<Rightarrow> rheap
   \<Rightarrow> (Row_handle \<times> nat) \<times> Pool \<times> rheap" where
  "Pool_QueryRow L parse clk c sql args w p h =
     (case parse sql of
        Inl er \<Rightarrow> ((ErrRow er, w), p, h)
      | Inr (SelectStmt s) \<Rightarrow>
          (case execSelect L (Pool_env c clk args) s w p h of
             ((Inl er, w), p, h) \<Rightarrow> ((ErrRow er, w), p, h)
           | ((Inr (projs, rows, n), w), p, h) \<Rightarrow>
               (case rows of
                  [] \<Rightarrow> ((ErrRow ErrNoRows, w), p, h)
                | r # rs \<Rightarrow> ((SimRow projs r, w), p, h)))
      | Inr (InsertStmt s) \<Rightarrow>
          if in_returning s = [] then ((ErrRow (ErrExec ''QueryRow over INSERT requires RETURNING''), w), p, h)
          else (case execInsert L (Pool_env c clk args) s w p h of
             ((Inl er, w), p, h) \<Rightarrow> ((ErrRow er, w), p, h)
           | ((Inr (d, n, r), w), p, h) \<Rightarrow> ((ReturningRow (in_returning s) r d, w), p, h))
      | Inr (UpdateStmt s) \<Rightarrow> ((ErrRow ErrUnsupported, w), p, h)
      | Inr (DeleteStmt s) \<Rightarrow> ((ErrRow ErrUnsupported, w), p, h))"

text \<open>The forward-only cursors \<open>simRows\<close> and \<open>returningRows\<close>.\<close>

datatype cursor_kind = SimRows "Projection list" | ReturningRows "string list" TableDesc

record Rows_cursor =
  cu_kind :: cursor_kind
  cu_rows :: "row list"
  cu_idx :: nat
  cu_cur :: "row option"
  cu_err :: "sim_err option"

definition new_cursor :: "cursor_kind \<Rightarrow> row list \<Rightarrow> Rows_cursor" where
  "new_cursor k rows = \<lparr>cu_kind = k, cu_rows = rows, cu_idx = 0, cu_cur = None, cu_err = None\<rparr>"

definition Rows_Next :: "Rows_cursor \<Rightarrow> bool \<times> Rows_cursor" where
  "Rows_Next r =
     (if cu_idx r \<ge> length (cu_rows r) then (False, r)
      else (True, r\<lparr>cu_cur := Some (cu_rows r ! cu_idx r), cu_idx := cu_idx r + 1\<rparr>))"

definition Rows_Scan :: "Rows_cursor \<Rightarrow> scan_target list \<Rightarrow> (sim_err + simval list) \<times> Rows_cursor" where
  "Rows_Scan r dest =
     (case cu_cur r of
        None \<Rightarrow> (Inl (ErrScan ''Scan called before Next''), r)
      | Some vals \<Rightarrow>
          (case (case cu_kind r of
                   SimRows projs \<Rightarrow> scanProjected projs vals dest
                 | ReturningRows cols d \<Rightarrow> scanInto d vals cols dest) of
             Inl e \<Rightarrow> (Inl e, r\<lparr>cu_err := Some e\<rparr>)
           | Inr xs \<Rightarrow> (Inr xs, r)))"

definition projectionColumnNames :: "Projection list \<Rightarrow> string list" where
  "projectionColumnNames projs =
     map (\<lambda>p. if IsWindowCount p then pj_window p
              else if pj_alias p \<noteq> [] then pj_alias p
              else if pj_column p \<noteq> [] then pj_column p
              else ''?column?'') projs"

definition Rows_Columns :: "Rows_cursor \<Rightarrow> string list" where
  "Rows_Columns r =
     (case cu_kind r of SimRows projs \<Rightarrow> projectionColumnNames projs | ReturningRows cols d \<Rightarrow> cols)"

definition Pool_Query ::
  "simlib \<Rightarrow> sql_parser \<Rightarrow> (nat \<Rightarrow> instant) \<Rightarrow> Catalog \<Rightarrow> string \<Rightarrow> simval list \<Rightarrow> nat \<Rightarrow> Pool \<Rightarrow> rheap
   \<Rightarrow> ((sim_err + Rows_cursor) \<times> nat) \<times> Pool \<times> rheap" where
  "Pool_Query L parse clk c sql args w p h =
     (case parse sql of
        Inl er \<Rightarrow> ((Inl er, w), p, h)
      | Inr (SelectStmt s) \<Rightarrow>
          (case execSelect L (Pool_env c clk args) s w p h of
             ((Inl er, w), p, h) \<Rightarrow> ((Inl er, w), p, h)
           | ((Inr (projs, rows, n), w), p, h) \<Rightarrow> ((Inr (new_cursor (SimRows projs) rows), w), p, h))
      | Inr (InsertStmt s) \<Rightarrow>
          if in_returning s = [] then ((Inl (ErrExec ''Query over INSERT requires RETURNING''), w), p, h)
          else (case execInsert L (Pool_env c clk args) s w p h of
             ((Inl er, w), p, h) \<Rightarrow> ((Inl er, w), p, h)
           | ((Inr (d, n, r), w), p, h) \<Rightarrow>
               ((Inr (new_cursor (ReturningRows (in_returning s) d) [r]), w), p, h))
      | Inr (UpdateStmt s) \<Rightarrow> ((Inl ErrUnsupported, w), p, h)
      | Inr (DeleteStmt s) \<Rightarrow> ((Inl ErrUnsupported, w), p, h))"

definition Pool_Exec ::
  "simlib \<Rightarrow> sql_parser \<Rightarrow> (nat \<Rightarrow> instant) \<Rightarrow> Catalog \<Rightarrow> string \<Rightarrow> simval list \<Rightarrow> nat \<Rightarrow> Pool \<Rightarrow> rheap
   \<Rightarrow> ((sim_err + int) \<times> nat) \<times> Pool \<times> rheap" where
  "Pool_Exec L parse clk c sql args w p h =
     (case parse sql of
        Inl er \<Rightarrow> ((Inl er, w), p, h)
      | Inr (InsertStmt s) \<Rightarrow>
          (case execInsert L (Pool_env c clk args) s w p h of
             ((Inl er, w), p, h) \<Rightarrow> ((Inl er, w), p, h)
           | ((Inr (d, n, r), w), p, h) \<Rightarrow> ((Inr n, w), p, h))
      | Inr (UpdateStmt s) \<Rightarrow>
          (case execUpdate L (Pool_env c clk args) s w p h of
             ((Inl er, w), p, h) \<Rightarrow> ((Inl er, w), p, h)
           | ((Inr (d, n), w), p, h) \<Rightarrow> ((Inr n, w), p, h))
      | Inr (DeleteStmt s) \<Rightarrow>
          (case execDelete L (Pool_env c clk args) s w p h of
             ((Inl er, w), p, h) \<Rightarrow> ((Inl er, w), p, h)
           | ((Inr (d, n), w), p, h) \<Rightarrow> ((Inr n, w), p, h))
      | Inr (SelectStmt s) \<Rightarrow> ((Inl ErrUnsupported, w), p, h))"

section \<open>Export, capture, import\<close>

definition export_table :: "Pool \<Rightarrow> rheap \<Rightarrow> string \<Rightarrow> row list" where
  "export_table p h q =
     (case map_of (pl_tables p) q of
        None \<Rightarrow> []
      | Some t \<Rightarrow> snd (Scan (\<lambda>r rows. (None, rows @ [r])) t h []))"

definition ExportRows :: "Catalog \<Rightarrow> Pool \<Rightarrow> rheap \<Rightarrow> (string \<times> row list) list" where
  "ExportRows c p h = map (\<lambda>q. (q, export_table p h q)) (QualifiedNames c)"

text \<open>A captured state: the address of the row map of each table.\<close>

type_synonym captured = "(string \<times> nat) list"

fun capture_loop :: "Pool \<Rightarrow> string list \<Rightarrow> captured \<Rightarrow> rheap \<Rightarrow> captured \<times> rheap" where
  "capture_loop p [] out h = (out, h)"
| "capture_loop p (q # qs) out h =
     (case map_of (pl_tables p) q of
        None \<Rightarrow> capture_loop p qs out h
      | Some t \<Rightarrow> (case CurrentRows t h of (a, h) \<Rightarrow> capture_loop p qs (AList.update q a out) h))"

definition CapturePointers :: "Catalog \<Rightarrow> Pool \<Rightarrow> rheap \<Rightarrow> captured \<times> rheap" where
  "CapturePointers c p h = capture_loop p (QualifiedNames c) [] h"

definition ForkPointers :: "Catalog \<Rightarrow> Pool \<Rightarrow> rheap \<Rightarrow> captured \<times> rheap" where
  "ForkPointers c p h = CapturePointers c p h"

fun replace_loop :: "captured \<Rightarrow> Pool \<Rightarrow> Pool" where
  "replace_loop [] p = p"
| "replace_loop ((q, a) # snap) p =
     (case map_of (pl_tables p) q of
        None \<Rightarrow> replace_loop snap p
      | Some t \<Rightarrow> replace_loop snap (put_table q (ReplaceRows a t) p))"

fun reset_loop :: "captured \<Rightarrow> string list \<Rightarrow> Pool \<Rightarrow> rheap \<Rightarrow> Pool \<times> rheap" where
  "reset_loop snap [] p h = (p, h)"
| "reset_loop snap (q # qs) p h =
     (if map_of snap q \<noteq> None then reset_loop snap qs p h
      else case map_of (pl_tables p) q of
        None \<Rightarrow> reset_loop snap qs p h
      | Some t \<Rightarrow> reset_loop snap qs (put_table q (ReplaceRows (length h) t) p) (h @ [empty_map]))"

definition ReplaceFromPointers :: "Catalog \<Rightarrow> captured \<Rightarrow> Pool \<Rightarrow> rheap \<Rightarrow> Pool \<times> rheap" where
  "ReplaceFromPointers c snap p h = reset_loop snap (QualifiedNames c) (replace_loop snap p) h"

fun install_loop :: "Catalog \<Rightarrow> captured \<Rightarrow> string list \<Rightarrow> Pool \<Rightarrow> rheap \<Rightarrow> Pool \<times> rheap" where
  "install_loop c snap [] p h = (p, h)"
| "install_loop c snap (q # qs) p h =
     (case Lookup c q of
        None \<Rightarrow> install_loop c snap qs p h
      | Some d \<Rightarrow>
          (case NewTable d h of (t, h) \<Rightarrow>
             install_loop c snap qs
               (put_table q (case map_of snap q of None \<Rightarrow> t | Some a \<Rightarrow> ReplaceRows a t) p) h))"

definition InstallSharedPointers :: "Catalog \<Rightarrow> captured \<Rightarrow> Pool \<Rightarrow> rheap \<Rightarrow> Pool \<times> rheap" where
  "InstallSharedPointers c snap p h = install_loop c snap (QualifiedNames c) p h"

fun insert_all :: "go_fmt \<Rightarrow> row list \<Rightarrow> Table \<Rightarrow> rheap \<Rightarrow> sim_err option \<times> Table \<times> rheap" where
  "insert_all F [] t h = (None, t, h)"
| "insert_all F (r # rs) t h =
     (case Table_Insert F r t h of
        (Inl e, t, h) \<Rightarrow> (Some e, t, h)
      | (Inr key, t, h) \<Rightarrow> insert_all F rs t h)"

definition rows_in :: "(string \<times> row list) list \<Rightarrow> string \<Rightarrow> row list" where
  "rows_in rows q = (case map_of rows q of None \<Rightarrow> [] | Some rs \<Rightarrow> rs)"

fun import_loop ::
  "go_fmt \<Rightarrow> Catalog \<Rightarrow> (string \<times> row list) list \<Rightarrow> string list \<Rightarrow> Pool \<Rightarrow> rheap
   \<Rightarrow> sim_err option \<times> Pool \<times> rheap" where
  "import_loop F c rows [] p h = (None, p, h)"
| "import_loop F c rows (q # qs) p h =
     (case Lookup c q of
        None \<Rightarrow> import_loop F c rows qs p h
      | Some d \<Rightarrow>
          (case NewTable d h of (t, h) \<Rightarrow>
             (case insert_all F (rows_in rows q) t h of
                (Some e, t, h) \<Rightarrow> (Some e, p, h)
              | (None, t, h) \<Rightarrow> import_loop F c rows qs (put_table q t p) h)))"

definition ImportRows ::
  "go_fmt \<Rightarrow> Catalog \<Rightarrow> (string \<times> row list) list \<Rightarrow> Pool \<Rightarrow> rheap \<Rightarrow> sim_err option \<times> Pool \<times> rheap" where
  "ImportRows F c rows p h =
     (if list_ex (\<lambda>(q, rs). Lookup c q = None) rows then (Some (ErrExec ''table not in catalog''), p, h)
      else import_loop F c rows (QualifiedNames c) p h)"

section \<open>The stub of the outbox\<close>

record Outbox =
  ox_enqueues :: "(string \<times> string \<times> int) list"
  ox_bumps :: "string list"

definition NewOutbox :: Outbox where
  "NewOutbox = \<lparr>ox_enqueues = [], ox_bumps = []\<rparr>"

definition Outbox_Enqueue :: "string \<Rightarrow> string \<Rightarrow> int \<Rightarrow> Outbox \<Rightarrow> Outbox" where
  "Outbox_Enqueue entity rid newVersion ox = ox\<lparr>ox_enqueues := ox_enqueues ox @ [(entity, rid, newVersion)]\<rparr>"

definition Outbox_EnqueueGenerationBump :: "string \<Rightarrow> Outbox \<Rightarrow> Outbox" where
  "Outbox_EnqueueGenerationBump entity ox = ox\<lparr>ox_bumps := ox_bumps ox @ [entity]\<rparr>"

definition Outbox_Recorded :: "Outbox \<Rightarrow> (string \<times> string \<times> int) list \<times> string list" where
  "Outbox_Recorded ox = (ox_enqueues ox, ox_bumps ox)"

definition Outbox_Reset :: "Outbox \<Rightarrow> Outbox" where
  "Outbox_Reset ox = ox\<lparr>ox_enqueues := [], ox_bumps := []\<rparr>"

section \<open>Sandboxes\<close>

record encodedSnapshot =
  es_magic :: string
  es_format :: int
  es_saved_at :: instant
  es_signature :: string
  es_tables :: "(string \<times> row list) list"

record world =
  wd_lib :: simlib
  wd_parse :: sql_parser
  wd_clock :: "nat \<Rightarrow> instant"
  wd_sha :: "bytes \<Rightarrow> string"
  gob_encode :: "encodedSnapshot \<Rightarrow> bytes option"
  gob_decode :: "bytes \<Rightarrow> encodedSnapshot option"

abbreviation wd_fmt :: "world \<Rightarrow> go_fmt" where
  "wd_fmt X \<equiv> lib_fmt (wd_lib X)"

record Sandbox =
  sb_pool :: "Pool option"
  sb_cache :: "SetCall list"
  sb_outbox :: Outbox

record Family =
  fa_catalog :: Catalog
  fa_heap :: rheap
  fa_sandboxes :: "Sandbox list"
  fa_reads :: nat

record Mark =
  mk_owner :: nat
  mk_captured :: captured

datatype sb_err = ErrFeatureRequiresSim | ErrNilMark | ErrMarkOwnerMismatch | ErrNegativeFork
  | ErrSnapshotSchemaMismatch | ErrSnapshotFormat | ErrSnapshotEncode | ErrSnapshotDecode
  | ErrImport sim_err | NilPool

definition newSim :: "Family" where
  "newSim = \<lparr>fa_catalog = NewCatalog, fa_heap = [],
     fa_sandboxes = [\<lparr>sb_pool = Some NewPool, sb_cache = NewCache, sb_outbox = NewOutbox\<rparr>],
     fa_reads = 0\<rparr>"

abbreviation pool_of :: "Family \<Rightarrow> nat \<Rightarrow> Pool option" where
  "pool_of f i \<equiv> sb_pool (fa_sandboxes f ! i)"

definition set_pool :: "nat \<Rightarrow> Pool \<Rightarrow> Family \<Rightarrow> Family" where
  "set_pool i p f = f\<lparr>fa_sandboxes := (fa_sandboxes f)[i := (fa_sandboxes f ! i)\<lparr>sb_pool := Some p\<rparr>]\<rparr>"

definition Sandbox_Mark :: "nat \<Rightarrow> Family \<Rightarrow> Mark option \<times> Family" where
  "Sandbox_Mark i f =
     (case pool_of f i of
        None \<Rightarrow> (None, f)
      | Some p \<Rightarrow>
          (case CapturePointers (fa_catalog f) p (fa_heap f) of (cap, h) \<Rightarrow>
             (Some \<lparr>mk_owner = i, mk_captured = cap\<rparr>, f\<lparr>fa_heap := h\<rparr>)))"

definition RestoreTo :: "nat \<Rightarrow> Mark option \<Rightarrow> Family \<Rightarrow> sb_err option \<times> Family" where
  "RestoreTo i mk f =
     (case pool_of f i of
        None \<Rightarrow> (Some ErrFeatureRequiresSim, f)
      | Some p \<Rightarrow>
          (case mk of
             None \<Rightarrow> (Some ErrNilMark, f)
           | Some m \<Rightarrow>
               if mk_owner m \<noteq> i then (Some ErrMarkOwnerMismatch, f)
               else case ReplaceFromPointers (fa_catalog f) (mk_captured m) p (fa_heap f) of (p, h) \<Rightarrow>
                 (None, set_pool i p (f\<lparr>fa_heap := h\<rparr>))))"

definition forkOne :: "captured \<Rightarrow> Family \<Rightarrow> Family" where
  "forkOne shared f =
     (case InstallSharedPointers (fa_catalog f) shared NewPool (fa_heap f) of (p, h) \<Rightarrow>
        f\<lparr>fa_heap := h,
          fa_sandboxes := fa_sandboxes f @
            [\<lparr>sb_pool = Some p, sb_cache = NewCache, sb_outbox = NewOutbox\<rparr>]\<rparr>)"

text \<open>The children are the sandboxes with the returned indices.\<close>

definition Fork :: "nat \<Rightarrow> int \<Rightarrow> Family \<Rightarrow> (sb_err + nat list) \<times> Family" where
  "Fork i n f =
     (case pool_of f i of
        None \<Rightarrow> (Inl ErrFeatureRequiresSim, f)
      | Some p \<Rightarrow>
          if n < 0 then (Inl ErrNegativeFork, f)
          else if n = 0 then (Inr [], f)
          else case ForkPointers (fa_catalog f) p (fa_heap f) of (shared, h) \<Rightarrow>
            (Inr [length (fa_sandboxes f) ..< length (fa_sandboxes f) + nat n],
             (forkOne shared ^^ nat n) (f\<lparr>fa_heap := h\<rparr>)))"

definition snapshotMagic :: string where "snapshotMagic = ''atl-sandbox-snapshot''"
definition snapshotFormat :: int where "snapshotFormat = 1"

definition Sandbox_Snapshot :: "world \<Rightarrow> nat \<Rightarrow> Family \<Rightarrow> (sb_err + bytes) \<times> Family" where
  "Sandbox_Snapshot X i f =
     (let f' = f\<lparr>fa_reads := Suc (fa_reads f)\<rparr> in
      case pool_of f i of
        None \<Rightarrow> (Inl NilPool, f')
      | Some p \<Rightarrow>
          (case gob_encode X \<lparr>es_magic = snapshotMagic, es_format = snapshotFormat,
                  es_saved_at = wd_clock X (fa_reads f),
                  es_signature = Signature (wd_sha X) (fa_catalog f),
                  es_tables = ExportRows (fa_catalog f) p (fa_heap f)\<rparr> of
             None \<Rightarrow> (Inl ErrSnapshotEncode, f')
           | Some blob \<Rightarrow> (Inr blob, f')))"

definition Sandbox_Restore :: "world \<Rightarrow> nat \<Rightarrow> bytes \<Rightarrow> Family \<Rightarrow> sb_err option \<times> Family" where
  "Sandbox_Restore X i blob f =
     (case gob_decode X blob of
        None \<Rightarrow> (Some ErrSnapshotDecode, f)
      | Some dec \<Rightarrow>
          if es_magic dec \<noteq> snapshotMagic then (Some ErrSnapshotFormat, f)
          else if es_format dec \<noteq> snapshotFormat then (Some ErrSnapshotFormat, f)
          else case pool_of f i of
            None \<Rightarrow> (Some NilPool, f)
          | Some p \<Rightarrow>
              if es_signature dec \<noteq> Signature (wd_sha X) (fa_catalog f)
              then (Some ErrSnapshotSchemaMismatch, f)
              else case ImportRows (wd_fmt X) (fa_catalog f) (es_tables dec) p (fa_heap f) of (er, p, h) \<Rightarrow>
                (map_option ErrImport er, set_pool i p (f\<lparr>fa_heap := h\<rparr>)))"

text \<open>A statement through \<open>Sandbox.Pool()\<close>, on the simulator.\<close>

datatype call = ExecCall string "simval list" | QueryCall string "simval list"
  | QueryRowCall string "simval list"

datatype reply = ExecReply "sim_err + int" | QueryReply "sim_err + Rows_cursor"
  | QueryRowReply Row_handle

definition pool_call :: "world \<Rightarrow> Catalog \<Rightarrow> call \<Rightarrow> nat \<Rightarrow> Pool \<Rightarrow> rheap \<Rightarrow> (reply \<times> nat) \<times> Pool \<times> rheap" where
  "pool_call X c cl w p h =
     (case cl of
        ExecCall sql args \<Rightarrow>
          (case Pool_Exec (wd_lib X) (wd_parse X) (wd_clock X) c sql args w p h of
             ((r, w), p, h) \<Rightarrow> ((ExecReply r, w), p, h))
      | QueryCall sql args \<Rightarrow>
          (case Pool_Query (wd_lib X) (wd_parse X) (wd_clock X) c sql args w p h of
             ((r, w), p, h) \<Rightarrow> ((QueryReply r, w), p, h))
      | QueryRowCall sql args \<Rightarrow>
          (case Pool_QueryRow (wd_lib X) (wd_parse X) (wd_clock X) c sql args w p h of
             ((r, w), p, h) \<Rightarrow> ((QueryRowReply r, w), p, h)))"

definition Sandbox_call :: "world \<Rightarrow> nat \<Rightarrow> call \<Rightarrow> Family \<Rightarrow> reply option \<times> Family" where
  "Sandbox_call X i cl f =
     (case pool_of f i of
        None \<Rightarrow> (None, f)
      | Some p \<Rightarrow>
          (case pool_call X (fa_catalog f) cl (fa_reads f) p (fa_heap f) of
             ((r, w), p, h) \<Rightarrow> (Some r, set_pool i p (f\<lparr>fa_heap := h, fa_reads := w\<rparr>))))"

end
