(* ===== verification/SimAbstract.thy ===== *)
theory SimAbstract
  imports SimPool
begin

text \<open>
  What sandboxes promise, without row maps that are shared: every sandbox owns its rows
  outright, a mark is a full copy of them, a fork starts from a full copy. \<open>family_do\<close> runs
  one operation of one sandbox on the model of the code, \<open>spec_do\<close> runs it on this
  specification.
\<close>

section \<open>Statements\<close>

type_synonym db = "string \<Rightarrow> rows"

definition tag_desc :: "TableDesc \<Rightarrow> (sim_err + 'a) \<times> nat \<Rightarrow> (sim_err + TableDesc \<times> 'a) \<times> nat" where
  "tag_desc d xw = (case xw of (Inl er, w) \<Rightarrow> (Inl er, w) | (Inr x, w) \<Rightarrow> (Inr (d, x), w))"

definition spec_on ::
  "Catalog \<Rightarrow> TableRef \<Rightarrow> nat \<Rightarrow> (TableDesc \<Rightarrow> rows \<Rightarrow> ((sim_err + 'a) \<times> nat) \<times> rows) \<Rightarrow> db
   \<Rightarrow> ((sim_err + TableDesc \<times> 'a) \<times> nat) \<times> db" where
  "spec_on c ref w spec V =
     (let q = Ref_Qualified ref in
      case Lookup c q of
        None \<Rightarrow> ((Inl ErrTableNotFound, w), V)
      | Some d \<Rightarrow> (case spec d (V q) of (x, m) \<Rightarrow> (tag_desc d x, V(q := m))))"

text \<open>The answer of a \<open>SELECT\<close> on a table that holds just these rows.\<close>

definition select_answer ::
  "simlib \<Rightarrow> execEnv \<Rightarrow> Select \<Rightarrow> nat \<Rightarrow> TableDesc \<Rightarrow> rows \<Rightarrow> ((sim_err + select_result) \<times> nat) \<times> rows" where
  "select_answer L e sel w d m =
     (select_body L e sel w \<lparr>tb_desc = d, tb_rows = 0, tb_serial = 0\<rparr> [\<lparr>rm_m = m, rm_shared = False\<rparr>], m)"

definition select_stmt_spec ::
  "simlib \<Rightarrow> execEnv \<Rightarrow> Select \<Rightarrow> nat \<Rightarrow> db \<Rightarrow> ((sim_err + select_result) \<times> nat) \<times> db" where
  "select_stmt_spec L e s w V =
     (if tr_schema (se_table s) = [] \<and> tr_name (se_table s) = []
      then (execSelectNoFrom L e s w, V)
      else case spec_on (en_catalog e) (se_table s) w (select_answer L e s w) V of
        ((Inl er, w), V) \<Rightarrow> ((Inl er, w), V)
      | ((Inr (d, x), w), V) \<Rightarrow> ((Inr x, w), V))"

definition exec_spec ::
  "world \<Rightarrow> Catalog \<Rightarrow> string \<Rightarrow> simval list \<Rightarrow> nat \<Rightarrow> db \<Rightarrow> ((sim_err + int) \<times> nat) \<times> db" where
  "exec_spec X c sql args w V =
     (let e = Pool_env c (wd_clock X) args; L = wd_lib X in
      case wd_parse X sql of
        Inl er \<Rightarrow> ((Inl er, w), V)
      | Inr (InsertStmt s) \<Rightarrow>
          (case spec_on c (in_table s) w (insert_spec L e s w) V of
             ((Inl er, w), V) \<Rightarrow> ((Inl er, w), V) | ((Inr (d, n, r), w), V) \<Rightarrow> ((Inr n, w), V))
      | Inr (UpdateStmt s) \<Rightarrow>
          (case spec_on c (up_table s) w (update_spec L e s w) V of
             ((Inl er, w), V) \<Rightarrow> ((Inl er, w), V) | ((Inr (d, n), w), V) \<Rightarrow> ((Inr n, w), V))
      | Inr (DeleteStmt s) \<Rightarrow>
          (case spec_on c (de_table s) w (delete_spec L e s w) V of
             ((Inl er, w), V) \<Rightarrow> ((Inl er, w), V) | ((Inr (d, n), w), V) \<Rightarrow> ((Inr n, w), V))
      | Inr (SelectStmt s) \<Rightarrow> ((Inl ErrUnsupported, w), V))"

definition query_spec ::
  "world \<Rightarrow> Catalog \<Rightarrow> string \<Rightarrow> simval list \<Rightarrow> nat \<Rightarrow> db \<Rightarrow> ((sim_err + Rows_cursor) \<times> nat) \<times> db" where
  "query_spec X c sql args w V =
     (let e = Pool_env c (wd_clock X) args; L = wd_lib X in
      case wd_parse X sql of
        Inl er \<Rightarrow> ((Inl er, w), V)
      | Inr (SelectStmt s) \<Rightarrow>
          (case select_stmt_spec L e s w V of
             ((Inl er, w), V) \<Rightarrow> ((Inl er, w), V)
           | ((Inr (projs, rows, n), w), V) \<Rightarrow> ((Inr (new_cursor (SimRows projs) rows), w), V))
      | Inr (InsertStmt s) \<Rightarrow>
          if in_returning s = [] then ((Inl (ErrExec ''Query over INSERT requires RETURNING''), w), V)
          else (case spec_on c (in_table s) w (insert_spec L e s w) V of
             ((Inl er, w), V) \<Rightarrow> ((Inl er, w), V)
           | ((Inr (d, n, r), w), V) \<Rightarrow>
               ((Inr (new_cursor (ReturningRows (in_returning s) d) [r]), w), V))
      | Inr (UpdateStmt s) \<Rightarrow> ((Inl ErrUnsupported, w), V)
      | Inr (DeleteStmt s) \<Rightarrow> ((Inl ErrUnsupported, w), V))"

definition query_row_spec ::
  "world \<Rightarrow> Catalog \<Rightarrow> string \<Rightarrow> simval list \<Rightarrow> nat \<Rightarrow> db \<Rightarrow> (Row_handle \<times> nat) \<times> db" where
  "query_row_spec X c sql args w V =
     (let e = Pool_env c (wd_clock X) args; L = wd_lib X in
      case wd_parse X sql of
        Inl er \<Rightarrow> ((ErrRow er, w), V)
      | Inr (SelectStmt s) \<Rightarrow>
          (case select_stmt_spec L e s w V of
             ((Inl er, w), V) \<Rightarrow> ((ErrRow er, w), V)
           | ((Inr (projs, rows, n), w), V) \<Rightarrow>
               (case rows of
                  [] \<Rightarrow> ((ErrRow ErrNoRows, w), V) | r # rs \<Rightarrow> ((SimRow projs r, w), V)))
      | Inr (InsertStmt s) \<Rightarrow>
          if in_returning s = [] then ((ErrRow (ErrExec ''QueryRow over INSERT requires RETURNING''), w), V)
          else (case spec_on c (in_table s) w (insert_spec L e s w) V of
             ((Inl er, w), V) \<Rightarrow> ((ErrRow er, w), V)
           | ((Inr (d, n, r), w), V) \<Rightarrow> ((ReturningRow (in_returning s) r d, w), V))
      | Inr (UpdateStmt s) \<Rightarrow> ((ErrRow ErrUnsupported, w), V)
      | Inr (DeleteStmt s) \<Rightarrow> ((ErrRow ErrUnsupported, w), V))"

definition call_spec :: "world \<Rightarrow> Catalog \<Rightarrow> call \<Rightarrow> nat \<Rightarrow> db \<Rightarrow> (reply \<times> nat) \<times> db" where
  "call_spec X c cl w V =
     (case cl of
        ExecCall sql args \<Rightarrow> (case exec_spec X c sql args w V of ((r, w), V) \<Rightarrow> ((ExecReply r, w), V))
      | QueryCall sql args \<Rightarrow> (case query_spec X c sql args w V of ((r, w), V) \<Rightarrow> ((QueryReply r, w), V))
      | QueryRowCall sql args \<Rightarrow>
          (case query_row_spec X c sql args w V of ((r, w), V) \<Rightarrow> ((QueryRowReply r, w), V)))"

section \<open>Export and import\<close>

definition export_spec :: "Catalog \<Rightarrow> db \<Rightarrow> (string \<times> row list) list" where
  "export_spec c V = map (\<lambda>q. (q, rows_at (V q) (sort (map fst (V q))))) (QualifiedNames c)"

fun insert_all_spec :: "go_fmt \<Rightarrow> TableDesc \<Rightarrow> row list \<Rightarrow> rows \<Rightarrow> sim_err option \<times> rows" where
  "insert_all_spec F d [] m = (None, m)"
| "insert_all_spec F d (r # rs) m =
     (case PKKey F d r of
        Inl e \<Rightarrow> (Some e, m)
      | Inr k \<Rightarrow> if map_of m k = None then insert_all_spec F d rs (AList.update k r m)
                 else (Some ErrPKConflict, m))"

fun import_loop_spec ::
  "go_fmt \<Rightarrow> Catalog \<Rightarrow> (string \<times> row list) list \<Rightarrow> string list \<Rightarrow> db \<Rightarrow> sim_err option \<times> db" where
  "import_loop_spec F c rows [] V = (None, V)"
| "import_loop_spec F c rows (q # qs) V =
     (case Lookup c q of
        None \<Rightarrow> import_loop_spec F c rows qs V
      | Some d \<Rightarrow>
          (case insert_all_spec F d (rows_in rows q) [] of
             (Some e, m) \<Rightarrow> (Some e, V)
           | (None, m) \<Rightarrow> import_loop_spec F c rows qs (V(q := m))))"

definition import_spec ::
  "go_fmt \<Rightarrow> Catalog \<Rightarrow> (string \<times> row list) list \<Rightarrow> db \<Rightarrow> sim_err option \<times> db" where
  "import_spec F c rows V =
     (if list_ex (\<lambda>(q, rs). Lookup c q = None) rows then (Some (ErrExec ''table not in catalog''), V)
      else import_loop_spec F c rows (QualifiedNames c) V)"

section \<open>Operations of a family\<close>

datatype sb_op =
    Call call
  | TakeMark
  | RewindTo nat
  | ForkInto int
  | Save
  | Load bytes
  | Register TableDesc

datatype sb_reply =
    CallReply "reply option"
  | MarkReply bool
  | ErrReply "sb_err option"
  | ForkReply "sb_err + nat list"
  | BlobReply "sb_err + bytes"
  | RegisterReply "sim_err option"

text \<open>The family with the marks its callers hold, newest last; \<open>RewindTo k\<close> names the \<open>k\<close>-th.\<close>

type_synonym state = "Family \<times> Mark list"

definition nth_mark :: "'m list \<Rightarrow> nat \<Rightarrow> 'm option" where
  "nth_mark ms k = (if k < length ms then Some (ms ! k) else None)"

definition family_do :: "world \<Rightarrow> nat \<Rightarrow> sb_op \<Rightarrow> state \<Rightarrow> sb_reply \<times> state" where
  "family_do X i opn s =
     (case s of (f, ms) \<Rightarrow>
        case opn of
          Call cl \<Rightarrow> (case Sandbox_call X i cl f of (r, f) \<Rightarrow> (CallReply r, f, ms))
        | TakeMark \<Rightarrow>
            (case Sandbox_Mark i f of
               (None, f) \<Rightarrow> (MarkReply False, f, ms)
             | (Some m, f) \<Rightarrow> (MarkReply True, f, ms @ [m]))
        | RewindTo k \<Rightarrow> (case RestoreTo i (nth_mark ms k) f of (e, f) \<Rightarrow> (ErrReply e, f, ms))
        | ForkInto n \<Rightarrow> (case Fork i n f of (r, f) \<Rightarrow> (ForkReply r, f, ms))
        | Save \<Rightarrow> (case Sandbox_Snapshot X i f of (r, f) \<Rightarrow> (BlobReply r, f, ms))
        | Load blob \<Rightarrow> (case Sandbox_Restore X i blob f of (e, f) \<Rightarrow> (ErrReply e, f, ms))
        | Register d \<Rightarrow>
            (case RegisterTable d (fa_catalog f) of (e, c) \<Rightarrow>
               (RegisterReply e, f\<lparr>fa_catalog := c\<rparr>, ms)))"

record spec_state =
  sp_catalog :: Catalog
  sp_reads :: nat
  sp_dbs :: "db option list"
  sp_marks :: "(nat \<times> db) list"

definition spec_call :: "world \<Rightarrow> nat \<Rightarrow> call \<Rightarrow> spec_state \<Rightarrow> sb_reply \<times> spec_state" where
  "spec_call X i cl s =
     (case sp_dbs s ! i of
        None \<Rightarrow> (CallReply None, s)
      | Some V \<Rightarrow>
          (case call_spec X (sp_catalog s) cl (sp_reads s) V of ((r, w), V) \<Rightarrow>
             (CallReply (Some r), s\<lparr>sp_reads := w, sp_dbs := (sp_dbs s)[i := Some V]\<rparr>)))"

definition spec_rewind :: "nat \<Rightarrow> nat \<Rightarrow> spec_state \<Rightarrow> sb_reply \<times> spec_state" where
  "spec_rewind i k s =
     (case sp_dbs s ! i of
        None \<Rightarrow> (ErrReply (Some ErrFeatureRequiresSim), s)
      | Some V \<Rightarrow>
          (case nth_mark (sp_marks s) k of
             None \<Rightarrow> (ErrReply (Some ErrNilMark), s)
           | Some (j, M) \<Rightarrow>
               if j \<noteq> i then (ErrReply (Some ErrMarkOwnerMismatch), s)
               else (ErrReply None, s\<lparr>sp_dbs := (sp_dbs s)[i := Some M]\<rparr>)))"

definition spec_fork :: "nat \<Rightarrow> int \<Rightarrow> spec_state \<Rightarrow> sb_reply \<times> spec_state" where
  "spec_fork i n s =
     (case sp_dbs s ! i of
        None \<Rightarrow> (ForkReply (Inl ErrFeatureRequiresSim), s)
      | Some V \<Rightarrow>
          if n < 0 then (ForkReply (Inl ErrNegativeFork), s)
          else (ForkReply (Inr [length (sp_dbs s) ..< length (sp_dbs s) + nat n]),
                s\<lparr>sp_dbs := sp_dbs s @ replicate (nat n) (Some V)\<rparr>))"

definition spec_save :: "world \<Rightarrow> nat \<Rightarrow> spec_state \<Rightarrow> sb_reply \<times> spec_state" where
  "spec_save X i s =
     (let s' = s\<lparr>sp_reads := Suc (sp_reads s)\<rparr> in
      case sp_dbs s ! i of
        None \<Rightarrow> (BlobReply (Inl NilPool), s')
      | Some V \<Rightarrow>
          (case gob_encode X \<lparr>es_magic = snapshotMagic, es_format = snapshotFormat,
                  es_saved_at = wd_clock X (sp_reads s),
                  es_signature = Signature (wd_sha X) (sp_catalog s),
                  es_tables = export_spec (sp_catalog s) V\<rparr> of
             None \<Rightarrow> (BlobReply (Inl ErrSnapshotEncode), s')
           | Some blob \<Rightarrow> (BlobReply (Inr blob), s')))"

definition spec_load :: "world \<Rightarrow> nat \<Rightarrow> bytes \<Rightarrow> spec_state \<Rightarrow> sb_reply \<times> spec_state" where
  "spec_load X i blob s =
     (case gob_decode X blob of
        None \<Rightarrow> (ErrReply (Some ErrSnapshotDecode), s)
      | Some dec \<Rightarrow>
          if es_magic dec \<noteq> snapshotMagic \<or> es_format dec \<noteq> snapshotFormat
          then (ErrReply (Some ErrSnapshotFormat), s)
          else case sp_dbs s ! i of
            None \<Rightarrow> (ErrReply (Some NilPool), s)
          | Some V \<Rightarrow>
              if es_signature dec \<noteq> Signature (wd_sha X) (sp_catalog s)
              then (ErrReply (Some ErrSnapshotSchemaMismatch), s)
              else case import_spec (wd_fmt X) (sp_catalog s) (es_tables dec) V of (e, V) \<Rightarrow>
                (ErrReply (map_option ErrImport e), s\<lparr>sp_dbs := (sp_dbs s)[i := Some V]\<rparr>))"

definition spec_do :: "world \<Rightarrow> nat \<Rightarrow> sb_op \<Rightarrow> spec_state \<Rightarrow> sb_reply \<times> spec_state" where
  "spec_do X i opn s =
     (case opn of
        Call cl \<Rightarrow> spec_call X i cl s
      | TakeMark \<Rightarrow>
          (case sp_dbs s ! i of
             None \<Rightarrow> (MarkReply False, s)
           | Some V \<Rightarrow> (MarkReply True, s\<lparr>sp_marks := sp_marks s @ [(i, V)]\<rparr>))
      | RewindTo k \<Rightarrow> spec_rewind i k s
      | ForkInto n \<Rightarrow> spec_fork i n s
      | Save \<Rightarrow> spec_save X i s
      | Load blob \<Rightarrow> spec_load X i blob s
      | Register d \<Rightarrow>
          (case RegisterTable d (sp_catalog s) of (e, c) \<Rightarrow>
             (RegisterReply e, s\<lparr>sp_catalog := c\<rparr>)))"

text \<open>A history: which sandbox does what, in order; an index outside the family is no step.\<close>

fun family_run :: "world \<Rightarrow> (nat \<times> sb_op) list \<Rightarrow> state \<Rightarrow> sb_reply list \<times> state" where
  "family_run X [] s = ([], s)"
| "family_run X ((i, opn) # hist) s =
     (if i < length (fa_sandboxes (fst s))
      then case family_do X i opn s of (r, s) \<Rightarrow>
             (case family_run X hist s of (rs, s) \<Rightarrow> (r # rs, s))
      else family_run X hist s)"

fun spec_run :: "world \<Rightarrow> (nat \<times> sb_op) list \<Rightarrow> spec_state \<Rightarrow> sb_reply list \<times> spec_state" where
  "spec_run X [] s = ([], s)"
| "spec_run X ((i, opn) # hist) s =
     (if i < length (sp_dbs s)
      then case spec_do X i opn s of (r, s) \<Rightarrow>
             (case spec_run X hist s of (rs, s) \<Rightarrow> (r # rs, s))
      else spec_run X hist s)"

end
