(* ===== verification/SimFamily.thy ===== *)
theory SimFamily
  imports SimAbstract
begin

text \<open>
  Why sandboxes that share row maps do not see each other's writes. The invariant of a
  family says that a row map two holders point at is shared, that a row map a mark holds is
  shared, and that every table keeps its rows under their own keys. \<open>pool_frame\<close> says what
  an operation of one sandbox may touch; every operation keeps to it.
\<close>

section \<open>The invariant of a pool\<close>

abbreviation table_at :: "Pool \<Rightarrow> string \<Rightarrow> Table option" where
  "table_at p q \<equiv> map_of (pl_tables p) q"

definition addr_in :: "Pool \<Rightarrow> nat \<Rightarrow> bool" where
  "addr_in p a \<longleftrightarrow> (\<exists>q t. table_at p q = Some t \<and> tb_rows t = a)"

definition view :: "Pool \<Rightarrow> rheap \<Rightarrow> string \<Rightarrow> rows" where
  "view p h q = (case table_at p q of None \<Rightarrow> [] | Some t \<Rightarrow> rows_of t h)"

definition table_ok :: "go_fmt \<Rightarrow> Catalog \<Rightarrow> rheap \<Rightarrow> string \<Rightarrow> Table \<Rightarrow> bool" where
  "table_ok F c h q t \<longleftrightarrow>
     tb_rows t < length h \<and> Lookup c q = Some (tb_desc t) \<and> rows_ok F (tb_desc t) (rows_of t h)"

definition pool_ok :: "go_fmt \<Rightarrow> Catalog \<Rightarrow> rheap \<Rightarrow> Pool \<Rightarrow> bool" where
  "pool_ok F c h p \<longleftrightarrow>
     (\<forall>q t. table_at p q = Some t \<longrightarrow> table_ok F c h q t)
     \<and> (\<forall>q q' t t'. table_at p q = Some t \<longrightarrow> table_at p q' = Some t' \<longrightarrow> q \<noteq> q'
          \<longrightarrow> tb_rows t = tb_rows t' \<longrightarrow> rm_shared (h ! tb_rows t))"

lemma pool_ok_table: "pool_ok F c h p \<Longrightarrow> table_at p q = Some t \<Longrightarrow> table_ok F c h q t"
  by (simp add: pool_ok_def)

lemma pool_ok_alias:
  "pool_ok F c h p \<Longrightarrow> table_at p q = Some t \<Longrightarrow> table_at p q' = Some t' \<Longrightarrow> q \<noteq> q'
   \<Longrightarrow> tb_rows t = tb_rows t' \<Longrightarrow> rm_shared (h ! tb_rows t)"
  by (simp add: pool_ok_def)

lemma pool_ok_addr: "pool_ok F c h p \<Longrightarrow> addr_in p a \<Longrightarrow> a < length h"
  by (auto simp: addr_in_def table_ok_def dest: pool_ok_table)

lemma NewPool_ok [simp]: "pool_ok F c h NewPool"
  by (simp add: pool_ok_def NewPool_def)

lemma table_at_put [simp]: "table_at (put_table q t p) q' = (if q' = q then Some t else table_at p q')"
  by (simp add: put_table_def AList.update_conv')

lemma table_at_warn [simp]: "table_at (warnHypertableOnce c q p) q' = table_at p q'"
  by (simp add: warnHypertableOnce_def split: option.split)

text \<open>Tables are the only part of a pool the invariant and the view read.\<close>

lemma pool_tables_cong:
  assumes "\<And>q. table_at p' q = table_at p q"
  shows "pool_ok F c h p' = pool_ok F c h p" and "addr_in p' a = addr_in p a" and "view p' h q = view p h q"
  using assms by (simp_all add: pool_ok_def addr_in_def view_def)

lemmas warn_cong = pool_tables_cong [OF table_at_warn]

section \<open>What an operation of one sandbox may touch\<close>

definition pool_frame :: "rheap \<Rightarrow> Pool \<Rightarrow> rheap \<Rightarrow> Pool \<Rightarrow> bool" where
  "pool_frame h p h' p' \<longleftrightarrow>
     length h \<le> length h'
     \<and> (\<forall>a < length h. (rm_shared (h ! a) \<longrightarrow> rm_shared (h' ! a))
          \<and> (\<not> addr_in p a \<or> rm_shared (h ! a) \<longrightarrow> rm_m (h' ! a) = rm_m (h ! a)))
     \<and> (\<forall>a < length h. addr_in p' a \<longrightarrow> addr_in p a \<or> rm_shared (h' ! a))
     \<and> (\<forall>q. table_at p q \<noteq> None \<longrightarrow> table_at p' q \<noteq> None)"

lemma pool_frame_refl [simp]: "pool_frame h p h p"
  by (simp add: pool_frame_def)

lemma pool_frame_len: "pool_frame h p h' p' \<Longrightarrow> length h \<le> length h'"
  by (simp add: pool_frame_def)

lemma pool_frame_shared: "pool_frame h p h' p' \<Longrightarrow> a < length h \<Longrightarrow> rm_shared (h ! a) \<Longrightarrow> rm_shared (h' ! a)"
  by (simp add: pool_frame_def)

lemma pool_frame_rows:
  "pool_frame h p h' p' \<Longrightarrow> a < length h \<Longrightarrow> \<not> addr_in p a \<or> rm_shared (h ! a) \<Longrightarrow> rm_m (h' ! a) = rm_m (h ! a)"
  by (simp add: pool_frame_def)

lemma pool_frame_addr:
  "pool_frame h p h' p' \<Longrightarrow> a < length h \<Longrightarrow> addr_in p' a \<Longrightarrow> addr_in p a \<or> rm_shared (h' ! a)"
  by (simp add: pool_frame_def)

lemma pool_frame_trans:
  assumes "pool_frame h p h' p'" and "pool_frame h' p' h'' p''"
  shows "pool_frame h p h'' p''"
proof -
  have len: "a < length h \<Longrightarrow> a < length h'" for a using pool_frame_len [OF assms(1)] by simp
  have "rm_m (h'' ! a) = rm_m (h ! a)" if "a < length h" "\<not> addr_in p a \<or> rm_shared (h ! a)" for a
  proof -
    have "\<not> addr_in p' a \<or> rm_shared (h' ! a)"
      using pool_frame_addr [OF assms(1) that(1)] pool_frame_shared [OF assms(1) that(1)] that(2) by blast
    then show ?thesis
      using pool_frame_rows [OF assms(2) len [OF that(1)]] pool_frame_rows [OF assms(1) that] by simp
  qed
  moreover have "addr_in p a \<or> rm_shared (h'' ! a)" if "a < length h" "addr_in p'' a" for a
    using pool_frame_addr [OF assms(2) len [OF that(1)] that(2)] pool_frame_addr [OF assms(1) that(1)]
      pool_frame_shared [OF assms(2) len [OF that(1)]] by blast
  ultimately show ?thesis using assms len by (auto simp: pool_frame_def)
qed

lemma pool_frame_warn [simp]:
  "pool_frame h p h' (warnHypertableOnce c q p') = pool_frame h p h' p'"
  by (simp add: pool_frame_def warn_cong(2))

text \<open>A step of a pool: the frame, with the invariant kept.\<close>

definition pool_step :: "go_fmt \<Rightarrow> Catalog \<Rightarrow> rheap \<Rightarrow> Pool \<Rightarrow> rheap \<Rightarrow> Pool \<Rightarrow> bool" where
  "pool_step F c h p h' p' \<longleftrightarrow> pool_frame h p h' p' \<and> pool_ok F c h' p'"

lemma pool_step_refl: "pool_ok F c h p \<Longrightarrow> pool_step F c h p h p"
  by (simp add: pool_step_def)

lemma pool_step_trans: "pool_step F c h p h' p' \<Longrightarrow> pool_step F c h' p' h'' p'' \<Longrightarrow> pool_step F c h p h'' p''"
  by (auto simp: pool_step_def intro: pool_frame_trans)

lemma pool_step_ok: "pool_step F c h p h' p' \<Longrightarrow> pool_ok F c h' p'"
  by (simp add: pool_step_def)

text \<open>Maps that grow or change only where the pool does not look keep the invariant.\<close>

lemma pool_ok_heap:
  assumes "pool_ok F c h p" and "length h \<le> length h'"
    and "\<And>a. a < length h \<Longrightarrow> addr_in p a \<Longrightarrow> rm_m (h' ! a) = rm_m (h ! a) \<and> (rm_shared (h ! a) \<longrightarrow> rm_shared (h' ! a))"
  shows "pool_ok F c h' p" and "view p h' q = view p h q"
proof -
  have t: "tb_rows t < length h \<and> rows_of t h' = rows_of t h \<and> (rm_shared (h ! tb_rows t) \<longrightarrow> rm_shared (h' ! tb_rows t))"
    if "table_at p q = Some t" for q t
    using pool_ok_table [OF assms(1) that] assms(3) [of "tb_rows t"] that by (auto simp: table_ok_def addr_in_def)
  show "pool_ok F c h' p"
    unfolding pool_ok_def
  proof (intro conjI allI impI)
    fix q t assume q: "table_at p q = Some t"
    show "table_ok F c h' q t"
      using pool_ok_table [OF assms(1) q] t [OF q] assms(2) by (simp add: table_ok_def)
  next
    fix q q' t t' assume a: "table_at p q = Some t" "table_at p q' = Some t'" "q \<noteq> q'" "tb_rows t = tb_rows t'"
    show "rm_shared (h' ! tb_rows t)" using pool_ok_alias [OF assms(1) a] t [OF a(1)] by simp
  qed
  show "view p h' q = view p h q" using t by (simp add: view_def split: option.split)
qed

text \<open>A table may enter a pool on a map of its own or on a shared one.\<close>

lemma pool_ok_put:
  assumes "pool_ok F c h p" and "table_ok F c h q t"
    and "\<And>q' u. q' \<noteq> q \<Longrightarrow> table_at p q' = Some u \<Longrightarrow> tb_rows u = tb_rows t \<Longrightarrow> rm_shared (h ! tb_rows t)"
  shows "pool_ok F c h (put_table q t p)"
  unfolding pool_ok_def
proof (intro conjI allI impI)
  fix q' u assume "table_at (put_table q t p) q' = Some u"
  then show "table_ok F c h q' u"
    using assms(2) pool_ok_table [OF assms(1), of q' u] by (cases "q' = q") simp_all
next
  fix q1 q2 t1 t2
  assume a: "table_at (put_table q t p) q1 = Some t1" "table_at (put_table q t p) q2 = Some t2"
    "q1 \<noteq> q2" "tb_rows t1 = tb_rows t2"
  consider "q1 = q" "q2 \<noteq> q" | "q1 \<noteq> q" "q2 = q" | "q1 \<noteq> q" "q2 \<noteq> q" using a(3) by blast
  then show "rm_shared (h ! tb_rows t1)"
  proof cases
    case 1
    then show ?thesis using a assms(3) [of q2 t2] by simp
  next
    case 2
    then show ?thesis using a assms(3) [of q1 t1] by simp
  next
    case 3
    then show ?thesis using a pool_ok_alias [OF assms(1), of q1 t1 q2 t2] by simp
  qed
qed

text \<open>Putting a fresh table in a pool.\<close>

lemma NewTable_ok: "Lookup c q = Some d \<Longrightarrow> NewTable d h = (t, h') \<Longrightarrow> table_ok F c h' q t \<and> h' = h @ [empty_map] \<and> tb_rows t = length h \<and> tb_desc t = d"
  by (auto simp: NewTable_def table_ok_def)

lemma put_fresh:
  assumes "pool_ok F c h p" and "length h \<le> length h'" and "length h \<le> tb_rows t" and "table_ok F c h' q t"
    and "\<And>a. a < length h \<Longrightarrow> h' ! a = h ! a"
  shows "pool_step F c h p h' (put_table q t p)"
    and "view (put_table q t p) h' q' = (if q' = q then rows_of t h' else view p h q')"
proof -
  have ok: "pool_ok F c h' p" by (rule pool_ok_heap [OF assms(1,2)]) (simp add: assms(5))
  have "pool_ok F c h' (put_table q t p)"
  proof (rule pool_ok_put [OF ok assms(4)])
    fix q' u assume "table_at p q' = Some u" "tb_rows u = tb_rows t"
    with pool_ok_table [OF assms(1), of q' u] assms(3) show "rm_shared (h' ! tb_rows t)"
      by (simp add: table_ok_def)
  qed
  moreover have "pool_frame h p h' (put_table q t p)"
    using assms by (auto simp: pool_frame_def addr_in_def split: if_splits)
  ultimately show "pool_step F c h p h' (put_table q t p)" by (simp add: pool_step_def)
  have "view p h' q' = view p h q'" by (rule pool_ok_heap [OF assms(1,2)]) (simp add: assms(5))
  then show "view (put_table q t p) h' q' = (if q' = q then rows_of t h' else view p h q')"
    by (simp add: view_def)
qed

text \<open>Writing the table of a pool.\<close>

lemma put_written:
  assumes "pool_ok F c h p" and "table_at p q = Some t" and "table_step F t h t' h'"
  shows "pool_step F c h p h' (put_table q t' p)"
    and "view (put_table q t' p) h' q' = (if q' = q then rows_of t' h' else view p h q')"
proof -
  note tok = pool_ok_table [OF assms(1,2)]
  from assms(3) have w: "writes t h t' h'" and ro: "rows_ok F (tb_desc t) (rows_of t' h')"
    using tok by (auto simp: table_step_def table_ok_def)
  have other: "a \<noteq> tb_rows t \<or> rm_shared (h ! a) \<Longrightarrow> a < length h \<Longrightarrow> h' ! a = h ! a" for a
    using w by (auto simp: writes_def)
  have u: "h' ! tb_rows u = h ! tb_rows u \<and> tb_rows u < length h"
    if "table_at p q' = Some u" "q' \<noteq> q" for q' u
    using that other [of "tb_rows u"] pool_ok_table [OF assms(1) that(1)]
      pool_ok_alias [OF assms(1) that(1) assms(2) that(2)] by (auto simp: table_ok_def)
  have ok: "pool_ok F c h' (put_table q t' p)"
    unfolding pool_ok_def
  proof (intro conjI allI impI)
    fix q1 t1 assume t1: "table_at (put_table q t' p) q1 = Some t1"
    show "table_ok F c h' q1 t1"
    proof (cases "q1 = q")
      case True
      with t1 w ro tok show ?thesis by (simp add: table_ok_def writes_def)
    next
      case False
      with t1 u [of q1 t1] pool_ok_table [OF assms(1), of q1 t1] w show ?thesis
        by (simp add: table_ok_def writes_def)
    qed
  next
    fix q1 q2 t1 t2
    assume a: "table_at (put_table q t' p) q1 = Some t1" "table_at (put_table q t' p) q2 = Some t2"
      "q1 \<noteq> q2" "tb_rows t1 = tb_rows t2"
    have own: "rm_shared (h' ! tb_rows t')" if "table_at p qx = Some u" "qx \<noteq> q" "tb_rows u = tb_rows t'" for qx u
      using u [OF that(1,2)] that(3) w pool_ok_alias [OF assms(1) that(1) assms(2) that(2)]
      by (auto simp: writes_def)
    consider "q1 = q" "q2 \<noteq> q" | "q1 \<noteq> q" "q2 = q" | "q1 \<noteq> q" "q2 \<noteq> q" using a(3) by blast
    then show "rm_shared (h' ! tb_rows t1)"
    proof cases
      case 1
      then show ?thesis using a own [of q2 t2] by simp
    next
      case 2
      then show ?thesis using a own [of q1 t1] by simp
    next
      case 3
      then show ?thesis using a u [of q1 t1] pool_ok_alias [OF assms(1), of q1 t1 q2 t2] by simp
    qed
  qed
  have "pool_frame h p h' (put_table q t' p)"
    unfolding pool_frame_def
  proof (intro conjI allI impI)
    fix a assume "a < length h"
    with w show "rm_shared (h ! a) \<Longrightarrow> rm_shared (h' ! a)" by (simp add: writes_def)
  next
    fix a assume a: "a < length h" "\<not> addr_in p a \<or> rm_shared (h ! a)"
    with assms(2) have "a \<noteq> tb_rows t \<or> rm_shared (h ! a)" by (auto simp: addr_in_def)
    from other [OF this a(1)] show "rm_m (h' ! a) = rm_m (h ! a)" by simp
  next
    fix a assume "a < length h" "addr_in (put_table q t' p) a"
    then obtain q1 t1 where "table_at (put_table q t' p) q1 = Some t1" "tb_rows t1 = a"
      by (auto simp only: addr_in_def)
    with w assms(2) \<open>a < length h\<close> have "\<exists>q1 t1. table_at p q1 = Some t1 \<and> tb_rows t1 = a"
      by (cases "q1 = q") (auto simp: writes_def)
    then show "addr_in p a \<or> rm_shared (h' ! a)" by (simp add: addr_in_def)
  qed (use w in \<open>simp_all add: writes_def\<close>)
  with ok show "pool_step F c h p h' (put_table q t' p)" by (simp add: pool_step_def)
  show "view (put_table q t' p) h' q' = (if q' = q then rows_of t' h' else view p h q')"
    using u [of q'] by (simp add: view_def split: option.split)
qed

section \<open>Statements\<close>

lemma result_split: "(\<And>x w p h. A = ((x, w), p, h) \<Longrightarrow> thesis) \<Longrightarrow> thesis"
  by (cases A) auto

lemma pool_step_cong:
  assumes "\<And>q. table_at p1 q = table_at p q" and "\<And>q. table_at p1' q = table_at p' q"
  shows "pool_step F c h p1 h' p1' = pool_step F c h p h' p'"
  using assms by (simp add: pool_step_def pool_frame_def pool_ok_def addr_in_def)

lemma env_table_spec:
  assumes "pool_ok F c h p" and "Lookup c (Ref_Qualified ref) = Some d"
  shows "\<exists>t p1 h1. env_table c ref p h = (Inr t, p1, h1) \<and> table_at p1 (Ref_Qualified ref) = Some t
    \<and> pool_step F c h p h1 p1 \<and> view p1 h1 = view p h \<and> tb_desc t = d
    \<and> rows_of t h1 = view p h (Ref_Qualified ref)"
proof (cases "table_at p (Ref_Qualified ref)")
  case (Some t)
  have "pool_step F c h p h (warnHypertableOnce c (Ref_Qualified ref) p)"
    using assms(1) by (simp add: pool_step_def warn_cong)
  moreover from pool_ok_table [OF assms(1) Some] assms(2) have "tb_desc t = d" by (simp add: table_ok_def)
  ultimately show ?thesis using Some assms(2)
    by (auto simp: env_table_def warn_cong fun_eq_iff) (simp add: view_def)
next
  case None
  let ?q = "Ref_Qualified ref"
  obtain t h1 where n: "NewTable d h = (t, h1)" by (cases "NewTable d h")
  from NewTable_ok [OF assms(2) n, of F] have t: "h1 = h @ [empty_map]" "tb_rows t = length h" "tb_desc t = d"
    "table_ok F c (h @ [empty_map]) ?q t" by auto
  have "pool_step F c h p h1 (put_table ?q t p)"
    by (rule put_fresh [OF assms(1)]) (simp_all add: t nth_append)
  moreover have "view (put_table ?q t p) h1 q' = (if q' = ?q then rows_of t h1 else view p h q')" for q'
    by (rule put_fresh [OF assms(1)]) (simp_all add: t nth_append)
  moreover have "rows_of t h1 = []" using t by simp
  moreover have "view p h ?q = []" using None by (simp add: view_def)
  ultimately show ?thesis using None assms(2) n t
    by (auto simp: env_table_def Let_def warn_cong fun_eq_iff pool_step_def)
qed

text \<open>A statement as the pool runs it.\<close>

locale statement_program = table_program F prog spec
  for F and prog :: "Table \<Rightarrow> rheap \<Rightarrow> ((sim_err + 'a) \<times> nat) \<times> Table \<times> rheap" and spec
begin

lemma on_table_refines:
  assumes "pool_ok F c h p" and "on_table c ref w prog p h = (r, p', h')"
  shows "pool_step F c h p h' p' \<and> spec_on c ref w spec (view p h) = (r, view p' h')"
proof (cases "Lookup c (Ref_Qualified ref)")
  case None
  with assms show ?thesis
    by (auto simp: on_table_def env_table_def spec_on_def pool_step_refl)
next
  case (Some d)
  let ?q = "Ref_Qualified ref"
  obtain t p1 h1 where e: "env_table c ref p h = (Inr t, p1, h1)" and t: "table_at p1 ?q = Some t"
    and s1: "pool_step F c h p h1 p1" and v1: "view p1 h1 = view p h" and d: "tb_desc t = d"
    and rt: "rows_of t h1 = view p h ?q"
    using env_table_spec [OF assms(1) Some] by blast
  obtain x w' t' h2 where pr: "prog t h1 = ((x, w'), t', h2)" by (rule result_split)
  have tok: "tb_rows t < length h1" "rows_ok F (tb_desc t) (rows_of t h1)"
    using pool_ok_table [OF pool_step_ok [OF s1] t] by (simp_all add: table_ok_def)
  note st = prog_step [OF tok pr]
  note sp = prog_refines [OF tok pr]
  from assms(2) e pr have eq: "r = tag_desc d (x, w')" "p' = put_table ?q t' p1" "h' = h2"
    by (auto simp: on_table_def tag_desc_def d split: sum.splits)
  have "pool_step F c h p h' p'"
    using pool_step_trans [OF s1 put_written(1) [OF pool_step_ok [OF s1] t st]] eq by simp
  moreover have "view p' h' = (view p h)(?q := rows_of t' h2)"
    using put_written(2) [OF pool_step_ok [OF s1] t st] eq v1 by (auto simp: fun_eq_iff)
  ultimately show ?thesis using Some sp eq d rt by (simp add: spec_on_def)
qed

end

interpretation ins_stmt: statement_program "lib_fmt L" "insert_body L e ins w" "insert_spec L e ins w" for L e ins w ..

interpretation upd_stmt: statement_program F "update_body L e upd w" "update_spec L e upd w" for F L e upd w ..

interpretation del_stmt: statement_program F "delete_body L e del w" "delete_spec L e del w" for F L e del w ..

lemma select_body_view:
  assumes "tb_desc u = tb_desc t" and "rows_of u g = rows_of t h"
  shows "select_body L e sel w u g = select_body L e sel w t h"
proof -
  have "selectRows L e (se_where sel) u g w = selectRows L e (se_where sel) t h w"
    by (simp add: selectRows_refines assms)
  then show ?thesis unfolding select_body_def assms(1) by presburger
qed

lemma select_answer_eq: "select_answer L e sel w (tb_desc t) (rows_of t h) = (select_body L e sel w t h, rows_of t h)"
  unfolding select_answer_def by (rule arg_cong [where f = "\<lambda>x. (x, rows_of t h)"], rule select_body_view) simp_all

interpretation sel_stmt: statement_program F "\<lambda>t h. (select_body L e sel w t h, t, h)" "select_answer L e sel w"
  for F L e sel w
  by unfold_locales (auto simp: select_answer_eq)

text \<open>Calls through the pool compute their specification.\<close>

lemma execSelect_refines:
  assumes "pool_ok F (en_catalog e) h p" and "execSelect L e s w p h = (r, p', h')"
  shows "pool_step F (en_catalog e) h p h' p' \<and> select_stmt_spec L e s w (view p h) = (r, view p' h')"
proof (cases "tr_schema (se_table s) = [] \<and> tr_name (se_table s) = []")
  case True
  with assms show ?thesis by (auto simp: execSelect_def select_stmt_spec_def pool_step_refl)
next
  case False
  obtain x w1 p1 h1 where o: "on_table (en_catalog e) (se_table s) w (\<lambda>t h. (select_body L e s w t h, t, h)) p h
      = ((x, w1), p1, h1)" by (rule result_split)
  from sel_stmt.on_table_refines [OF assms(1) o] assms(2) False o show ?thesis
    by (auto simp: execSelect_def select_stmt_spec_def split: sum.splits)
qed

lemma en_catalog_Pool_env [simp]: "en_catalog (Pool_env c clk args) = c"
  by (simp add: Pool_env_def)

lemma execInsert_refines:
  assumes "pool_ok (lib_fmt L) (en_catalog e) h p" and "execInsert L e s w p h = (r, p', h')"
  shows "pool_step (lib_fmt L) (en_catalog e) h p h' p'
    \<and> spec_on (en_catalog e) (in_table s) w (insert_spec L e s w) (view p h) = (r, view p' h')"
  using ins_stmt.on_table_refines [OF assms(1)] assms(2) by (simp add: execInsert_def)

lemma execUpdate_refines:
  assumes "pool_ok F (en_catalog e) h p" and "execUpdate L e s w p h = (r, p', h')"
  shows "pool_step F (en_catalog e) h p h' p'
    \<and> spec_on (en_catalog e) (up_table s) w (update_spec L e s w) (view p h) = (r, view p' h')"
  using upd_stmt.on_table_refines [OF assms(1)] assms(2) by (simp add: execUpdate_def)

lemma execDelete_refines:
  assumes "pool_ok F (en_catalog e) h p" and "execDelete L e s w p h = (r, p', h')"
  shows "pool_step F (en_catalog e) h p h' p'
    \<and> spec_on (en_catalog e) (de_table s) w (delete_spec L e s w) (view p h) = (r, view p' h')"
  using del_stmt.on_table_refines [OF assms(1)] assms(2) by (simp add: execDelete_def)

lemma Pool_Exec_refines:
  assumes "pool_ok (wd_fmt X) c h p"
    and "Pool_Exec (wd_lib X) (wd_parse X) (wd_clock X) c sql args w p h = (r, p', h')"
  shows "pool_step (wd_fmt X) c h p h' p' \<and> exec_spec X c sql args w (view p h) = (r, view p' h')"
proof -
  let ?e = "Pool_env c (wd_clock X) args" and ?L = "wd_lib X"
  have ok: "pool_ok (wd_fmt X) (en_catalog ?e) h p" using assms(1) by simp
  show ?thesis
  proof (cases "wd_parse X sql")
    case (Inl er)
    with assms show ?thesis by (auto simp: Pool_Exec_def exec_spec_def pool_step_refl)
  next
    case (Inr st)
    show ?thesis
    proof (cases st)
      case (InsertStmt s)
      obtain y p1 h1 where "execInsert ?L ?e s w p h = (y, p1, h1)" by (rule prod_cases3)
      with execInsert_refines [OF ok this] assms Inr InsertStmt show ?thesis
        by (auto simp: Pool_Exec_def exec_spec_def Let_def split: prod.splits sum.splits)
    next
      case (UpdateStmt s)
      obtain y p1 h1 where "execUpdate ?L ?e s w p h = (y, p1, h1)" by (rule prod_cases3)
      with execUpdate_refines [OF ok this] assms Inr UpdateStmt show ?thesis
        by (auto simp: Pool_Exec_def exec_spec_def Let_def split: prod.splits sum.splits)
    next
      case (DeleteStmt s)
      obtain y p1 h1 where "execDelete ?L ?e s w p h = (y, p1, h1)" by (rule prod_cases3)
      with execDelete_refines [OF ok this] assms Inr DeleteStmt show ?thesis
        by (auto simp: Pool_Exec_def exec_spec_def Let_def split: prod.splits sum.splits)
    next
      case (SelectStmt s)
      with assms Inr show ?thesis by (auto simp: Pool_Exec_def exec_spec_def pool_step_refl)
    qed
  qed
qed

lemma Pool_Query_refines:
  assumes "pool_ok (wd_fmt X) c h p"
    and "Pool_Query (wd_lib X) (wd_parse X) (wd_clock X) c sql args w p h = (r, p', h')"
  shows "pool_step (wd_fmt X) c h p h' p' \<and> query_spec X c sql args w (view p h) = (r, view p' h')"
proof -
  let ?e = "Pool_env c (wd_clock X) args" and ?L = "wd_lib X"
  have ok: "pool_ok (wd_fmt X) (en_catalog ?e) h p" using assms(1) by simp
  show ?thesis
  proof (cases "wd_parse X sql")
    case (Inl er)
    with assms show ?thesis by (auto simp: Pool_Query_def query_spec_def pool_step_refl)
  next
    case (Inr st)
    show ?thesis
    proof (cases st)
      case (InsertStmt s)
      obtain y p1 h1 where "execInsert ?L ?e s w p h = (y, p1, h1)" by (rule prod_cases3)
      with execInsert_refines [OF ok this] assms Inr InsertStmt show ?thesis
        by (auto simp: Pool_Query_def query_spec_def Let_def pool_step_refl split: prod.splits sum.splits if_splits)
    next
      case (SelectStmt s)
      obtain y p1 h1 where "execSelect ?L ?e s w p h = (y, p1, h1)" by (rule prod_cases3)
      with execSelect_refines [OF ok this] assms Inr SelectStmt show ?thesis
        by (auto simp: Pool_Query_def query_spec_def Let_def split: prod.splits sum.splits)
    qed (use assms Inr in \<open>auto simp: Pool_Query_def query_spec_def pool_step_refl\<close>)
  qed
qed

lemma Pool_QueryRow_refines:
  assumes "pool_ok (wd_fmt X) c h p"
    and "Pool_QueryRow (wd_lib X) (wd_parse X) (wd_clock X) c sql args w p h = (r, p', h')"
  shows "pool_step (wd_fmt X) c h p h' p' \<and> query_row_spec X c sql args w (view p h) = (r, view p' h')"
proof -
  let ?e = "Pool_env c (wd_clock X) args" and ?L = "wd_lib X"
  have ok: "pool_ok (wd_fmt X) (en_catalog ?e) h p" using assms(1) by simp
  show ?thesis
  proof (cases "wd_parse X sql")
    case (Inl er)
    with assms show ?thesis by (auto simp: Pool_QueryRow_def query_row_spec_def pool_step_refl)
  next
    case (Inr st)
    show ?thesis
    proof (cases st)
      case (InsertStmt s)
      obtain y p1 h1 where "execInsert ?L ?e s w p h = (y, p1, h1)" by (rule prod_cases3)
      with execInsert_refines [OF ok this] assms Inr InsertStmt show ?thesis
        by (auto simp: Pool_QueryRow_def query_row_spec_def Let_def pool_step_refl
            split: prod.splits sum.splits if_splits)
    next
      case (SelectStmt s)
      obtain y p1 h1 where "execSelect ?L ?e s w p h = (y, p1, h1)" by (rule prod_cases3)
      with execSelect_refines [OF ok this] assms Inr SelectStmt show ?thesis
        by (auto simp: Pool_QueryRow_def query_row_spec_def Let_def split: prod.splits sum.splits list.splits)
    qed (use assms Inr in \<open>auto simp: Pool_QueryRow_def query_row_spec_def pool_step_refl\<close>)
  qed
qed

lemma pool_call_refines:
  assumes "pool_ok (wd_fmt X) c h p" and "pool_call X c cl w p h = (r, p', h')"
  shows "pool_step (wd_fmt X) c h p h' p' \<and> call_spec X c cl w (view p h) = (r, view p' h')"
proof (cases cl)
  case (ExecCall sql args)
  obtain y w' p1 h1 where "Pool_Exec (wd_lib X) (wd_parse X) (wd_clock X) c sql args w p h = ((y, w'), p1, h1)"
    by (rule result_split)
  with Pool_Exec_refines [OF assms(1) this] assms(2) ExecCall show ?thesis
    by (auto simp: pool_call_def call_spec_def)
next
  case (QueryCall sql args)
  obtain y w' p1 h1 where "Pool_Query (wd_lib X) (wd_parse X) (wd_clock X) c sql args w p h = ((y, w'), p1, h1)"
    by (rule result_split)
  with Pool_Query_refines [OF assms(1) this] assms(2) QueryCall show ?thesis
    by (auto simp: pool_call_def call_spec_def)
next
  case (QueryRowCall sql args)
  obtain y w' p1 h1 where "Pool_QueryRow (wd_lib X) (wd_parse X) (wd_clock X) c sql args w p h = ((y, w'), p1, h1)"
    by (rule result_split)
  with Pool_QueryRow_refines [OF assms(1) this] assms(2) QueryRowCall show ?thesis
    by (auto simp: pool_call_def call_spec_def)
qed

end
