(* ===== verification/SimRefine.thy ===== *)
theory SimRefine
  imports SimFamily
begin

text \<open>
  The sandbox family implements its specification: capturing, rewinding, forking, saving and
  loading are those of a family in which every sandbox owns its rows and every mark is a
  copy, for every history of operations and with the same replies.
\<close>

section \<open>Captured states\<close>

definition cap_view :: "rheap \<Rightarrow> captured \<Rightarrow> string \<Rightarrow> rows" where
  "cap_view h cap q = (case map_of cap q of None \<Rightarrow> [] | Some a \<Rightarrow> rm_m (h ! a))"

definition cap_ok :: "go_fmt \<Rightarrow> Catalog \<Rightarrow> rheap \<Rightarrow> captured \<Rightarrow> bool" where
  "cap_ok F c h cap \<longleftrightarrow> distinct (map fst cap)
     \<and> (\<forall>q a. map_of cap q = Some a \<longrightarrow> a < length h \<and> rm_shared (h ! a)
          \<and> (\<exists>d. Lookup c q = Some d \<and> rows_ok F d (rm_m (h ! a))))"

lemma cap_okD:
  "cap_ok F c h cap \<Longrightarrow> map_of cap q = Some a
   \<Longrightarrow> a < length h \<and> rm_shared (h ! a) \<and> (\<exists>d. Lookup c q = Some d \<and> rows_ok F d (rm_m (h ! a)))"
  by (simp add: cap_ok_def)

text \<open>Shared maps stay as they are, so a captured state does too.\<close>

lemma cap_heap:
  assumes "cap_ok F c h cap" and "length h \<le> length h'"
    and "\<And>a. a < length h \<Longrightarrow> rm_shared (h ! a) \<Longrightarrow> rm_m (h' ! a) = rm_m (h ! a) \<and> rm_shared (h' ! a)"
  shows "cap_ok F c h' cap" and "cap_view h' cap = cap_view h cap"
proof -
  have a: "a < length h' \<and> rm_m (h' ! a) = rm_m (h ! a) \<and> rm_shared (h' ! a)" if "map_of cap q = Some a" for q a
    using cap_okD [OF assms(1) that] assms(2,3) by auto
  then show "cap_ok F c h' cap" using assms(1) by (auto simp: cap_ok_def)
  show "cap_view h' cap = cap_view h cap" using a by (auto simp: cap_view_def fun_eq_iff split: option.split)
qed

lemma capture_loop_spec:
  assumes "pool_ok F c h p" and "capture_loop p qs out h = (cap, h')"
  shows "length h' = length h \<and> (\<forall>a < length h. rm_m (h' ! a) = rm_m (h ! a) \<and> (rm_shared (h ! a) \<longrightarrow> rm_shared (h' ! a)))
    \<and> (\<forall>q. map_of cap q = (if q \<in> set qs \<and> table_at p q \<noteq> None then map_option tb_rows (table_at p q) else map_of out q))
    \<and> (\<forall>q \<in> set qs. \<forall>t. table_at p q = Some t \<longrightarrow> rm_shared (h' ! tb_rows t))
    \<and> (distinct (map fst out) \<longrightarrow> distinct (map fst cap))"
  using assms
proof (induction qs arbitrary: out h)
  case (Cons q qs)
  show ?case
  proof (cases "table_at p q")
    case None
    with Cons.IH [OF Cons.prems(1), of out] Cons.prems(2) show ?thesis by auto
  next
    case (Some t)
    define g where "g = h[tb_rows t := (h ! tb_rows t)\<lparr>rm_shared := True\<rparr>]"
    have lt: "tb_rows t < length h" using pool_ok_table [OF Cons.prems(1) Some] by (simp add: table_ok_def)
    have g: "length g = length h" "\<And>a. a < length h \<Longrightarrow> rm_m (g ! a) = rm_m (h ! a)"
      "\<And>a. a < length h \<Longrightarrow> rm_shared (h ! a) \<Longrightarrow> rm_shared (g ! a)" "rm_shared (g ! tb_rows t)"
      using lt by (auto simp: g_def nth_list_update)
    have ok: "pool_ok F c g p" by (rule pool_ok_heap [OF Cons.prems(1)]) (simp_all add: g)
    have "capture_loop p qs (AList.update q (tb_rows t) out) g = (cap, h')"
      using Cons.prems(2) Some by (simp add: CurrentRows_def g_def)
    note ih = Cons.IH [OF ok this]
    have "rm_shared (h' ! tb_rows t)" using ih g lt by simp
    moreover have "map_of (AList.update q (tb_rows t) out) x = (if x = q then Some (tb_rows t) else map_of out x)" for x
      by (simp add: AList.update_conv')
    ultimately show ?thesis using ih g Some by (auto simp: AList.distinct_update)
  qed
qed simp

lemma CapturePointers_spec:
  assumes "pool_ok F c h p" and "CapturePointers c p h = (cap, h')"
  shows "pool_step F c h p h' p" and "view p h' = view p h" and "cap_ok F c h' cap"
    and "cap_view h' cap = view p h" and "map_of cap q \<noteq> None \<longleftrightarrow> table_at p q \<noteq> None"
proof -
  have names: "table_at p q = Some t \<Longrightarrow> q \<in> set (QualifiedNames c)" for q t
    using pool_ok_table [OF assms(1)] by (auto simp: table_ok_def Lookup_QualifiedNames)
  from capture_loop_spec [OF assms(1) assms(2) [unfolded CapturePointers_def]]
  have l: "length h' = length h"
    and m: "\<And>a. a < length h \<Longrightarrow> rm_m (h' ! a) = rm_m (h ! a) \<and> (rm_shared (h ! a) \<longrightarrow> rm_shared (h' ! a))"
    and cp: "\<And>q. map_of cap q = map_option tb_rows (table_at p q)"
    and sh: "\<And>q t. table_at p q = Some t \<Longrightarrow> rm_shared (h' ! tb_rows t)"
    and di: "distinct (map fst cap)"
    using names by (auto simp: not_None_eq) (metis option.map_disc_iff option.simps(8) names not_None_eq)
  have ok: "pool_ok F c h' p" by (rule pool_ok_heap [OF assms(1)]) (simp_all add: l m)
  have "pool_frame h p h' p" using l m by (auto simp: pool_frame_def)
  with ok show "pool_step F c h p h' p" by (simp add: pool_step_def)
  show v: "view p h' = view p h" by (rule ext, rule pool_ok_heap [OF assms(1)]) (simp_all add: l m)
  have "a < length h' \<and> rm_shared (h' ! a) \<and> (\<exists>d. Lookup c q = Some d \<and> rows_ok F d (rm_m (h' ! a)))"
    if "map_of cap q = Some a" for q a
    using that cp [of q] sh pool_ok_table [OF ok] by (auto simp: table_ok_def)
  with di show "cap_ok F c h' cap" by (simp add: cap_ok_def)
  show "cap_view h' cap = view p h"
    unfolding v [symmetric] by (auto simp: fun_eq_iff cap_view_def view_def cp split: option.split)
  show "map_of cap q \<noteq> None \<longleftrightarrow> table_at p q \<noteq> None" by (simp add: cp)
qed

section \<open>Rewinding\<close>

lemma ReplaceRows_simps [simp]: "tb_rows (ReplaceRows a t) = a" "tb_desc (ReplaceRows a t) = tb_desc t"
  by (simp_all add: ReplaceRows_def)

lemma put_shared:
  assumes "pool_ok F c h p" and "table_at p q = Some t" and "a < length h" and "rm_shared (h ! a)"
    and "rows_ok F (tb_desc t) (rm_m (h ! a))"
  shows "pool_step F c h p h (put_table q (ReplaceRows a t) p)"
proof -
  have "table_ok F c h q (ReplaceRows a t)"
    using assms pool_ok_table [OF assms(1,2)] by (simp add: table_ok_def)
  then have "pool_ok F c h (put_table q (ReplaceRows a t) p)"
    by (rule pool_ok_put [OF assms(1)]) (simp add: assms(4))
  moreover have "pool_frame h p h (put_table q (ReplaceRows a t) p)"
    using assms(4) by (auto simp: pool_frame_def addr_in_def split: if_splits)
  ultimately show ?thesis by (simp add: pool_step_def)
qed

lemma cap_ok_Cons:
  assumes "cap_ok F c h ((q, a) # snap)"
  shows "cap_ok F c h snap"
proof -
  have "map_of ((q, a) # snap) q' = Some a'" if "map_of snap q' = Some a'" for q' a'
  proof -
    have "q \<notin> fst ` set snap" using assms by (simp add: cap_ok_def)
    moreover have "q' \<in> fst ` set snap" using map_of_SomeD [OF that] by force
    ultimately have "q' \<noteq> q" by blast
    with that show ?thesis by simp
  qed
  then have "a' < length h \<and> rm_shared (h ! a') \<and> (\<exists>d. Lookup c q' = Some d \<and> rows_ok F d (rm_m (h ! a')))"
    if "map_of snap q' = Some a'" for q' a' using cap_okD [OF assms] that by blast
  moreover have "distinct (map fst snap)" using assms by (simp add: cap_ok_def)
  ultimately show ?thesis unfolding cap_ok_def by blast
qed

lemma replace_loop_spec:
  assumes "pool_ok F c h p" and "cap_ok F c h snap"
  shows "pool_step F c h p h (replace_loop snap p)
    \<and> (\<forall>q. table_at (replace_loop snap p) q = (case table_at p q of
          None \<Rightarrow> None
        | Some t \<Rightarrow> Some (case map_of snap q of None \<Rightarrow> t | Some a \<Rightarrow> ReplaceRows a t)))"
  using assms
proof (induction snap p rule: replace_loop.induct)
  case (1 p)
  then show ?case by (simp add: pool_step_refl split: option.split)
next
  case (2 q a snap p)
  note cap = cap_ok_Cons [OF "2.prems"(2)]
  have q: "map_of snap q = None" using "2.prems"(2) by (auto simp: cap_ok_def map_of_eq_None_iff)
  show ?case
  proof (cases "table_at p q")
    case None
    with "2.IH"(1) "2.prems" cap show ?thesis by (auto split: option.split)
  next
    case (Some t)
    have a: "a < length h \<and> rm_shared (h ! a) \<and> rows_ok F (tb_desc t) (rm_m (h ! a))"
      using cap_okD [OF "2.prems"(2), of q a] pool_ok_table [OF "2.prems"(1) Some] by (auto simp: table_ok_def)
    then have s: "pool_step F c h p h (put_table q (ReplaceRows a t) p)"
      using put_shared [OF "2.prems"(1) Some] by blast
    note ih = "2.IH"(2) [OF Some pool_step_ok [OF s] cap]
    with Some q show ?thesis by (auto intro: pool_step_trans [OF s] split: option.split)
  qed
qed

lemma reset_loop_spec:
  assumes "pool_ok F c h p" and "reset_loop snap qs p h = (p', h')"
  shows "pool_step F c h p h' p'
    \<and> (\<forall>q. view p' h' q = (if q \<in> set qs \<and> map_of snap q = None then [] else view p h q))"
  using assms
proof (induction snap qs p h rule: reset_loop.induct)
  case (1 snap p h)
  then show ?case by (simp add: pool_step_refl)
next
  case (2 snap q qs p h)
  consider "map_of snap q \<noteq> None" | "map_of snap q = None" "table_at p q = None"
    | t where "map_of snap q = None" "table_at p q = Some t" by (cases "table_at p q") auto
  then show ?case
  proof cases
    case 1
    with "2.IH"(1) "2.prems" show ?thesis by auto
  next
    case 2
    with "2.IH"(2) "2.prems" show ?thesis by (auto simp: view_def)
  next
    case 3
    let ?t = "ReplaceRows (length h) t" and ?h = "h @ [empty_map]"
    have t: "table_ok F c ?h q ?t"
      using pool_ok_table [OF "2.prems"(1) 3(2)] by (simp add: table_ok_def)
    have s: "pool_step F c h p ?h (put_table q ?t p)"
      by (rule put_fresh [OF "2.prems"(1) _ _ t]) (simp_all add: nth_append)
    have v: "view (put_table q ?t p) ?h q' = (if q' = q then [] else view p h q')" for q'
      using put_fresh(2) [OF "2.prems"(1) _ _ t] by (simp add: nth_append)
    from 3 "2.prems"(2) have "reset_loop snap qs (put_table q ?t p) ?h = (p', h')" by simp
    from "2.IH"(3) [OF _ 3(2) pool_step_ok [OF s] this] 3(1) v show ?thesis
      by (auto intro: pool_step_trans [OF s])
  qed
qed

lemma ReplaceFromPointers_spec:
  assumes "pool_ok F c h p" and "cap_ok F c h snap" and "\<And>q. map_of snap q \<noteq> None \<Longrightarrow> table_at p q \<noteq> None"
    and "ReplaceFromPointers c snap p h = (p', h')"
  shows "pool_step F c h p h' p'" and "view p' h' = cap_view h snap"
proof -
  from replace_loop_spec [OF assms(1,2)] have s: "pool_step F c h p h (replace_loop snap p)"
    and t: "\<And>q. table_at (replace_loop snap p) q = (case table_at p q of
          None \<Rightarrow> None
        | Some t \<Rightarrow> Some (case map_of snap q of None \<Rightarrow> t | Some a \<Rightarrow> ReplaceRows a t))" by blast+
  from reset_loop_spec [OF pool_step_ok [OF s] assms(4) [unfolded ReplaceFromPointers_def]]
  have s': "pool_step F c h (replace_loop snap p) h' p'"
    and v: "\<And>q. view p' h' q = (if q \<in> set (QualifiedNames c) \<and> map_of snap q = None then []
        else view (replace_loop snap p) h q)" by blast+
  show "pool_step F c h p h' p'" by (rule pool_step_trans [OF s s'])
  have "view p' h' q = cap_view h snap q" for q
  proof (cases "table_at p q")
    case None
    with assms(3) [of q] have "map_of snap q = None" by (cases "map_of snap q") auto
    with None v [of q] t [of q] show ?thesis by (simp add: cap_view_def view_def)
  next
    case (Some u)
    then have "q \<in> set (QualifiedNames c)"
      using pool_ok_table [OF assms(1)] by (auto simp: table_ok_def Lookup_QualifiedNames)
    with Some v [of q] t [of q] show ?thesis by (auto simp: cap_view_def view_def split: option.split)
  qed
  then show "view p' h' = cap_view h snap" by blast
qed

section \<open>Installing shared maps in a child\<close>

lemma install_one:
  assumes "pool_ok F c h p" and "cap_ok F c h snap" and "Lookup c q = Some d" and "NewTable d h = (t0, h1)"
    and "t = (case map_of snap q of None \<Rightarrow> t0 | Some a \<Rightarrow> ReplaceRows a t0)"
  shows "pool_step F c h p h1 (put_table q t p)"
    and "view (put_table q t p) h1 q' = (if q' = q then cap_view h snap q else view p h q')"
proof -
  from NewTable_ok [OF assms(3,4), of F] have t0: "h1 = h @ [empty_map]" "tb_rows t0 = length h" "tb_desc t0 = d"
    "table_ok F c (h @ [empty_map]) q t0" by auto
  have "pool_step F c h p h1 (put_table q t p)
      \<and> view (put_table q t p) h1 q' = (if q' = q then cap_view h snap q else view p h q')"
  proof (cases "map_of snap q")
    case None
    with assms(5) have t: "t = t0" by simp
    have "pool_step F c h p (h @ [empty_map]) (put_table q t0 p)"
      by (rule put_fresh [OF assms(1) _ _ t0(4)]) (simp_all add: t0 nth_append)
    moreover have "view (put_table q t0 p) (h @ [empty_map]) q' = (if q' = q then [] else view p h q')"
      using put_fresh(2) [OF assms(1) _ _ t0(4)] by (simp add: t0 nth_append)
    ultimately show ?thesis using None t t0 by (simp add: cap_view_def)
  next
    case (Some a)
    with assms(5) have t: "t = ReplaceRows a t0" by simp
    from cap_okD [OF assms(2) Some] assms(3) have a: "a < length h" "rm_shared (h ! a)" "rows_ok F d (rm_m (h ! a))"
      by auto
    have ok: "pool_ok F c h1 p" by (rule pool_ok_heap [OF assms(1)]) (simp_all add: t0 nth_append)
    have "table_ok F c h1 q t" using a assms(3) by (simp add: table_ok_def t t0 nth_append)
    then have "pool_ok F c h1 (put_table q t p)"
      by (rule pool_ok_put [OF ok]) (simp add: t t0 a nth_append)
    moreover have "pool_frame h p h1 (put_table q t p)"
      using a by (auto simp: pool_frame_def addr_in_def t t0 nth_append split: if_splits)
    moreover have "view p h1 q' = view p h q'" by (rule pool_ok_heap [OF assms(1)]) (simp_all add: t0 nth_append)
    ultimately show ?thesis using Some a t t0
      by (auto simp: pool_step_def cap_view_def view_def nth_append)
  qed
  then show "pool_step F c h p h1 (put_table q t p)"
    and "view (put_table q t p) h1 q' = (if q' = q then cap_view h snap q else view p h q')" by blast+
qed

lemma install_loop_spec:
  assumes "pool_ok F c h p" and "cap_ok F c h snap" and "install_loop c snap qs p h = (p', h')"
  shows "pool_step F c h p h' p' \<and> (\<forall>a < length h. h' ! a = h ! a)
    \<and> (\<forall>q. view p' h' q = (if q \<in> set qs \<and> Lookup c q \<noteq> None then cap_view h snap q else view p h q))"
  using assms
proof (induction c snap qs p h rule: install_loop.induct)
  case (1 c snap p h)
  then show ?case by (simp add: pool_step_refl)
next
  case (2 c snap q qs p h)
  show ?case
  proof (cases "Lookup c q")
    case None
    with 2 show ?thesis by auto
  next
    case (Some d)
    obtain t0 h1 where n: "NewTable d h = (t0, h1)" by (cases "NewTable d h")
    define t where "t = (case map_of snap q of None \<Rightarrow> t0 | Some a \<Rightarrow> ReplaceRows a t0)"
    note one = install_one [OF "2.prems"(1,2) Some n t_def]
    from n have h1: "h1 = h @ [empty_map]" by (simp add: NewTable_def)
    have cap: "cap_ok F c h1 snap" "cap_view h1 snap = cap_view h snap"
      using cap_heap [OF "2.prems"(2), of h1] by (simp_all add: h1 nth_append)
    have "install_loop c snap qs (put_table q t p) h1 = (p', h')"
      using "2.prems"(3) Some n by (simp add: t_def)
    from "2.IH"(2) [OF Some n [symmetric], folded t_def, OF pool_step_ok [OF one(1)] cap(1) this] one cap Some
    show ?thesis
      by (auto simp: h1 nth_append intro: pool_step_trans [OF one(1)])
  qed
qed

lemma InstallSharedPointers_spec:
  assumes "cap_ok F c h snap" and "InstallSharedPointers c snap NewPool h = (p, h')"
  shows "pool_step F c h NewPool h' p" and "\<And>a. a < length h \<Longrightarrow> h' ! a = h ! a"
    and "view p h' = cap_view h snap"
proof -
  note i = install_loop_spec [OF NewPool_ok assms(1) assms(2) [unfolded InstallSharedPointers_def]]
  from i show "pool_step F c h NewPool h' p" and "\<And>a. a < length h \<Longrightarrow> h' ! a = h ! a" by blast+
  have "cap_view h snap q = []" if "Lookup c q = None" for q
  proof (cases "map_of snap q")
    case (Some a)
    with cap_okD [OF assms(1) Some] that show ?thesis by simp
  qed (simp add: cap_view_def)
  with i show "view p h' = cap_view h snap"
    by (auto simp: fun_eq_iff Lookup_QualifiedNames view_def NewPool_def)
qed

section \<open>Export and import\<close>

lemma scan_loop_append:
  "set ks \<subseteq> dom (map_of m)
   \<Longrightarrow> scan_loop (\<lambda>_ k. map_of m k) (\<lambda>k r rows. (None, rows @ [r])) ks acc = (None, acc @ rows_at m ks)"
  by (induction ks arbitrary: acc) (auto simp: rows_at_def)

lemma export_table_eq: "export_table p h q = rows_at (view p h q) (sort (map fst (view p h q)))"
proof (cases "table_at p q")
  case (Some t)
  have "set (sort (map fst (rows_of t h))) \<subseteq> dom (map_of (rows_of t h))"
    by (simp add: dom_map_of_conv_image_fst)
  from scan_loop_append [OF this, of "[]"] Some show ?thesis
    by (simp add: export_table_def Scan_def scan_keys_def sort_loop_eq_sort view_def)
qed (simp add: export_table_def view_def rows_at_def)

lemma ExportRows_refines: "ExportRows c p h = export_spec c (view p h)"
  by (simp add: ExportRows_def export_spec_def export_table_eq)

lemma insert_all_spec:
  assumes "tb_rows t < length h" and "insert_all F rs t h = (e, t', h')"
  shows "table_step F t h t' h' \<and> insert_all_spec F (tb_desc t) rs (rows_of t h) = (e, rows_of t' h')"
  using assms
proof (induction rs arbitrary: t h)
  case (Cons r rs)
  obtain x t1 h1 where i: "Table_Insert F r t h = (x, t1, h1)" by (rule prod_cases3)
  note s = Table_Insert_spec [OF Cons.prems(1) i]
  show ?case
  proof (cases x)
    case (Inl er)
    with Cons.prems(2) i s show ?thesis
      by (auto split: sum.splits if_splits)
  next
    case (Inr k)
    with Cons.prems(2) i have "insert_all F rs t1 h1 = (e, t', h')" by simp
    note ih = Cons.IH [OF table_step_bound [OF s(1)] this]
    from Inr s have "PKKey F (tb_desc t) r = Inr k" "map_of (rows_of t h) k = None"
      "rows_of t1 h1 = AList.update k r (rows_of t h)"
      by (auto split: sum.splits if_splits)
    with ih table_step_desc [OF s(1)] show ?thesis by (auto intro: table_step_trans [OF s(1)])
  qed
qed simp

lemma import_loop_spec:
  assumes "pool_ok F c h p" and "import_loop F c rows qs p h = (e, p', h')"
  shows "pool_step F c h p h' p' \<and> import_loop_spec F c rows qs (view p h) = (e, view p' h')"
  using assms
proof (induction F c rows qs p h rule: import_loop.induct)
  case (1 F c rows p h)
  then show ?case by (simp add: pool_step_refl)
next
  case (2 F c rows q qs p h)
  show ?case
  proof (cases "Lookup c q")
    case None
    with 2 show ?thesis by simp
  next
    case (Some d)
    obtain t0 h0 where n: "NewTable d h = (t0, h0)" by (cases "NewTable d h")
    from NewTable_ok [OF Some n, of F] have t0: "h0 = h @ [empty_map]" "tb_rows t0 = length h" "tb_desc t0 = d"
      by auto
    obtain x t h1 where i: "insert_all F (rows_in rows q) t0 h0 = (x, t, h1)" by (rule prod_cases3)
    have "tb_rows t0 < length h0" by (simp add: t0)
    note s = insert_all_spec [OF this i]
    then have w: "writes t0 h0 t h1" and ro: "rows_ok F d (rows_of t h1)"
      by (auto simp: table_step_def t0)
    have same: "h1 ! a = h ! a" if "a < length h" for a
      using that w t0 by (simp add: writes_def nth_append)
    have len: "length h \<le> length h1" using w t0 by (simp add: writes_def)
    have tk: "table_ok F c h1 q t" "length h \<le> tb_rows t" using w ro Some t0 by (auto simp: table_ok_def writes_def)
    have sp: "insert_all_spec F d (rows_in rows q) [] = (x, rows_of t h1)" using s t0 by simp
    show ?thesis
    proof (cases x)
      case (Some er)
      have "pool_ok F c h1 p" by (rule pool_ok_heap [OF "2.prems"(1) len]) (simp add: same)
      moreover have "pool_frame h p h1 p" using len same by (auto simp: pool_frame_def)
      moreover have "view p h1 = view p h" by (rule ext, rule pool_ok_heap [OF "2.prems"(1) len]) (simp add: same)
      ultimately show ?thesis using "2.prems"(2) \<open>Lookup c q = Some d\<close> n i sp Some
        by (auto simp: pool_step_def)
    next
      case None
      have p: "pool_step F c h p h1 (put_table q t p)"
        by (rule put_fresh [OF "2.prems"(1) len tk(2,1)]) (simp add: same)
      have v: "view (put_table q t p) h1 q' = (if q' = q then rows_of t h1 else view p h q')" for q'
        by (rule put_fresh [OF "2.prems"(1) len tk(2,1)]) (simp add: same)
      have "import_loop F c rows qs (put_table q t p) h1 = (e, p', h')"
        using "2.prems"(2) \<open>Lookup c q = Some d\<close> n i None by simp
      from "2.IH"(2) [OF \<open>Lookup c q = Some d\<close> n [symmetric] i [symmetric] None refl pool_step_ok [OF p] this]
      have "pool_step F c h1 (put_table q t p) h' p'"
        "import_loop_spec F c rows qs (view (put_table q t p) h1) = (e, view p' h')" by blast+
      moreover have "view (put_table q t p) h1 = (view p h)(q := rows_of t h1)"
        using v by (auto simp: fun_eq_iff)
      ultimately show ?thesis using \<open>Lookup c q = Some d\<close> sp None
        by (auto intro: pool_step_trans [OF p])
    qed
  qed
qed

lemma ImportRows_refines:
  assumes "pool_ok F c h p" and "ImportRows F c rows p h = (e, p', h')"
  shows "pool_step F c h p h' p' \<and> import_spec F c rows (view p h) = (e, view p' h')"
  using import_loop_spec [OF assms(1)] assms
  by (auto simp: ImportRows_def import_spec_def pool_step_refl split: if_splits)

section \<open>The invariant of a family\<close>

text \<open>It reads the catalog, the store, the pools and the marks; \<open>ps\<close> are the pools in order.\<close>

definition mark_inv :: "go_fmt \<Rightarrow> Catalog \<Rightarrow> rheap \<Rightarrow> Pool option list \<Rightarrow> Mark \<Rightarrow> bool" where
  "mark_inv F c h ps m \<longleftrightarrow>
     mk_owner m < length ps \<and> cap_ok F c h (mk_captured m)
     \<and> (\<exists>p. ps ! mk_owner m = Some p
          \<and> (\<forall>q. map_of (mk_captured m) q \<noteq> None \<longrightarrow> table_at p q \<noteq> None))"

definition fam_inv :: "go_fmt \<Rightarrow> Catalog \<Rightarrow> rheap \<Rightarrow> Pool option list \<Rightarrow> Mark list \<Rightarrow> bool" where
  "fam_inv F c h ps ms \<longleftrightarrow>
     catalog_ok c
     \<and> (\<forall>i < length ps. \<forall>p. ps ! i = Some p \<longrightarrow> pool_ok F c h p)
     \<and> (\<forall>i < length ps. \<forall>j < length ps. \<forall>p q a. i \<noteq> j \<longrightarrow> ps ! i = Some p \<longrightarrow> ps ! j = Some q
          \<longrightarrow> addr_in p a \<longrightarrow> addr_in q a \<longrightarrow> rm_shared (h ! a))
     \<and> (\<forall>m \<in> set ms. mark_inv F c h ps m)"

definition dbs_of :: "rheap \<Rightarrow> Pool option list \<Rightarrow> db option list" where
  "dbs_of h ps = map (map_option (\<lambda>p. view p h)) ps"

definition marks_of :: "rheap \<Rightarrow> Mark list \<Rightarrow> (nat \<times> db) list" where
  "marks_of h ms = map (\<lambda>m. (mk_owner m, cap_view h (mk_captured m))) ms"

lemma fam_inv_pool: "fam_inv F c h ps ms \<Longrightarrow> i < length ps \<Longrightarrow> ps ! i = Some p \<Longrightarrow> pool_ok F c h p"
  by (simp add: fam_inv_def)

lemma fam_inv_cross:
  "fam_inv F c h ps ms \<Longrightarrow> i < length ps \<Longrightarrow> j < length ps \<Longrightarrow> i \<noteq> j \<Longrightarrow> ps ! i = Some p \<Longrightarrow> ps ! j = Some q
   \<Longrightarrow> addr_in p a \<Longrightarrow> addr_in q a \<Longrightarrow> rm_shared (h ! a)"
  by (simp add: fam_inv_def)

lemma fam_inv_mark: "fam_inv F c h ps ms \<Longrightarrow> m \<in> set ms \<Longrightarrow> mark_inv F c h ps m"
  by (simp add: fam_inv_def)

lemma fam_inv_catalog: "fam_inv F c h ps ms \<Longrightarrow> catalog_ok c"
  by (simp add: fam_inv_def)

text \<open>A step of one sandbox leaves the other sandboxes and all marks as they were.\<close>

lemma fam_inv_step:
  assumes "fam_inv F c h ps ms" and "i < length ps" and "ps ! i = Some p" and "pool_step F c h p h' p'"
  shows "fam_inv F c h' (ps[i := Some p']) ms"
    and "dbs_of h' (ps[i := Some p']) = (dbs_of h ps)[i := Some (view p' h')]"
    and "marks_of h' ms = marks_of h ms"
proof -
  from assms(4) have fr: "pool_frame h p h' p'" and ok': "pool_ok F c h' p'" by (simp_all add: pool_step_def)
  note len = pool_frame_len [OF fr]
  have other: "rm_m (h' ! a) = rm_m (h ! a) \<and> (rm_shared (h ! a) \<longrightarrow> rm_shared (h' ! a))"
    if "a < length h" "addr_in q a" "j < length ps" "ps ! j = Some q" "j \<noteq> i" for a q j
    using that fam_inv_cross [OF assms(1,2) that(3) _ assms(3) that(4), of a]
      pool_frame_rows [OF fr that(1)] pool_frame_shared [OF fr that(1)] by blast
  have jok: "pool_ok F c h' q \<and> view q h' = view q h" if "j < length ps" "ps ! j = Some q" "j \<noteq> i" for q j
  proof -
    note k = fam_inv_pool [OF assms(1) that(1,2)]
    have "pool_ok F c h' q" by (rule pool_ok_heap [OF k len]) (use other that in blast)
    moreover have "view q h' x = view q h x" for x by (rule pool_ok_heap [OF k len]) (use other that in blast)
    ultimately show ?thesis by blast
  qed
  have cross: "rm_shared (h' ! a)"
    if "j < length ps" "ps ! j = Some q" "j \<noteq> i" "addr_in p' a" "addr_in q a" for a q j
  proof -
    have "a < length h" by (rule pool_ok_addr [OF fam_inv_pool [OF assms(1) that(1,2)] that(5)])
    then show ?thesis
      using pool_frame_addr [OF fr _ that(4)] pool_frame_shared [OF fr]
        fam_inv_cross [OF assms(1,2) that(1) _ assms(3) that(2) _ that(5)] that(3) by blast
  qed
  have mk: "cap_ok F c h' (mk_captured m) \<and> cap_view h' (mk_captured m) = cap_view h (mk_captured m)"
    if "m \<in> set ms" for m
  proof -
    from fam_inv_mark [OF assms(1) that] have c: "cap_ok F c h (mk_captured m)" by (simp add: mark_inv_def)
    have "\<And>a. a < length h \<Longrightarrow> rm_shared (h ! a) \<Longrightarrow> rm_m (h' ! a) = rm_m (h ! a) \<and> rm_shared (h' ! a)"
      using pool_frame_rows [OF fr] pool_frame_shared [OF fr] by blast
    from cap_heap [OF c len this] show ?thesis by blast
  qed
  show "marks_of h' ms = marks_of h ms" using mk by (simp add: marks_of_def)
  have "mark_inv F c h' (ps[i := Some p']) m" if "m \<in> set ms" for m
    using fam_inv_mark [OF assms(1) that] mk [OF that] assms(2,3) fr
    by (auto simp: mark_inv_def pool_frame_def nth_list_update)
  moreover have "pool_ok F c h' q" if "j < length ps" "ps[i := Some p'] ! j = Some q" for j q
    using that jok [of j q] ok' assms(2) by (cases "j = i") simp_all
  moreover have "rm_shared (h' ! a)"
    if z: "j < length ps" "k < length ps" "j \<noteq> k" "ps[i := Some p'] ! j = Some q" "ps[i := Some p'] ! k = Some r"
      "addr_in q a" "addr_in r a" for j k q r a
  proof -
    consider "j = i" "k \<noteq> i" | "j \<noteq> i" "k = i" | "j \<noteq> i" "k \<noteq> i" using z(3) by blast
    then show ?thesis
    proof cases
      case 1
      then show ?thesis using z cross [of k r a] by simp
    next
      case 2
      then show ?thesis using z cross [of j q a] by simp
    next
      case 3
      have "a < length h"
        using 3 z pool_ok_addr [OF fam_inv_pool [OF assms(1) z(1)], of q a] by simp
      with 3 z fam_inv_cross [OF assms(1) z(1,2,3), of q r a] pool_frame_shared [OF fr, of a]
      show ?thesis by simp
    qed
  qed
  ultimately show "fam_inv F c h' (ps[i := Some p']) ms"
    using fam_inv_catalog [OF assms(1)] unfolding fam_inv_def length_list_update by blast
  show "dbs_of h' (ps[i := Some p']) = (dbs_of h ps)[i := Some (view p' h')]"
  proof (rule nth_equalityI)
    fix j assume "j < length (dbs_of h' (ps[i := Some p']))"
    then have j: "j < length ps" by (simp add: dbs_of_def)
    show "dbs_of h' (ps[i := Some p']) ! j = (dbs_of h ps)[i := Some (view p' h')] ! j"
      using j assms(2) jok [of j] by (cases "j = i"; cases "ps ! j") (simp_all add: dbs_of_def)
  qed (simp add: dbs_of_def)
qed

text \<open>A new sandbox on shared and fresh maps.\<close>

lemma fam_inv_new:
  assumes "fam_inv F c h ps ms" and "pool_step F c h NewPool h' p" and "\<And>a. a < length h \<Longrightarrow> h' ! a = h ! a"
  shows "fam_inv F c h' (ps @ [Some p]) ms"
    and "dbs_of h' (ps @ [Some p]) = dbs_of h ps @ [Some (view p h')]" and "marks_of h' ms = marks_of h ms"
proof -
  from assms(2) have fr: "pool_frame h NewPool h' p" and ok': "pool_ok F c h' p" by (simp_all add: pool_step_def)
  note len = pool_frame_len [OF fr]
  have jok: "pool_ok F c h' q \<and> view q h' = view q h" if "j < length ps" "ps ! j = Some q" for q j
  proof -
    note k = fam_inv_pool [OF assms(1) that]
    have "pool_ok F c h' q" by (rule pool_ok_heap [OF k len]) (simp add: assms(3))
    moreover have "view q h' x = view q h x" for x by (rule pool_ok_heap [OF k len]) (simp add: assms(3))
    ultimately show ?thesis by blast
  qed
  have cross: "rm_shared (h' ! a)" if "j < length ps" "ps ! j = Some q" "addr_in p a" "addr_in q a" for a q j
  proof -
    have "a < length h" by (rule pool_ok_addr [OF fam_inv_pool [OF assms(1) that(1,2)] that(4)])
    with pool_frame_addr [OF fr this that(3)] show ?thesis by (simp add: addr_in_def NewPool_def)
  qed
  have mk: "cap_ok F c h' (mk_captured m) \<and> cap_view h' (mk_captured m) = cap_view h (mk_captured m)"
    if "m \<in> set ms" for m
  proof -
    from fam_inv_mark [OF assms(1) that] have c: "cap_ok F c h (mk_captured m)" by (simp add: mark_inv_def)
    from cap_heap [OF c len] assms(3) show ?thesis by simp
  qed
  show "marks_of h' ms = marks_of h ms" using mk by (simp add: marks_of_def)
  show "dbs_of h' (ps @ [Some p]) = dbs_of h ps @ [Some (view p h')]"
  proof -
    have "map_option (\<lambda>p. view p h') x = map_option (\<lambda>p. view p h) x" if x: "x \<in> set ps" for x
    proof (cases x)
      case (Some q)
      obtain j where "j < length ps" "ps ! j = x" using x by (metis in_set_conv_nth)
      with jok [of j q] Some show ?thesis by simp
    qed simp
    then show ?thesis by (simp add: dbs_of_def)
  qed
  have "mark_inv F c h' (ps @ [Some p]) m" if "m \<in> set ms" for m
    using fam_inv_mark [OF assms(1) that] mk [OF that] by (auto simp: mark_inv_def nth_append)
  moreover have "pool_ok F c h' q" if "j < Suc (length ps)" "(ps @ [Some p]) ! j = Some q" for j q
    using that jok [of j q] ok' by (cases "j < length ps") (auto simp: nth_append split: if_splits)
  moreover have "rm_shared (h' ! a)"
    if z: "j < Suc (length ps)" "k < Suc (length ps)" "j \<noteq> k" "(ps @ [Some p]) ! j = Some q"
      "(ps @ [Some p]) ! k = Some r" "addr_in q a" "addr_in r a" for j k q r a
  proof -
    consider "j = length ps" "k < length ps" | "j < length ps" "k = length ps" | "j < length ps" "k < length ps"
      using z(1-3) by linarith
    then show ?thesis
    proof cases
      case 1
      then show ?thesis using z cross [of k r a] by (simp add: nth_append)
    next
      case 2
      then show ?thesis using z cross [of j q a] by (simp add: nth_append)
    next
      case 3
      have q: "ps ! j = Some q" "ps ! k = Some r" using z(4,5) 3 by (simp_all add: nth_append)
      have "a < length h" by (rule pool_ok_addr [OF fam_inv_pool [OF assms(1) 3(1) q(1)] z(6)])
      with fam_inv_cross [OF assms(1) 3 z(3) q z(6,7)] assms(3) [of a] show ?thesis by simp
    qed
  qed
  ultimately show "fam_inv F c h' (ps @ [Some p]) ms"
    using fam_inv_catalog [OF assms(1)] unfolding fam_inv_def length_append_singleton by blast
qed

end
