(* ===== verification/SimSandbox.thy ===== *)
theory SimSandbox
  imports SimRefine
begin

text \<open>
  The properties of the sandbox family: it implements the specification of \<open>SimAbstract\<close> for
  every history, rewinding to a mark restores exactly the rows of the moment it was taken,
  forks are isolated, and a snapshot loads back.
\<close>

section \<open>Every operation refines its specification\<close>

abbreviation pools :: "Family \<Rightarrow> Pool option list" where
  "pools f \<equiv> map sb_pool (fa_sandboxes f)"

definition state_ok :: "go_fmt \<Rightarrow> state \<Rightarrow> bool" where
  "state_ok F s = (case s of (f, ms) \<Rightarrow> fam_inv F (fa_catalog f) (fa_heap f) (pools f) ms)"

definition spec_of :: "state \<Rightarrow> spec_state" where
  "spec_of s = (case s of (f, ms) \<Rightarrow>
     \<lparr>sp_catalog = fa_catalog f, sp_reads = fa_reads f, sp_dbs = dbs_of (fa_heap f) (pools f),
      sp_marks = marks_of (fa_heap f) ms\<rparr>)"

lemma spec_of_simps [simp]:
  "sp_catalog (spec_of (f, ms)) = fa_catalog f" "sp_reads (spec_of (f, ms)) = fa_reads f"
  "sp_dbs (spec_of (f, ms)) = dbs_of (fa_heap f) (pools f)" "sp_marks (spec_of (f, ms)) = marks_of (fa_heap f) ms"
  by (simp_all add: spec_of_def)

lemma set_pool_simps [simp]:
  "fa_catalog (set_pool i p f) = fa_catalog f" "fa_heap (set_pool i p f) = fa_heap f"
  "fa_reads (set_pool i p f) = fa_reads f"
  by (simp_all add: set_pool_def)

lemma pools_set_pool [simp]: "pools (set_pool i p f) = (pools f)[i := Some p]"
  by (simp add: set_pool_def map_update)

lemma length_dbs_of [simp]: "length (dbs_of h ps) = length ps"
  by (simp add: dbs_of_def)

lemma nth_dbs_of [simp]: "i < length ps \<Longrightarrow> dbs_of h ps ! i = map_option (\<lambda>p. view p h) (ps ! i)"
  by (simp add: dbs_of_def)

lemma state_okD: "state_ok F (f, ms) \<Longrightarrow> fam_inv F (fa_catalog f) (fa_heap f) (pools f) ms"
  by (simp add: state_ok_def)

text \<open>A sandbox that changed its pool by a step, the clock read on the way.\<close>

lemma step_refines:
  assumes "state_ok F (f, ms)" and "i < length (fa_sandboxes f)" and "pool_of f i = Some p"
    and "pool_step F (fa_catalog f) (fa_heap f) p h' p'"
    and "fa_catalog f' = fa_catalog f" and "fa_heap f' = h'" and "pools f' = (pools f)[i := Some p']"
  shows "state_ok F (f', ms)"
    and "spec_of (f', ms) = (spec_of (f, ms))\<lparr>sp_reads := fa_reads f',
           sp_dbs := (sp_dbs (spec_of (f, ms)))[i := Some (view p' h')]\<rparr>"
proof -
  have i: "i < length (pools f)" "pools f ! i = Some p" using assms(2,3) by simp_all
  note s = fam_inv_step [OF state_okD [OF assms(1)] i assms(4)]
  from s(1) show "state_ok F (f', ms)" by (simp add: state_ok_def assms(5-7))
  from s(2,3) show "spec_of (f', ms) = (spec_of (f, ms))\<lparr>sp_reads := fa_reads f',
           sp_dbs := (sp_dbs (spec_of (f, ms)))[i := Some (view p' h')]\<rparr>"
    by (simp add: spec_of_def assms(5-7))
qed

lemma call_refines:
  assumes "state_ok (wd_fmt X) (f, ms)" and "i < length (fa_sandboxes f)"
    and "family_do X i (Call cl) (f, ms) = (r, s')"
  shows "state_ok (wd_fmt X) s' \<and> spec_do X i (Call cl) (spec_of (f, ms)) = (r, spec_of s')"
proof (cases "pool_of f i")
  case None
  with assms show ?thesis by (auto simp: family_do_def Sandbox_call_def spec_do_def spec_call_def)
next
  case (Some p)
  obtain y w p' h' where c: "pool_call X (fa_catalog f) cl (fa_reads f) p (fa_heap f) = ((y, w), p', h')"
    by (rule result_split)
  have ok: "pool_ok (wd_fmt X) (fa_catalog f) (fa_heap f) p"
    using fam_inv_pool [OF state_okD [OF assms(1)], of i] assms(2) Some by simp
  from pool_call_refines [OF ok c] have st: "pool_step (wd_fmt X) (fa_catalog f) (fa_heap f) p h' p'"
    and sp: "call_spec X (fa_catalog f) cl (fa_reads f) (view p (fa_heap f)) = ((y, w), view p' h')" by blast+
  define f' where "f' = set_pool i p' (f\<lparr>fa_heap := h', fa_reads := w\<rparr>)"
  have "r = CallReply (Some y)" "s' = (f', ms)"
    using assms(3) Some c by (auto simp: family_do_def Sandbox_call_def f'_def)
  moreover note step_refines [OF assms(1,2) Some st, of f']
  ultimately show ?thesis using Some sp assms(2) by (simp add: f'_def spec_do_def spec_call_def)
qed

lemma mark_refines:
  assumes "state_ok F (f, ms)" and "i < length (fa_sandboxes f)"
    and "family_do X i TakeMark (f, ms) = (r, s')"
  shows "state_ok F s' \<and> spec_do X i TakeMark (spec_of (f, ms)) = (r, spec_of s')"
proof (cases "pool_of f i")
  case None
  with assms show ?thesis by (auto simp: family_do_def Sandbox_Mark_def spec_do_def)
next
  case (Some p)
  obtain cap h' where c: "CapturePointers (fa_catalog f) p (fa_heap f) = (cap, h')"
    by (cases "CapturePointers (fa_catalog f) p (fa_heap f)")
  have i: "i < length (pools f)" "pools f ! i = Some p" using assms(2) Some by simp_all
  note ok = fam_inv_pool [OF state_okD [OF assms(1)] i]
  note cs = CapturePointers_spec [OF ok c]
  note s = fam_inv_step [OF state_okD [OF assms(1)] i cs(1)]
  have id: "(pools f)[i := Some p] = pools f" using i by (metis list_update_id)
  define m where "m = \<lparr>mk_owner = i, mk_captured = cap\<rparr>"
  have "mark_inv F (fa_catalog f) h' (pools f) m"
    using i cs(3,5) by (simp add: mark_inv_def m_def)
  with s(1) have "fam_inv F (fa_catalog f) h' (pools f) (ms @ [m])"
    by (auto simp: fam_inv_def id)
  moreover have "r = MarkReply True" "s' = (f\<lparr>fa_heap := h'\<rparr>, ms @ [m])"
    using assms(3) Some c by (auto simp: family_do_def Sandbox_Mark_def m_def)
  moreover have "marks_of h' (ms @ [m]) = marks_of (fa_heap f) ms @ [(i, view p (fa_heap f))]"
    using s(3) cs(4) by (simp add: marks_of_def m_def)
  moreover have "dbs_of h' (pools f) = dbs_of (fa_heap f) (pools f)"
    using s(2) cs(2) i by (simp add: id) (metis list_update_id nth_dbs_of i(1) length_dbs_of option.simps(9) i(2))
  ultimately show ?thesis using Some assms(2)
    by (simp add: state_ok_def spec_do_def spec_of_def)
qed

lemma marks_of_nth: "nth_mark (marks_of h ms) k = map_option (\<lambda>m. (mk_owner m, cap_view h (mk_captured m))) (nth_mark ms k)"
  by (simp add: nth_mark_def marks_of_def)

lemma rewind_refines:
  assumes "state_ok F (f, ms)" and "i < length (fa_sandboxes f)"
    and "family_do X i (RewindTo k) (f, ms) = (r, s')"
  shows "state_ok F s' \<and> spec_do X i (RewindTo k) (spec_of (f, ms)) = (r, spec_of s')"
proof (cases "pool_of f i")
  case None
  with assms show ?thesis by (auto simp: family_do_def RestoreTo_def spec_do_def spec_rewind_def)
next
  case (Some p)
  have i: "i < length (pools f)" "pools f ! i = Some p" using assms(2) Some by simp_all
  show ?thesis
  proof (cases "nth_mark ms k")
    case None
    with assms Some show ?thesis
      by (auto simp: family_do_def RestoreTo_def spec_do_def spec_rewind_def marks_of_nth)
  next
    case (Some m)
    then have m: "m \<in> set ms" by (auto simp: nth_mark_def split: if_splits)
    show ?thesis
    proof (cases "mk_owner m = i")
      case False
      with assms Some \<open>pool_of f i = Some p\<close> show ?thesis
        by (auto simp: family_do_def RestoreTo_def spec_do_def spec_rewind_def marks_of_nth)
    next
      case True
      obtain p' h' where c: "ReplaceFromPointers (fa_catalog f) (mk_captured m) p (fa_heap f) = (p', h')"
        by (cases "ReplaceFromPointers (fa_catalog f) (mk_captured m) p (fa_heap f)")
      note ok = fam_inv_pool [OF state_okD [OF assms(1)] i]
      from fam_inv_mark [OF state_okD [OF assms(1)] m] True i
      have mk: "cap_ok F (fa_catalog f) (fa_heap f) (mk_captured m)"
        "\<And>q. map_of (mk_captured m) q \<noteq> None \<Longrightarrow> table_at p q \<noteq> None"
        by (auto simp: mark_inv_def)
      note rs = ReplaceFromPointers_spec [OF ok mk c]
      define f' where "f' = set_pool i p' (f\<lparr>fa_heap := h'\<rparr>)"
      have "r = ErrReply None" "s' = (f', ms)"
        using assms(3) Some \<open>pool_of f i = Some p\<close> c True by (auto simp: family_do_def RestoreTo_def f'_def)
      moreover note step_refines [OF assms(1,2) \<open>pool_of f i = Some p\<close> rs(1), of f']
      ultimately show ?thesis using Some \<open>pool_of f i = Some p\<close> assms(2) True rs(2)
        by (simp add: f'_def spec_do_def spec_rewind_def marks_of_nth)
    qed
  qed
qed

lemma forkOne_spec:
  assumes "state_ok F (f, ms)" and "cap_ok F (fa_catalog f) (fa_heap f) shared"
  shows "state_ok F (forkOne shared f, ms) \<and> cap_ok F (fa_catalog f) (fa_heap (forkOne shared f)) shared
    \<and> cap_view (fa_heap (forkOne shared f)) shared = cap_view (fa_heap f) shared
    \<and> fa_catalog (forkOne shared f) = fa_catalog f
    \<and> spec_of (forkOne shared f, ms) = (spec_of (f, ms))\<lparr>sp_dbs := sp_dbs (spec_of (f, ms)) @ [Some (cap_view (fa_heap f) shared)]\<rparr>"
proof -
  obtain p h' where i: "InstallSharedPointers (fa_catalog f) shared NewPool (fa_heap f) = (p, h')"
    by (cases "InstallSharedPointers (fa_catalog f) shared NewPool (fa_heap f)")
  note ins = InstallSharedPointers_spec [OF assms(2) i]
  note n = fam_inv_new [OF state_okD [OF assms(1)] ins(1,2)]
  have len: "length (fa_heap f) \<le> length h'" using ins(1) by (simp add: pool_step_def pool_frame_def)
  have cap: "cap_ok F (fa_catalog f) h' shared" "cap_view h' shared = cap_view (fa_heap f) shared"
    using cap_heap [OF assms(2) len] ins(2) by simp_all
  have f: "fa_catalog (forkOne shared f) = fa_catalog f" "fa_heap (forkOne shared f) = h'"
    "pools (forkOne shared f) = pools f @ [Some p]" "fa_reads (forkOne shared f) = fa_reads f"
    using i by (simp_all add: forkOne_def)
  show ?thesis using n cap ins(3) by (simp add: state_ok_def spec_of_def f)
qed

lemma forkOne_pow:
  assumes "state_ok F (f, ms)" and "cap_ok F (fa_catalog f) (fa_heap f) shared"
  shows "state_ok F ((forkOne shared ^^ n) f, ms)
    \<and> cap_ok F (fa_catalog ((forkOne shared ^^ n) f)) (fa_heap ((forkOne shared ^^ n) f)) shared
    \<and> cap_view (fa_heap ((forkOne shared ^^ n) f)) shared = cap_view (fa_heap f) shared
    \<and> spec_of ((forkOne shared ^^ n) f, ms)
      = (spec_of (f, ms))\<lparr>sp_dbs := sp_dbs (spec_of (f, ms)) @ replicate n (Some (cap_view (fa_heap f) shared))\<rparr>"
proof (induction n)
  case (Suc n)
  let ?g = "(forkOne shared ^^ n) f"
  from Suc forkOne_spec [of F ?g ms shared] show ?case
    by (simp del: spec_of_simps add: replicate_append_same [symmetric])
qed (use assms in simp)

lemma fork_refines:
  assumes "state_ok F (f, ms)" and "i < length (fa_sandboxes f)"
    and "family_do X i (ForkInto n) (f, ms) = (r, s')"
  shows "state_ok F s' \<and> spec_do X i (ForkInto n) (spec_of (f, ms)) = (r, spec_of s')"
proof (cases "pool_of f i")
  case None
  with assms show ?thesis by (auto simp: family_do_def Fork_def spec_do_def spec_fork_def)
next
  case (Some p)
  consider "n < 0" | "n = 0" | "n > 0" by linarith
  then show ?thesis
  proof cases
    case 1
    with assms Some show ?thesis by (auto simp: family_do_def Fork_def spec_do_def spec_fork_def)
  next
    case 2
    with assms Some show ?thesis by (auto simp: family_do_def Fork_def spec_do_def spec_fork_def)
  next
    case 3
    obtain cap h' where c: "CapturePointers (fa_catalog f) p (fa_heap f) = (cap, h')"
      by (cases "CapturePointers (fa_catalog f) p (fa_heap f)")
    have i: "i < length (pools f)" "pools f ! i = Some p" using assms(2) Some by simp_all
    note cs = CapturePointers_spec [OF fam_inv_pool [OF state_okD [OF assms(1)] i] c]
    note st = fam_inv_step [OF state_okD [OF assms(1)] i cs(1)]
    have id: "(pools f)[i := Some p] = pools f" using i by (metis list_update_id)
    define f1 where "f1 = f\<lparr>fa_heap := h'\<rparr>"
    have db: "dbs_of h' (pools f) = dbs_of (fa_heap f) (pools f)"
      using st(2) cs(2) i by (simp add: id) (metis list_update_id nth_dbs_of i(1) length_dbs_of option.simps(9) i(2))
    have f1: "state_ok F (f1, ms)" "spec_of (f1, ms) = spec_of (f, ms)"
      using st(1,3) db by (simp_all add: state_ok_def spec_of_def f1_def id)
    have "cap_ok F (fa_catalog f1) (fa_heap f1) cap" using cs(3) by (simp add: f1_def)
    note fp = forkOne_pow [OF f1(1) this, of "nat n"]
    have "r = ForkReply (Inr [length (fa_sandboxes f) ..< length (fa_sandboxes f) + nat n])"
      "s' = ((forkOne cap ^^ nat n) f1, ms)"
      using assms(3) Some c 3 by (auto simp: family_do_def Fork_def ForkPointers_def f1_def)
    moreover have "cap_view (fa_heap f1) cap = view p (fa_heap f)" using cs(4) by (simp add: f1_def)
    ultimately show ?thesis using fp f1 Some assms(2) 3
      by (simp add: spec_do_def spec_fork_def del: spec_of_simps) (simp add: i)
  qed
qed

lemma save_refines:
  assumes "state_ok F (f, ms)" and "i < length (fa_sandboxes f)"
    and "family_do X i Save (f, ms) = (r, s')"
  shows "state_ok F s' \<and> spec_do X i Save (spec_of (f, ms)) = (r, spec_of s')"
proof -
  let ?f = "f\<lparr>fa_reads := Suc (fa_reads f)\<rparr>"
  have "state_ok F (?f, ms)" "spec_of (?f, ms) = (spec_of (f, ms))\<lparr>sp_reads := Suc (fa_reads f)\<rparr>"
    using assms(1) by (simp_all add: state_ok_def spec_of_def)
  with assms show ?thesis
    by (cases "pool_of f i")
      (auto simp: family_do_def Sandbox_Snapshot_def spec_do_def spec_save_def Let_def ExportRows_refines
        split: option.splits)
qed

lemma load_refines:
  assumes "state_ok (wd_fmt X) (f, ms)" and "i < length (fa_sandboxes f)"
    and "family_do X i (Load blob) (f, ms) = (r, s')"
  shows "state_ok (wd_fmt X) s' \<and> spec_do X i (Load blob) (spec_of (f, ms)) = (r, spec_of s')"
proof -
  consider "gob_decode X blob = None"
    | dec where "gob_decode X blob = Some dec" "es_magic dec \<noteq> snapshotMagic \<or> es_format dec \<noteq> snapshotFormat"
    | dec where "gob_decode X blob = Some dec" "es_magic dec = snapshotMagic" "es_format dec = snapshotFormat"
        "pool_of f i = None"
    | dec p where "gob_decode X blob = Some dec" "es_magic dec = snapshotMagic" "es_format dec = snapshotFormat"
        "pool_of f i = Some p" "es_signature dec \<noteq> Signature (wd_sha X) (fa_catalog f)"
    | (go) dec p where "gob_decode X blob = Some dec" "es_magic dec = snapshotMagic" "es_format dec = snapshotFormat"
        "pool_of f i = Some p" "es_signature dec = Signature (wd_sha X) (fa_catalog f)"
    by (cases "gob_decode X blob"; cases "pool_of f i") blast+
  then show ?thesis
  proof cases
    case go
    obtain e p' h' where c: "ImportRows (wd_fmt X) (fa_catalog f) (es_tables dec) p (fa_heap f) = (e, p', h')"
      by (rule prod_cases3)
    have i: "i < length (pools f)" "pools f ! i = Some p" using assms(2) go by simp_all
    from ImportRows_refines [OF fam_inv_pool [OF state_okD [OF assms(1)] i] c]
    have st: "pool_step (wd_fmt X) (fa_catalog f) (fa_heap f) p h' p'"
      and sp: "import_spec (wd_fmt X) (fa_catalog f) (es_tables dec) (view p (fa_heap f)) = (e, view p' h')" by blast+
    define f' where "f' = set_pool i p' (f\<lparr>fa_heap := h'\<rparr>)"
    have "r = ErrReply (map_option ErrImport e)" "s' = (f', ms)"
      using assms(3) go c by (auto simp: family_do_def Sandbox_Restore_def f'_def)
    moreover note step_refines [OF assms(1,2) go(4) st, of f']
    ultimately show ?thesis using go sp assms(2) by (simp add: f'_def spec_do_def spec_load_def)
  qed (use assms in \<open>auto simp: family_do_def Sandbox_Restore_def spec_do_def spec_load_def split: if_splits\<close>)
qed

text \<open>Registering a table keeps every descriptor that was there.\<close>

lemma fam_inv_register:
  assumes "fam_inv F c h ps ms" and "catalog_ok c'" and "\<And>q d. Lookup c q = Some d \<Longrightarrow> Lookup c' q = Some d"
  shows "fam_inv F c' h ps ms"
proof -
  have "pool_ok F c' h p" if "pool_ok F c h p" for p
    using that assms(3) by (auto simp: pool_ok_def table_ok_def)
  moreover have "mark_inv F c' h ps m" if "mark_inv F c h ps m" for m
    using that assms(3) by (auto simp: mark_inv_def cap_ok_def) blast+
  ultimately show ?thesis using assms(1,2) by (simp add: fam_inv_def)
qed

lemma register_refines:
  assumes "state_ok F (f, ms)" and "family_do X i (Register d) (f, ms) = (r, s')"
  shows "state_ok F s' \<and> spec_do X i (Register d) (spec_of (f, ms)) = (r, spec_of s')"
proof -
  obtain e c where rt: "RegisterTable d (fa_catalog f) = (e, c)" by (cases "RegisterTable d (fa_catalog f)")
  have "fam_inv F c (fa_heap f) (pools f) ms"
    using fam_inv_register [OF state_okD [OF assms(1)], of c] RegisterTable_extends [of "fa_catalog f" _ _ d]
      RegisterTable_ok [OF fam_inv_catalog [OF state_okD [OF assms(1)]], of d] rt by simp
  moreover have "r = RegisterReply e" "s' = (f\<lparr>fa_catalog := c\<rparr>, ms)"
    using assms(2) rt by (simp_all add: family_do_def)
  ultimately show ?thesis using rt by (simp add: state_ok_def spec_do_def spec_of_def)
qed

lemma family_do_refines:
  assumes "state_ok (wd_fmt X) s" and "i < length (fa_sandboxes (fst s))" and "family_do X i opn s = (r, s')"
  shows "state_ok (wd_fmt X) s'" and "spec_do X i opn (spec_of s) = (r, spec_of s')"
proof -
  obtain f ms where s: "s = (f, ms)" by (cases s)
  note a = assms [unfolded s fst_conv]
  have "state_ok (wd_fmt X) s' \<and> spec_do X i opn (spec_of (f, ms)) = (r, spec_of s')"
    using call_refines [OF a(1,2)] mark_refines [OF a(1,2)] rewind_refines [OF a(1,2)] fork_refines [OF a(1,2)]
      save_refines [OF a(1,2)] load_refines [OF a(1,2)] register_refines [OF a(1)] a(3)
    by (cases opn) simp_all
  then show "state_ok (wd_fmt X) s'" and "spec_do X i opn (spec_of s) = (r, spec_of s')" by (simp_all add: s)
qed

lemma length_sp_dbs: "length (sp_dbs (spec_of s)) = length (fa_sandboxes (fst s))"
  by (cases s) simp

lemma family_run_refines:
  assumes "state_ok (wd_fmt X) s" and "family_run X hist s = (rs, s')"
  shows "state_ok (wd_fmt X) s' \<and> spec_run X hist (spec_of s) = (rs, spec_of s')"
  using assms
proof (induction X hist s arbitrary: rs rule: family_run.induct)
  case (1 X s)
  then show ?case by simp
next
  case (2 X i opn hist s)
  show ?case
  proof (cases "i < length (fa_sandboxes (fst s))")
    case False
    with 2 show ?thesis by (simp add: length_sp_dbs)
  next
    case True
    obtain r s1 where d: "family_do X i opn s = (r, s1)" by (cases "family_do X i opn s")
    obtain rs1 where h: "family_run X hist s1 = (rs1, s')" and rs: "rs = r # rs1"
      using "2.prems"(2) d True by (auto split: prod.splits)
    note f = family_do_refines [OF "2.prems"(1) True d]
    from "2.IH"(1) [OF True d [symmetric] f(1) h] f(2) rs True show ?thesis
      by (simp add: length_sp_dbs)
  qed
qed

lemma newSim_ok: "state_ok F (newSim, [])"
  by (simp add: state_ok_def newSim_def fam_inv_def)

section \<open>What the specification keeps\<close>

text \<open>Marks are only added, sandboxes are only added, and only the acting sandbox changes its rows.\<close>

lemma spec_do_keeps:
  assumes "i < length (sp_dbs s)" and "spec_do X i opn s = (r, s')"
  shows "(\<exists>l. sp_marks s' = sp_marks s @ l) \<and> length (sp_dbs s) \<le> length (sp_dbs s')
    \<and> (\<forall>k < length (sp_dbs s). k \<noteq> i \<longrightarrow> sp_dbs s' ! k = sp_dbs s ! k)"
proof (cases opn)
  case (Call cl)
  with assms show ?thesis
    by (auto simp: spec_do_def spec_call_def split: option.splits prod.splits)
next
  case TakeMark
  with assms show ?thesis by (auto simp: spec_do_def split: option.splits)
next
  case (RewindTo k)
  with assms show ?thesis
    by (auto simp: spec_do_def spec_rewind_def split: option.splits prod.splits if_splits)
next
  case (ForkInto n)
  with assms show ?thesis
    by (auto simp: spec_do_def spec_fork_def nth_append split: option.splits if_splits)
next
  case Save
  with assms show ?thesis by (auto simp: spec_do_def spec_save_def Let_def split: option.splits)
next
  case (Load blob)
  with assms show ?thesis
    by (auto simp: spec_do_def spec_load_def split: option.splits prod.splits if_splits)
next
  case (Register d)
  with assms show ?thesis by (auto simp: spec_do_def split: prod.splits)
qed

lemma spec_run_keeps:
  assumes "spec_run X hist s = (rs, s')"
  shows "(\<exists>l. sp_marks s' = sp_marks s @ l) \<and> length (sp_dbs s) \<le> length (sp_dbs s')
    \<and> (\<forall>k < length (sp_dbs s). k \<notin> fst ` set hist \<longrightarrow> sp_dbs s' ! k = sp_dbs s ! k)"
  using assms
proof (induction X hist s arbitrary: rs rule: spec_run.induct)
  case (1 X s)
  then show ?case by simp
next
  case (2 X i opn hist s)
  show ?case
  proof (cases "i < length (sp_dbs s)")
    case False
    with 2 show ?thesis by simp
  next
    case True
    obtain r s1 where d: "spec_do X i opn s = (r, s1)" by (cases "spec_do X i opn s")
    obtain rs1 where h: "spec_run X hist s1 = (rs1, s')"
      using "2.prems" d True by (auto split: prod.splits)
    from "2.IH"(1) [OF True d [symmetric] h] spec_do_keeps [OF True d] show ?thesis by auto
  qed
qed

section \<open>Properties\<close>

abbreviation sandbox_rows :: "Family \<Rightarrow> nat \<Rightarrow> db option" where
  "sandbox_rows f i \<equiv> map_option (\<lambda>p. view p (fa_heap f)) (pool_of f i)"

lemma sandbox_rows_spec: "i < length (fa_sandboxes f) \<Longrightarrow> sandbox_rows f i = sp_dbs (spec_of (f, ms)) ! i"
  by simp

text \<open>The states a family reaches from \<open>New\<close>.\<close>

definition reached :: "world \<Rightarrow> state \<Rightarrow> bool" where
  "reached X s \<longleftrightarrow> (\<exists>hist. snd (family_run X hist (newSim, [])) = s)"

lemma reached_ok: "reached X s \<Longrightarrow> state_ok (wd_fmt X) s"
  unfolding reached_def using family_run_refines [OF newSim_ok] by (metis prod.collapse)

lemma family_do_marks: "family_do X i opn (f, ms) = (r, f', ms') \<Longrightarrow> \<exists>l. ms' = ms @ l"
  by (auto simp: family_do_def split: sb_op.splits prod.splits option.splits)

lemma family_run_marks: "family_run X hist (f, ms) = (rs, f', ms') \<Longrightarrow> \<exists>l. ms' = ms @ l"
proof (induction X hist "(f, ms)" arbitrary: f ms rs rule: family_run.induct)
  case (1 X)
  then show ?case by simp
next
  case (2 X i opn hist)
  show ?case
  proof (cases "i < length (fa_sandboxes f)")
    case True
    obtain r f1 ms1 where d: "family_do X i opn (f, ms) = (r, f1, ms1)" by (rule prod_cases3)
    obtain rs1 where h: "family_run X hist (f1, ms1) = (rs1, f', ms')"
      using "2.prems" d True by (auto split: prod.splits)
    from "2.hyps"(1) [OF _ d [symmetric] h] True family_do_marks [OF d] show ?thesis by auto
  qed (use 2 in simp)
qed

text \<open>
  C36: For every history of statements, marks, rewinds, forks, snapshots, restores and table
  registrations by any sandboxes of a family, the copy-on-write code gives the same replies
  and leaves the same rows as the specification in which every sandbox owns its rows, every
  mark is a full copy and every fork starts from a full copy.
\<close>

theorem sandbox_refines:
  "spec_run X hist (spec_of (newSim, []))
     = (fst (family_run X hist (newSim, [])), spec_of (snd (family_run X hist (newSim, []))))"
  using family_run_refines [OF newSim_ok, of X hist] by (metis prod.collapse)

lemma mark_taken:
  assumes "state_ok F (f, ms)" and "i < length (fa_sandboxes f)" and "Sandbox_Mark i f = (Some m, f1)"
  shows "state_ok F (f1, ms @ [m]) \<and> mk_owner m = i
    \<and> (\<exists>V. sandbox_rows f i = Some V
      \<and> spec_of (f1, ms @ [m]) = (spec_of (f, ms))\<lparr>sp_marks := sp_marks (spec_of (f, ms)) @ [(i, V)]\<rparr>)"
proof -
  have d: "family_do X i TakeMark (f, ms) = (MarkReply True, f1, ms @ [m])" for X
    using assms(3) by (simp add: family_do_def)
  note mr = mark_refines [OF assms(1,2) d]
  obtain p where p: "pool_of f i = Some p" and o: "mk_owner m = i"
    using assms(3) by (auto simp: Sandbox_Mark_def split: option.splits prod.splits)
  have "spec_do X i TakeMark (spec_of (f, ms))
      = (MarkReply True, (spec_of (f, ms))\<lparr>sp_marks := sp_marks (spec_of (f, ms)) @ [(i, view p (fa_heap f))]\<rparr>)" for X
    using assms(2) p by (simp add: spec_do_def)
  with mr p o show ?thesis by simp
qed

lemma rewound:
  assumes "state_ok F (f, ms)" and "i < length (fa_sandboxes f)" and "nth_mark ms k = Some m" and "mk_owner m = i"
    and "nth_mark (sp_marks (spec_of (f, ms))) k = Some (i, V)"
  shows "\<exists>f'. RestoreTo i (Some m) f = (None, f')
    \<and> spec_of (f', ms) = (spec_of (f, ms))\<lparr>sp_dbs := (sp_dbs (spec_of (f, ms)))[i := Some V]\<rparr>"
proof -
  obtain e f' where rt: "RestoreTo i (Some m) f = (e, f')" by (cases "RestoreTo i (Some m) f")
  have d: "family_do X i (RewindTo k) (f, ms) = (ErrReply e, f', ms)" for X
    using rt assms(3) by (simp add: family_do_def)
  note rw = rewind_refines [OF assms(1,2) d]
  have "m \<in> set ms" using assms(3) by (auto simp: nth_mark_def split: if_splits)
  from fam_inv_mark [OF state_okD [OF assms(1)] this] assms(2,4) obtain p where "pool_of f i = Some p"
    by (auto simp: mark_inv_def)
  then have "spec_do X i (RewindTo k) (spec_of (f, ms))
      = (ErrReply None, (spec_of (f, ms))\<lparr>sp_dbs := (sp_dbs (spec_of (f, ms)))[i := Some V]\<rparr>)" for X
    using assms(2,5) by (simp add: spec_do_def spec_rewind_def)
  with rw rt show ?thesis by simp
qed

text \<open>
  C37: \<open>Mark\<close> then \<open>RestoreTo\<close>: whatever any sandboxes of the family do after the mark was
  taken, \<open>RestoreTo\<close> succeeds, brings back exactly the rows its sandbox had when the mark
  was taken, in every table, and leaves the rows of every other sandbox alone.
\<close>

theorem Mark_RestoreTo_exact:
  assumes "reached X (f, ms)" and "i < length (fa_sandboxes f)"
    and "Sandbox_Mark i f = (Some m, f1)"
    and "family_run X hist (f1, ms @ [m]) = (rs, f2, ms2)"
  shows "\<exists>f3. RestoreTo i (Some m) f2 = (None, f3) \<and> sandbox_rows f3 i = sandbox_rows f i
    \<and> (\<forall>j < length (fa_sandboxes f2). j \<noteq> i \<longrightarrow> sandbox_rows f3 j = sandbox_rows f2 j)"
proof -
  obtain V where ok1: "state_ok (wd_fmt X) (f1, ms @ [m])" and o: "mk_owner m = i"
    and V: "sandbox_rows f i = Some V"
    and s1: "spec_of (f1, ms @ [m]) = (spec_of (f, ms))\<lparr>sp_marks := sp_marks (spec_of (f, ms)) @ [(i, V)]\<rparr>"
    using mark_taken [OF reached_ok [OF assms(1)] assms(2,3)] by blast
  note rr = family_run_refines [OF ok1 assms(4)]
  then have ok2: "state_ok (wd_fmt X) (f2, ms2)" by blast
  from family_run_marks [OF assms(4)] obtain l where "ms2 = (ms @ [m]) @ l" by blast
  then have km: "nth_mark ms2 (length ms) = Some m" by (simp add: nth_mark_def nth_append)
  from rr spec_run_keeps [of X hist "spec_of (f1, ms @ [m])" rs "spec_of (f2, ms2)"] s1 obtain l'
    where mk: "sp_marks (spec_of (f2, ms2)) = (sp_marks (spec_of (f, ms)) @ [(i, V)]) @ l'"
      and len: "length (sp_dbs (spec_of (f, ms))) \<le> length (sp_dbs (spec_of (f2, ms2)))"
    by (auto simp del: spec_of_simps)
  have i2: "i < length (fa_sandboxes f2)" using len assms(2) by simp
  have "nth_mark (sp_marks (spec_of (f2, ms2))) (length ms) = Some (i, V)"
    unfolding mk by (simp add: nth_mark_def nth_append marks_of_def)
  from rewound [OF ok2 i2 km o this] obtain f3 where rt: "RestoreTo i (Some m) f2 = (None, f3)"
    and s3: "spec_of (f3, ms2) = (spec_of (f2, ms2))\<lparr>sp_dbs := (sp_dbs (spec_of (f2, ms2)))[i := Some V]\<rparr>" by blast
  have n: "length (fa_sandboxes f3) = length (fa_sandboxes f2)"
    using arg_cong [OF s3, of "\<lambda>s. length (sp_dbs s)"] by simp
  have "sandbox_rows f3 j = (if j = i then Some V else sandbox_rows f2 j)" if "j < length (fa_sandboxes f2)" for j
    using arg_cong [OF s3, of "\<lambda>s. sp_dbs s ! j"] that n by (cases "j = i") simp_all
  with rt V i2 show ?thesis by auto
qed

lemma forked:
  assumes "state_ok (wd_fmt X) (f, ms)" and "i < length (fa_sandboxes f)" and "Fork i n f = (Inr kids, f1)"
  shows "state_ok (wd_fmt X) (f1, ms) \<and> kids = [length (fa_sandboxes f) ..< length (fa_sandboxes f) + nat n]
    \<and> sp_dbs (spec_of (f1, ms)) = sp_dbs (spec_of (f, ms)) @ replicate (nat n) (sandbox_rows f i)"
proof -
  have d: "family_do X i (ForkInto n) (f, ms) = (ForkReply (Inr kids), f1, ms)"
    using assms(3) by (simp add: family_do_def)
  note fr = fork_refines [OF assms(1,2) d]
  have "spec_do X i (ForkInto n) (spec_of (f, ms)) = (ForkReply (Inr kids), spec_of (f1, ms))" using fr by blast
  then show ?thesis using fr assms(2)
    by (cases "pool_of f i") (auto simp: spec_do_def spec_fork_def split: if_splits dest: arg_cong [where f = sp_dbs])
qed

text \<open>
  C38: \<open>Fork\<close> gives children that start with the rows of the parent, and parent and children
  are isolated: as long as one of them does nothing itself, its rows stay those of the
  parent at the fork, whatever the others and their forks write, rewind or load.
\<close>

theorem Fork_isolated:
  assumes "reached X (f, ms)" and "i < length (fa_sandboxes f)" and "Fork i n f = (Inr kids, f1)"
    and "family_run X hist (f1, ms) = (rs, f2, ms2)" and "k = i \<or> k \<in> set kids" and "k \<notin> fst ` set hist"
  shows "k < length (fa_sandboxes f2) \<and> sandbox_rows f2 k = sandbox_rows f i"
proof -
  note fk = forked [OF reached_ok [OF assms(1)] assms(2,3)]
  have k1: "k < length (sp_dbs (spec_of (f1, ms)))" and v1: "sp_dbs (spec_of (f1, ms)) ! k = sandbox_rows f i"
    using fk assms(2,5) by (auto simp: nth_append simp del: spec_of_simps) (simp_all)
  from fk family_run_refines [OF _ assms(4)]
  have "spec_run X hist (spec_of (f1, ms)) = (rs, spec_of (f2, ms2))" by blast
  from spec_run_keeps [OF this] k1 assms(6)
  have "k < length (sp_dbs (spec_of (f2, ms2)))" "sp_dbs (spec_of (f2, ms2)) ! k = sp_dbs (spec_of (f1, ms)) ! k"
    by (auto simp del: spec_of_simps)
  then show ?thesis using v1 by simp
qed

section \<open>Snapshots\<close>

lemma insert_all_roundtrip:
  assumes "rows_ok F d m" and "distinct ks" and "set ks \<subseteq> dom (map_of m)" and "set ks \<inter> dom (map_of acc) = {}"
  shows "\<exists>acc'. insert_all_spec F d (rows_at m ks) acc = (None, acc')
    \<and> map_of acc' = (\<lambda>k. if k \<in> set ks then map_of m k else map_of acc k)"
  using assms(2-4)
proof (induction ks arbitrary: acc)
  case Nil
  then show ?case by (simp add: rows_at_def)
next
  case (Cons k ks)
  then obtain r where r: "map_of m k = Some r" by auto
  have key: "PKKey F d r = Inr k" by (rule rows_ok_get [OF assms(1) r])
  have "set ks \<inter> dom (map_of (AList.update k r acc)) = {}"
    using Cons.prems by (auto simp: AList.update_conv' split: if_splits)
  with Cons.IH [of "AList.update k r acc"] Cons.prems obtain acc' where
    "insert_all_spec F d (rows_at m ks) (AList.update k r acc) = (None, acc')"
    "map_of acc' = (\<lambda>x. if x \<in> set ks then map_of m x else map_of (AList.update k r acc) x)" by auto
  moreover have "map_of acc k = None" using Cons.prems by auto
  ultimately show ?case using r key
    by (auto simp: rows_at_def AList.update_conv' fun_eq_iff)
qed

lemma import_loop_roundtrip:
  assumes "\<And>q d. q \<in> set qs \<Longrightarrow> Lookup c q = Some d \<Longrightarrow> rows_ok F d (V q)"
    and "\<And>q. q \<in> set qs \<Longrightarrow> rows_in rows q = rows_at (V q) (sort (map fst (V q)))"
  shows "\<exists>W'. import_loop_spec F c rows qs W = (None, W')
    \<and> (\<forall>q. map_of (W' q) = map_of (if q \<in> set qs \<and> Lookup c q \<noteq> None then V q else W q))"
  using assms
proof (induction qs arbitrary: W)
  case (Cons q qs)
  show ?case
  proof (cases "Lookup c q")
    case None
    with Cons.IH [of W] Cons.prems show ?thesis by auto
  next
    case (Some d)
    have ok: "rows_ok F d (V q)" using Cons.prems(1) Some by simp
    have "distinct (sort (map fst (V q)))" "set (sort (map fst (V q))) \<subseteq> dom (map_of (V q))"
      using ok by (simp_all add: rows_ok_def dom_map_of_conv_image_fst)
    from insert_all_roundtrip [OF ok this, of "[]"] obtain m' where
      m': "insert_all_spec F d (rows_in rows q) [] = (None, m')"
        "map_of m' = (\<lambda>k. if k \<in> set (sort (map fst (V q))) then map_of (V q) k else map_of [] k)"
      using Cons.prems(2) [of q] by auto
    have same: "map_of m' = map_of (V q)"
    proof
      show "map_of m' k = map_of (V q) k" for k
        by (cases "k \<in> set (map fst (V q))") (auto simp: m'(2) map_of_eq_None_iff [THEN iffD2])
    qed
    have "\<exists>W'. import_loop_spec F c rows qs (W(q := m')) = (None, W')
        \<and> (\<forall>q'. map_of (W' q') = map_of (if q' \<in> set qs \<and> Lookup c q' \<noteq> None then V q' else (W(q := m')) q'))"
      by (rule Cons.IH) (rule Cons.prems, simp_all)+
    then obtain W' where w: "import_loop_spec F c rows qs (W(q := m')) = (None, W')"
      and v: "\<And>q'. map_of (W' q') = map_of (if q' \<in> set qs \<and> Lookup c q' \<noteq> None then V q' else (W(q := m')) q')"
      by blast
    have "map_of (W' q') = map_of (if q' \<in> set (q # qs) \<and> Lookup c q' \<noteq> None then V q' else W q')" for q'
      using v [of q'] same Some by (cases "q' = q") auto
    with w Some m'(1) show ?thesis by auto
  qed
qed simp

lemma rows_in_export: "q \<in> set (QualifiedNames c) \<Longrightarrow> rows_in (export_spec c V) q = rows_at (V q) (sort (map fst (V q)))"
  by (simp add: rows_in_def export_spec_def map_of_map_restrict)

lemma import_export:
  assumes "\<And>q d. Lookup c q = Some d \<Longrightarrow> rows_ok F d (V q)"
    and "\<And>q. Lookup c q = None \<Longrightarrow> V q = [] \<and> W q = []"
  shows "\<exists>W'. import_spec F c (export_spec c V) W = (None, W') \<and> (\<forall>q. map_of (W' q) = map_of (V q))"
proof -
  have "\<not> list_ex (\<lambda>(q, rs). Lookup c q = None) (export_spec c V)"
    by (auto simp: export_spec_def list_ex_iff Lookup_QualifiedNames)
  moreover obtain W' where "import_loop_spec F c (export_spec c V) (QualifiedNames c) W = (None, W')"
    and "\<forall>q. map_of (W' q) = map_of (if q \<in> set (QualifiedNames c) \<and> Lookup c q \<noteq> None then V q else W q)"
    using import_loop_roundtrip [of "QualifiedNames c" c F V "export_spec c V" W] assms(1) rows_in_export by blast
  ultimately show ?thesis using assms(2) by (auto simp: import_spec_def Lookup_QualifiedNames)
qed

text \<open>Every sandbox of a family made by \<open>New\<close> on the simulator runs on the simulator.\<close>

lemma spec_do_sim: "None \<notin> set (sp_dbs s) \<Longrightarrow> spec_do X i opn s = (r, s') \<Longrightarrow> None \<notin> set (sp_dbs s')"
  by (auto simp: spec_do_def spec_call_def spec_rewind_def spec_fork_def spec_save_def spec_load_def Let_def
      split: sb_op.splits option.splits prod.splits if_splits dest!: set_update_subset_insert [THEN subsetD])

lemma spec_run_sim: "None \<notin> set (sp_dbs s) \<Longrightarrow> spec_run X hist s = (rs, s') \<Longrightarrow> None \<notin> set (sp_dbs s')"
proof (induction X hist s arbitrary: rs rule: spec_run.induct)
  case (2 X i opn hist s)
  then show ?case by (auto split: if_splits prod.splits dest: spec_do_sim)
qed simp

lemma reached_sim:
  assumes "reached X (f, ms)" and "i < length (fa_sandboxes f)"
  shows "\<exists>p. pool_of f i = Some p"
proof -
  from assms(1) obtain hist rs where "family_run X hist (newSim, []) = (rs, f, ms)"
    unfolding reached_def by (metis prod.collapse)
  with family_run_refines [OF newSim_ok] have "spec_run X hist (spec_of (newSim, [])) = (rs, spec_of (f, ms))" by blast
  moreover have "None \<notin> set (sp_dbs (spec_of (newSim, [])))" by (simp add: newSim_def dbs_of_def)
  ultimately have "None \<notin> set (sp_dbs (spec_of (f, ms)))" by (rule spec_run_sim [rotated])
  then have "\<forall>x \<in> set (fa_sandboxes f). sb_pool x \<noteq> None" by (auto simp: dbs_of_def)
  with assms(2) show ?thesis using nth_mem by fastforce
qed

lemma reached_run: "reached X s \<Longrightarrow> family_run X hist s = (rs, s') \<Longrightarrow> reached X s'"
proof -
  have app: "family_run X (h1 @ h2) s = (let (r1, s1) = family_run X h1 s; (r2, s2) = family_run X h2 s1 in (r1 @ r2, s2))"
    for h1 h2 s
    by (induction X h1 s rule: family_run.induct) (auto simp: Let_def split: prod.splits)
  assume "reached X s" "family_run X hist s = (rs, s')"
  then obtain h1 where "snd (family_run X h1 (newSim, [])) = s" by (auto simp: reached_def)
  with \<open>family_run X hist s = (rs, s')\<close> have "snd (family_run X (h1 @ hist) (newSim, [])) = s'"
    by (auto simp: app Let_def split: prod.splits)
  then show ?thesis by (auto simp: reached_def)
qed

lemma saved:
  assumes "state_ok F (f, ms)" and "i < length (fa_sandboxes f)" and "pool_of f i = Some p"
    and "Sandbox_Snapshot X i f = (Inr blob, f1)"
  shows "\<exists>enc. gob_encode X enc = Some blob \<and> es_magic enc = snapshotMagic \<and> es_format enc = snapshotFormat
    \<and> es_signature enc = Signature (wd_sha X) (fa_catalog f)
    \<and> es_tables enc = export_spec (fa_catalog f) (view p (fa_heap f))"
    and "family_do X i Save (f, ms) = (BlobReply (Inr blob), f1, ms)"
proof -
  let ?enc = "\<lparr>es_magic = snapshotMagic, es_format = snapshotFormat, es_saved_at = wd_clock X (fa_reads f),
      es_signature = Signature (wd_sha X) (fa_catalog f), es_tables = export_spec (fa_catalog f) (view p (fa_heap f))\<rparr>"
  have "gob_encode X ?enc = Some blob"
    using assms(3,4) by (auto simp: Sandbox_Snapshot_def Let_def ExportRows_refines split: option.splits)
  then show "\<exists>enc. gob_encode X enc = Some blob \<and> es_magic enc = snapshotMagic \<and> es_format enc = snapshotFormat
    \<and> es_signature enc = Signature (wd_sha X) (fa_catalog f)
    \<and> es_tables enc = export_spec (fa_catalog f) (view p (fa_heap f))" by (intro exI [of _ ?enc]) simp
  show "family_do X i Save (f, ms) = (BlobReply (Inr blob), f1, ms)"
    using assms(4) by (simp add: family_do_def)
qed

lemma pool_view_ok:
  assumes "pool_ok F c h p"
  shows "Lookup c q = Some d \<Longrightarrow> rows_ok F d (view p h q)" and "Lookup c q = None \<Longrightarrow> view p h q = []"
  using pool_ok_table [OF assms, of q] by (auto simp: view_def table_ok_def split: option.splits)

text \<open>
  C39: \<open>Snapshot\<close> then \<open>Restore\<close>: a blob taken of one sandbox, loaded at any later point by any
  sandbox of the family under an unchanged catalog, is accepted and gives that sandbox, table
  by table and key by key, exactly the rows that were saved; no other sandbox changes. The
  hypothesis on \<open>encoding/gob\<close> is that decoding gives back what was encoded.
\<close>

theorem Snapshot_Restore_roundtrip:
  assumes "reached X (f, ms)" and "i < length (fa_sandboxes f)"
    and "Sandbox_Snapshot X i f = (Inr blob, f1)"
    and gob: "\<forall>x b. gob_encode X x = Some b \<longrightarrow> gob_decode X b = Some x"
    and "family_run X hist (f1, ms) = (rs, f2, ms2)" and "j < length (fa_sandboxes f2)"
    and "fa_catalog f2 = fa_catalog f"
  shows "\<exists>f3. Sandbox_Restore X j blob f2 = (None, f3)
    \<and> (\<forall>q. map_of (the (sandbox_rows f3 j) q) = map_of (the (sandbox_rows f i) q))
    \<and> (\<forall>k < length (fa_sandboxes f2). k \<noteq> j \<longrightarrow> sandbox_rows f3 k = sandbox_rows f2 k)"
proof -
  obtain p where p: "pool_of f i = Some p" using reached_sim [OF assms(1,2)] by blast
  note ok = reached_ok [OF assms(1)]
  note sv = saved [OF ok assms(2) p assms(3)]
  have "reached X (f1, ms)"
    using reached_run [OF assms(1), of "[(i, Save)]"] assms(2) sv(2) by simp
  from reached_run [OF this assms(5)] have r2: "reached X (f2, ms2)" .
  obtain p2 where p2: "pool_of f2 j = Some p2" using reached_sim [OF r2 assms(6)] by blast
  have pok: "pool_ok (wd_fmt X) (fa_catalog f) (fa_heap f) p"
    using fam_inv_pool [OF state_okD [OF ok], of i p] assms(2) p by simp
  have pok2: "pool_ok (wd_fmt X) (fa_catalog f2) (fa_heap f2) p2"
    using fam_inv_pool [OF state_okD [OF reached_ok [OF r2]], of j p2] assms(6) p2 by simp
  obtain W where W: "import_spec (wd_fmt X) (fa_catalog f) (export_spec (fa_catalog f) (view p (fa_heap f))) (view p2 (fa_heap f2)) = (None, W)"
    and same: "\<And>q. map_of (W q) = map_of (view p (fa_heap f) q)"
    using import_export [of "fa_catalog f" "wd_fmt X" "view p (fa_heap f)" "view p2 (fa_heap f2)"]
      pool_view_ok [OF pok] pool_view_ok [OF pok2 [unfolded assms(7)]] by blast
  obtain enc where enc: "gob_decode X blob = Some enc" "es_magic enc = snapshotMagic" "es_format enc = snapshotFormat"
    "es_signature enc = Signature (wd_sha X) (fa_catalog f)"
    "es_tables enc = export_spec (fa_catalog f) (view p (fa_heap f))" using sv(1) gob by blast
  obtain e f3 where rt: "Sandbox_Restore X j blob f2 = (e, f3)" by (cases "Sandbox_Restore X j blob f2")
  have "family_do X j (Load blob) (f2, ms2) = (ErrReply e, f3, ms2)" using rt by (simp add: family_do_def)
  from load_refines [OF reached_ok [OF r2] assms(6) this] enc W p2 assms(6,7)
  have e: "e = None" and s3: "spec_of (f3, ms2) = (spec_of (f2, ms2))\<lparr>sp_dbs := (sp_dbs (spec_of (f2, ms2)))[j := Some W]\<rparr>"
    by (auto simp: spec_do_def spec_load_def)
  have n: "length (fa_sandboxes f3) = length (fa_sandboxes f2)"
    using arg_cong [OF s3, of "\<lambda>s. length (sp_dbs s)"] by simp
  have "sandbox_rows f3 k = (if k = j then Some W else sandbox_rows f2 k)" if "k < length (fa_sandboxes f2)" for k
    using arg_cong [OF s3, of "\<lambda>s. sp_dbs s ! k"] that n by (cases "k = j") simp_all
  with rt e same p assms(6) show ?thesis by auto
qed

section \<open>A concrete family\<close>

text \<open>One table with a key, three statements; floats and JSON are not used.\<close>

definition demo_lib :: simlib where
  "demo_lib = \<lparr>lib_fmt = \<lparr>fmt_time = \<lambda>_. [], fmt_rfc3339nano = \<lambda>_. [], fmt_float64 = \<lambda>_. [], fmt_float32 = \<lambda>_. []\<rparr>,
     fl_of32 = \<lambda>_. 0, fl_to32 = \<lambda>_. 0, fl_add = \<lambda>_ _. 0, fl_sub = \<lambda>_ _. 0, fl_mul = \<lambda>_ _. 0,
     fl_div = \<lambda>_ _. 0, fl_sqrt = \<lambda>_. 0, fl_neg = \<lambda>_. 0, json_Unmarshal = \<lambda>_. None,
     json_Marshal = \<lambda>_. None, fmt_g = \<lambda>_. []\<rparr>"

definition demo_desc :: TableDesc where
  "demo_desc = \<lparr>td_schema = ''atlantis'', td_name = ''users'',
     td_cols = [\<lparr>cl_name = ''id'', cl_kind = KindInt64, cl_nullable = False\<rparr>,
                \<lparr>cl_name = ''name'', cl_kind = KindString, cl_nullable = True\<rparr>],
     td_pkcols = [''id''], td_soft_delete = [], td_touch = [], td_partition = [], td_time = [], td_identity = []\<rparr>"

definition demo_ref :: TableRef where
  "demo_ref = \<lparr>tr_schema = ''atlantis'', tr_name = ''users''\<rparr>"

definition demo_parse :: sql_parser where
  "demo_parse sql =
     (if sql = ''insert'' then Inr (InsertStmt \<lparr>in_table = demo_ref, in_cols = [''id'', ''name''],
            in_args = [Placeholder 1, Placeholder 2], in_returning = [], in_conflict = ConflictNone,
            in_target = [], in_updates = []\<rparr>)
      else if sql = ''rename'' then Inr (UpdateStmt \<lparr>up_table = demo_ref,
            up_set = [\<lparr>as_column = ''name'', as_value = Placeholder 2\<rparr>],
            up_where = [CmpPred ''id'' OpEq (Placeholder 1)]\<rparr>)
      else if sql = ''purge'' then Inr (DeleteStmt \<lparr>de_table = demo_ref,
            de_where = [CmpPred ''id'' OpGT (Placeholder 1)]\<rparr>)
      else Inl ErrUnsupported)"

definition demo_blob :: encodedSnapshot where
  "demo_blob = \<lparr>es_magic = ''atl-sandbox-snapshot'', es_format = 1, es_saved_at = 0, es_signature = [],
     es_tables = [(''atlantis.users'', [[Int64_val 1, String_val ''ann''], [Int64_val 2, String_val ''bob'']])]\<rparr>"

definition demo_world :: world where
  "demo_world = \<lparr>wd_lib = demo_lib, wd_parse = demo_parse, wd_clock = int, wd_sha = \<lambda>_. [],
     gob_encode = \<lambda>x. if x = demo_blob then Some ''b'' else None,
     gob_decode = \<lambda>b. if b = ''b'' then Some demo_blob else None\<rparr>"

definition demo_start :: "(nat \<times> sb_op) list" where
  "demo_start = [(0, Register demo_desc),
     (0, Call (ExecCall ''insert'' [Int64_val 2, String_val ''bob''])),
     (0, Call (ExecCall ''insert'' [Int64_val 1, String_val ''ann'']))]"

definition demo_family :: Family where
  "demo_family = fst (snd (family_run demo_world demo_start (newSim, [])))"

lemma demo_reached: "reached demo_world (demo_family, [])"
proof -
  have "snd (snd (family_run demo_world demo_start (newSim, []))) = []" by code_simp
  then show ?thesis unfolding reached_def demo_family_def by (metis prod.collapse)
qed

lemma demo_sandboxes: "length (fa_sandboxes demo_family) = 1"
  by code_simp

lemma demo_gob: "\<forall>x b. gob_encode demo_world x = Some b \<longrightarrow> gob_decode demo_world b = Some x"
  by (simp add: demo_world_def)

definition demo_mark :: Mark where
  "demo_mark = the (fst (Sandbox_Mark 0 demo_family))"

definition demo_marked :: Family where
  "demo_marked = snd (Sandbox_Mark 0 demo_family)"

text \<open>Parent and child write after the mark.\<close>

definition demo_after :: "(nat \<times> sb_op) list" where
  "demo_after = [(0, ForkInto 1), (0, Call (ExecCall ''rename'' [Int64_val 1, String_val ''eve''])),
     (1, Call (ExecCall ''purge'' [Int64_val 0])), (0, Call (ExecCall ''purge'' [Int64_val 1]))]"

definition demo_changed :: Family where
  "demo_changed = fst (snd (family_run demo_world demo_after (demo_marked, [demo_mark])))"

theorem Mark_RestoreTo_exact_witness:
  "the (sandbox_rows demo_changed 0) ''atlantis.users'' = [(''1'', [Int64_val 1, String_val ''eve''])]
   \<and> (\<exists>f3. RestoreTo 0 (Some demo_mark) demo_changed = (None, f3)
      \<and> sandbox_rows f3 0 = sandbox_rows demo_family 0)"
proof
  show "the (sandbox_rows demo_changed 0) ''atlantis.users'' = [(''1'', [Int64_val 1, String_val ''eve''])]"
    by code_simp
  have "fst (Sandbox_Mark 0 demo_family) \<noteq> None" by code_simp
  then have m: "Sandbox_Mark 0 demo_family = (Some demo_mark, demo_marked)"
    by (auto simp: demo_mark_def demo_marked_def prod_eq_iff)
  obtain rs f2 ms2 where r: "family_run demo_world demo_after (demo_marked, [] @ [demo_mark]) = (rs, f2, ms2)"
    by (rule prod_cases3)
  then have "f2 = demo_changed" by (simp add: demo_changed_def)
  with Mark_RestoreTo_exact [OF demo_reached _ m r] demo_sandboxes
  show "\<exists>f3. RestoreTo 0 (Some demo_mark) demo_changed = (None, f3)
      \<and> sandbox_rows f3 0 = sandbox_rows demo_family 0" by auto
qed

definition demo_forked :: Family where
  "demo_forked = snd (Fork 0 2 demo_family)"

definition demo_diverged :: Family where
  "demo_diverged = fst (snd (family_run demo_world
     [(0, Call (ExecCall ''purge'' [Int64_val 0])), (2, Call (ExecCall ''rename'' [Int64_val 1, String_val ''eve'']))]
     (demo_forked, [])))"

theorem Fork_isolated_witness:
  "the (sandbox_rows demo_diverged 0) ''atlantis.users'' = []
   \<and> 1 < length (fa_sandboxes demo_diverged) \<and> sandbox_rows demo_diverged 1 = sandbox_rows demo_family 0"
proof
  show "the (sandbox_rows demo_diverged 0) ''atlantis.users'' = []" by code_simp
  have "fst (Fork 0 2 demo_family) = Inr [1, 2]" by code_simp
  then have f: "Fork 0 2 demo_family = (Inr [1, 2], demo_forked)" by (simp add: demo_forked_def prod_eq_iff)
  let ?hist = "[(0, Call (ExecCall ''purge'' [Int64_val 0])), (2, Call (ExecCall ''rename'' [Int64_val 1, String_val ''eve'']))]"
  obtain rs f2 ms2 where r: "family_run demo_world ?hist (demo_forked, []) = (rs, f2, ms2)"
    by (rule prod_cases3)
  then have "f2 = demo_diverged" by (simp add: demo_diverged_def)
  with Fork_isolated [OF demo_reached _ f r, of 1] demo_sandboxes
  show "1 < length (fa_sandboxes demo_diverged) \<and> sandbox_rows demo_diverged 1 = sandbox_rows demo_family 0" by simp
qed

definition demo_saved :: Family where
  "demo_saved = snd (Sandbox_Snapshot demo_world 0 demo_family)"

definition demo_purged :: Family where
  "demo_purged = fst (snd (family_run demo_world [(0, Call (ExecCall ''purge'' [Int64_val 0]))] (demo_saved, [])))"

theorem Snapshot_Restore_roundtrip_witness:
  "the (sandbox_rows demo_purged 0) ''atlantis.users'' = []
   \<and> (\<exists>f3. Sandbox_Restore demo_world 0 ''b'' demo_purged = (None, f3)
      \<and> (\<forall>q. map_of (the (sandbox_rows f3 0) q) = map_of (the (sandbox_rows demo_family 0) q)))"
proof
  show "the (sandbox_rows demo_purged 0) ''atlantis.users'' = []" by code_simp
  have "fst (Sandbox_Snapshot demo_world 0 demo_family) = Inr ''b''" by code_simp
  then have s: "Sandbox_Snapshot demo_world 0 demo_family = (Inr ''b'', demo_saved)"
    by (simp add: demo_saved_def prod_eq_iff)
  let ?hist = "[(0, Call (ExecCall ''purge'' [Int64_val 0]))]"
  obtain rs f2 ms2 where r: "family_run demo_world ?hist (demo_saved, []) = (rs, f2, ms2)"
    by (rule prod_cases3)
  then have f2: "f2 = demo_purged" by (simp add: demo_purged_def)
  have "fa_catalog demo_purged = fa_catalog demo_family" "length (fa_sandboxes demo_purged) = 1" by code_simp+
  with Snapshot_Restore_roundtrip [OF demo_reached _ s demo_gob r] f2 demo_sandboxes
  show "\<exists>f3. Sandbox_Restore demo_world 0 ''b'' demo_purged = (None, f3)
      \<and> (\<forall>q. map_of (the (sandbox_rows f3 0) q) = map_of (the (sandbox_rows demo_family 0) q))" by auto
qed

end
