(* ===== verification/SimWhere.thy ===== *)
theory SimWhere
  imports SimSandbox
begin

text \<open>
  The two ways the executor finds the rows of a \<open>WHERE\<close> clause agree: looking up the one key
  the clause fixes, and scanning the table. The lookup goes by the printed key, the scan by
  \<open>compareValues\<close>, so the key values of the clause must have the Go type of their columns.
\<close>

section \<open>Clauses that do not read the clock\<close>

fun expr_clockless :: "expr \<Rightarrow> bool" where
  "expr_clockless (FuncCall name args) = False"
| "expr_clockless (Coalesce n dflt) = expr_clockless dflt"
| "expr_clockless _ = True"

fun pred_clockless :: "pred \<Rightarrow> bool" where
  "pred_clockless (CmpPred col cop v) = expr_clockless v"
| "pred_clockless (JsonExtractPred col path asText cop v) = expr_clockless v"
| "pred_clockless (GroupPred conn ps) = list_all pred_clockless ps"
| "pred_clockless _ = True"

lemma evalExpr_clockless: "expr_clockless x \<Longrightarrow> evalExpr L e x w = (fst (evalExpr L e x 0), w)"
proof (induction L e x w rule: evalExpr.induct)
  case (2 L e kind s i w)
  then show ?case by (cases kind) simp_all
next
  case (3 L e n dflt w)
  then show ?case by (cases "env_arg e n") auto
qed (auto split: option.splits sum.splits prod.splits)

lemma evalPreds_steady:
  assumes "\<And>p w. p \<in> set ps \<Longrightarrow> evalPred L e d r p w = (fst (evalPred L e d r p 0), w)"
  shows "evalPreds L e d r ps w = (fst (evalPreds L e d r ps 0), w)
    \<and> evalPred_or L e d r ps w = (fst (evalPred_or L e d r ps 0), w)"
  using assms
proof (induction ps arbitrary: w)
  case (Cons p ps)
  have "evalPred L e d r p w' = (fst (evalPred L e d r p 0), w')" for w' by (rule Cons.prems) simp
  note p = this [of w] this [of 0]
  have ih: "evalPreds L e d r ps w' = (fst (evalPreds L e d r ps 0), w')
      \<and> evalPred_or L e d r ps w' = (fst (evalPred_or L e d r ps 0), w')" for w'
    by (rule Cons.IH) (rule Cons.prems, simp)
  note ps = conjunct1 [OF ih [of w]] conjunct2 [OF ih [of w]]
  obtain x where x: "fst (evalPred L e d r p 0) = x" by blast
  have "evalPred L e d r p w = (x, w)" "evalPred L e d r p 0 = (x, 0)" using p by (simp_all add: x)
  then show ?case using ps by (cases x) simp_all
qed simp

lemma evalPred_clockless: "pred_clockless p \<Longrightarrow> evalPred L e d r p w = (fst (evalPred L e d r p 0), w)"
proof (induction p arbitrary: w)
  case (CmpPred col cop v)
  then obtain x where "\<And>w'. evalExpr L e v w' = (x, w')" by (metis evalExpr_clockless pred_clockless.simps(1,2))
  then show ?case by (auto split: option.splits sum.splits)
next
  case (JsonExtractPred col path asText cop v)
  then obtain x where "\<And>w'. evalExpr L e v w' = (x, w')" by (metis evalExpr_clockless pred_clockless.simps(1,2))
  then show ?case by (auto split: option.splits sum.splits)
next
  case (GroupPred conn ps)
  have "evalPred L e d r p w' = (fst (evalPred L e d r p 0), w')" if "p \<in> set ps" for p w'
    by (rule GroupPred.IH [OF that]) (use that GroupPred.prems in \<open>simp add: list_all_iff\<close>)
  note st = evalPreds_steady [of ps, OF this]
  show ?case
  proof (cases conn)
    case ConnAnd
    from st [of w] show ?thesis unfolding ConnAnd evalPred.simps Connective.case by (rule conjunct1)
  next
    case ConnOr
    from st [of w] show ?thesis unfolding ConnOr evalPred.simps Connective.case by (rule conjunct2)
  qed
qed (auto split: option.splits sum.splits)

lemma evalPreds_clockless:
  "list_all pred_clockless ps \<Longrightarrow> evalPreds L e d r ps w = (fst (evalPreds L e d r ps 0), w)"
  using evalPreds_steady [THEN conjunct1, of ps L e d r w] evalPred_clockless by (metis list_all_iff)

section \<open>Hits of a clause\<close>

definition row_matches :: "simlib \<Rightarrow> execEnv \<Rightarrow> TableDesc \<Rightarrow> pred list \<Rightarrow> row \<Rightarrow> bool" where
  "row_matches L e d preds r \<longleftrightarrow> fst (evalPreds L e d r preds 0) = Inr True"

definition key_matches :: "simlib \<Rightarrow> execEnv \<Rightarrow> TableDesc \<Rightarrow> pred list \<Rightarrow> rows \<Rightarrow> string \<Rightarrow> bool" where
  "key_matches L e d preds m k = (case map_of m k of None \<Rightarrow> False | Some r \<Rightarrow> row_matches L e d preds r)"

text \<open>The clause has a value on every row.\<close>

definition where_total :: "simlib \<Rightarrow> execEnv \<Rightarrow> TableDesc \<Rightarrow> pred list \<Rightarrow> rows \<Rightarrow> bool" where
  "where_total L e d preds m \<longleftrightarrow> list_all (\<lambda>(k, r). \<not> isl (fst (evalPreds L e d r preds 0))) m"

lemma where_total_value:
  assumes "where_total L e d preds m" and "list_all pred_clockless preds" and "map_of m k = Some r"
  shows "evalPreds L e d r preds w = (Inr (row_matches L e d preds r), w)"
proof -
  have "(k, r) \<in> set m" by (rule map_of_SomeD [OF assms(3)])
  with assms(1) have "\<not> isl (fst (evalPreds L e d r preds 0))" by (auto simp: where_total_def list_all_iff)
  then obtain b where b: "fst (evalPreds L e d r preds 0) = Inr b" by (cases "fst (evalPreds L e d r preds 0)") auto
  have "evalPreds L e d r preds w = (Inr b, w)"
    using evalPreds_clockless [OF assms(2), of L e d r w] unfolding b .
  then show ?thesis by (simp add: row_matches_def b)
qed

lemma where_loop_filter:
  assumes "where_total L e d preds m" and "list_all pred_clockless preds"
  shows "where_loop L e d preds m ks w = (Inr (filter (key_matches L e d preds m) ks), w)"
  by (induction ks) (auto simp: key_matches_def where_total_value [OF assms] split: option.split)

lemma update_loop_filter:
  assumes "list_all pred_clockless preds" and "distinct ks"
    and "\<And>k r. k \<in> set ks \<Longrightarrow> map_of m k = Some r \<Longrightarrow> \<not> isl (fst (evalPreds L e d r preds 0))"
  shows "update_loop L e d preds patch ks n w m
    = update_loop L e d preds patch (filter (key_matches L e d preds m) ks) n w m"
  using assms(2,3)
proof (induction ks arbitrary: n m)
  case (Cons k ks)
  have ih: "update_loop L e d preds patch ks n' w m = update_loop L e d preds patch (filter (key_matches L e d preds m) ks) n' w m" for n'
  proof (rule Cons.IH)
    show "distinct ks" using Cons.prems(1) by simp
    show "\<not> isl (fst (evalPreds L e d r preds 0))" if "k \<in> set ks" "map_of m k = Some r" for k r
      by (rule Cons.prems(2) [OF _ that(2)]) (simp add: that(1))
  qed
  show ?case
  proof (cases "map_of m k")
    case None
    then have "\<not> key_matches L e d preds m k" by (simp add: key_matches_def)
    then show ?thesis using None ih by simp
  next
    case (Some r)
    have "\<not> isl (fst (evalPreds L e d r preds 0))" by (rule Cons.prems(2) [OF _ Some]) simp
    then have "fst (evalPreds L e d r preds 0) = Inr (row_matches L e d preds r)"
      by (cases "fst (evalPreds L e d r preds 0)") (auto simp: row_matches_def)
    with evalPreds_clockless [OF assms(1), of L e d r w]
    have ev: "evalPreds L e d r preds w = (Inr (row_matches L e d preds r), w)" by argo
    have hit: "key_matches L e d preds m k = row_matches L e d preds r" using Some by (simp add: key_matches_def)
    show ?thesis
    proof (cases "row_matches L e d preds r")
      case False
      then show ?thesis using Some ev ih hit by simp
    next
      case True
      have hits: "filter (key_matches L e d preds (AList.update k r' m)) ks = filter (key_matches L e d preds m) ks" for r'
        using Cons.prems(1) by (intro filter_cong) (auto simp: key_matches_def AList.update_conv')
      have "update_loop L e d preds patch ks n' w (AList.update k r' m)
          = update_loop L e d preds patch (filter (key_matches L e d preds (AList.update k r' m)) ks) n' w (AList.update k r' m)" for n' r'
      proof (rule Cons.IH)
        fix k' r1 assume k': "k' \<in> set ks" "map_of (AList.update k r' m) k' = Some r1"
        with Cons.prems(1) have "map_of m k' = Some r1" by (auto simp: AList.update_conv' split: if_splits)
        then show "\<not> isl (fst (evalPreds L e d r1 preds 0))" by (rule Cons.prems(2) [rotated]) (simp add: k')
      qed (use Cons.prems in simp)
      then show ?thesis using Some ev True hits hit by (simp split: option.split)
    qed
  qed
qed simp

section \<open>Key columns of one type\<close>

definition has_kind :: "ColKind \<Rightarrow> simval \<Rightarrow> bool" where
  "has_kind kind v =
     (case kind of
        KindInt64 \<Rightarrow> (case v of Int64_val _ \<Rightarrow> True | _ \<Rightarrow> False)
      | KindString \<Rightarrow> (case v of String_val _ \<Rightarrow> True | _ \<Rightarrow> False)
      | KindBool \<Rightarrow> (case v of Bool_val _ \<Rightarrow> True | _ \<Rightarrow> False)
      | KindTime \<Rightarrow> (case v of Time_val _ \<Rightarrow> True | _ \<Rightarrow> False)
      | _ \<Rightarrow> False)"

definition key_typed :: "TableDesc \<Rightarrow> string \<Rightarrow> simval \<Rightarrow> bool" where
  "key_typed d pk v =
     (case ColIndex d pk of None \<Rightarrow> False | Some idx \<Rightarrow> has_kind (cl_kind (td_cols d ! idx)) v)"

definition row_typed :: "TableDesc \<Rightarrow> row \<Rightarrow> bool" where
  "row_typed d r \<longleftrightarrow> list_all (\<lambda>pk. case ColIndex d pk of
       None \<Rightarrow> False
     | Some idx \<Rightarrow> idx < length r \<and> has_kind (cl_kind (td_cols d ! idx)) (r ! idx)) (td_pkcols d)"

lemma has_kind_not_Nil: "has_kind kind v \<Longrightarrow> v \<noteq> Nil_val"
  by (auto simp: has_kind_def split: ColKind.splits)

lemma three_way_zero:
  "three_way (a :: int) b (<) = 0 \<longleftrightarrow> a = b" "three_way (s :: string) t (<) = 0 \<longleftrightarrow> s = t"
  "three_way x y (\<lambda>x y. \<not> x \<and> y) = 0 \<longleftrightarrow> x = y"
  by (auto simp: three_way_def)

lemma compareValues_typed: "has_kind kind a \<Longrightarrow> has_kind kind b \<Longrightarrow> compareValues a b = 0 \<longleftrightarrow> a = b"
  by (auto simp: has_kind_def compareValues_def three_way_zero split: ColKind.splits simval.splits)

section \<open>The key a clause fixes\<close>

lemma match_cols_spec:
  assumes "\<And>w. evalExpr L e v w = (x, w)" and "length pks = length ms"
    and "match_cols L e col v pks ms w = (Inr ms', w')"
  shows "length ms' = length ms \<and> w' = w
    \<and> (\<forall>i < length ms. ms' ! i = (if col = pks ! i then Some (projr x) else ms ! i) \<and> (col = pks ! i \<longrightarrow> \<not> isl x))"
  using assms(2,3)
proof (induction pks ms arbitrary: ms' rule: list_induct2)
  case (Cons pk pks m ms)
  then show ?case using assms(1)
    by (cases x) (auto simp: nth_Cons split: if_splits prod.splits sum.splits nat.splits)
qed simp

text \<open>Every key value that \<open>matchesPK\<close> collects comes from an equality of the clause.\<close>

lemma match_preds_spec:
  assumes "match_preds L e pks preds ms w = (Inr ms', w')" and "list_all pred_clockless preds"
    and "length pks = length ms"
  shows "length ms' = length ms \<and> w' = w
    \<and> (\<forall>i < length ms. ms' ! i = ms ! i
        \<or> (\<exists>x v. CmpPred (pks ! i) OpEq x \<in> set preds \<and> fst (evalExpr L e x 0) = Inr v \<and> ms' ! i = Some v))"
  using assms
proof (induction preds arbitrary: ms w)
  case (Cons p ps)
  show ?case
  proof (cases "\<exists>col v. p = CmpPred col OpEq v")
    case False
    then have "match_preds L e pks (p # ps) ms w = match_preds L e pks ps ms w"
      by (cases p) (auto split: CmpOp.splits)
    with Cons.IH [of ms w] Cons.prems show ?thesis by auto
  next
    case True
    then obtain col v where p: "p = CmpPred col OpEq v" by blast
    have "expr_clockless v" using Cons.prems(2) p by simp
    then obtain x where x: "\<And>w. evalExpr L e v w = (x, w)" by (metis evalExpr_clockless)
    obtain ms1 w1 where m1: "match_cols L e col v pks ms w = (Inr ms1, w1)"
      and m2: "match_preds L e pks ps ms1 w1 = (Inr ms', w')"
      using Cons.prems(1) p by (auto split: prod.splits sum.splits)
    note c = match_cols_spec [OF x Cons.prems(3) m1]
    note ih = Cons.IH [OF m2]
    have "ms1 ! i = ms ! i \<or> (CmpPred (pks ! i) OpEq v \<in> set (p # ps) \<and> fst (evalExpr L e v 0) = Inr (projr x) \<and> ms1 ! i = Some (projr x))"
      if "i < length ms" for i
      using c that x p by (cases "col = pks ! i"; cases x) auto
    with ih c Cons.prems(2,3) show ?thesis by simp metis
  qed
qed simp

lemma matchesPK_spec:
  assumes "fst (matchesPK L e d preds w) = Inr (Some vals)" and "list_all pred_clockless preds"
  shows "matchesPK L e d preds w = (Inr (Some vals), w)" and "length vals = length (td_pkcols d)"
    and "i < length vals \<Longrightarrow> \<exists>x. CmpPred (td_pkcols d ! i) OpEq x \<in> set preds \<and> fst (evalExpr L e x 0) = Inr (vals ! i)"
proof -
  obtain ms w' where m: "match_preds L e (td_pkcols d) preds (replicate (length (td_pkcols d)) None) w = (Inr ms, w')"
    and all: "\<not> list_ex (\<lambda>m. m = None) ms" and v: "vals = map the ms" and ne: "td_pkcols d \<noteq> []"
    using assms(1) by (auto simp: matchesPK_def split: if_splits prod.splits sum.splits)
  have "length (td_pkcols d) = length (replicate (length (td_pkcols d)) (None :: simval option))" by simp
  note s = match_preds_spec [OF m assms(2) this]
  then show "matchesPK L e d preds w = (Inr (Some vals), w)" using m all v ne by (simp add: matchesPK_def)
  show len: "length vals = length (td_pkcols d)" using s v by simp
  assume i: "i < length vals"
  then have im: "i < length ms" "i < length (td_pkcols d)" using v len by simp_all
  have "None \<notin> set ms" using all by (auto simp: list_ex_iff)
  then have "ms ! i \<noteq> None" using nth_mem [OF im(1)] by metis
  moreover have "ms ! i = None \<or> (\<exists>x v. CmpPred (td_pkcols d ! i) OpEq x \<in> set preds
      \<and> fst (evalExpr L e x 0) = Inr v \<and> ms ! i = Some v)"
    using s im(2) by simp
  ultimately show "\<exists>x. CmpPred (td_pkcols d ! i) OpEq x \<in> set preds \<and> fst (evalExpr L e x 0) = Inr (vals ! i)"
    using im(1) v by auto
qed

lemma evalPreds_all:
  "fst (evalPreds L e d r ps 0) = Inr True \<Longrightarrow> list_all pred_clockless ps \<Longrightarrow> p \<in> set ps
   \<Longrightarrow> fst (evalPred L e d r p 0) = Inr True"
proof (induction ps)
  case (Cons q ps)
  have "pred_clockless q" using Cons.prems(2) by simp
  then obtain x where x: "evalPred L e d r q 0 = (x, 0)" by (metis evalPred_clockless)
  with Cons show ?case by (cases x) (auto split: if_splits)
qed simp

lemma pk_parts_values:
  assumes "length pks = length vals"
    and "\<And>i. i < length pks \<Longrightarrow> \<exists>idx. ColIndex d (pks ! i) = Some idx \<and> idx < length r \<and> r ! idx = vals ! i \<and> vals ! i \<noteq> Nil_val"
  shows "pk_parts F d r pks = Inr (map (sprintv F) vals)"
  using assms
proof (induction pks vals rule: list_induct2)
  case (Cons pk pks v vals)
  have "pk_parts F d r pks = Inr (map (sprintv F) vals)"
    by (rule Cons.IH) (use Cons.prems [of "Suc i" for i] in fastforce)
  with Cons.prems [of 0] show ?case by auto
qed simp

text \<open>A row that satisfies a clause fixing the key is stored under that key.\<close>

lemma clause_key:
  assumes "fst (matchesPK L e d preds w) = Inr (Some vals)" and "list_all pred_clockless preds"
    and "list_all2 (key_typed d) (td_pkcols d) vals" and "row_typed d r" and "row_matches L e d preds r"
    and "td_pkcols d \<noteq> []"
  shows "PKKey F d r = Inr (pkKeyFromValues F vals)"
proof -
  note s = matchesPK_spec [OF assms(1,2)]
  have "\<exists>idx. ColIndex d (td_pkcols d ! i) = Some idx \<and> idx < length r \<and> r ! idx = vals ! i \<and> vals ! i \<noteq> Nil_val"
    if i: "i < length (td_pkcols d)" for i
  proof -
    obtain x where x: "CmpPred (td_pkcols d ! i) OpEq x \<in> set preds" "fst (evalExpr L e x 0) = Inr (vals ! i)"
      using s(3) [of i] s(2) i by auto
    from assms(4) i obtain idx where idx: "ColIndex d (td_pkcols d ! i) = Some idx" "idx < length r"
      "has_kind (cl_kind (td_cols d ! idx)) (r ! idx)"
      by (fastforce simp: row_typed_def list_all_length split: option.splits)
    from assms(3) i idx(1) have k: "has_kind (cl_kind (td_cols d ! idx)) (vals ! i)"
      by (auto simp: list_all2_conv_all_nth key_typed_def)
    have "fst (evalPred L e d r (CmpPred (td_pkcols d ! i) OpEq x) 0) = Inr True"
      by (rule evalPreds_all [OF assms(5) [unfolded row_matches_def] assms(2) x(1)])
    then have "compareWithOp (r ! idx) OpEq (vals ! i)"
      using idx x(2) by (auto simp: row_at_def split: prod.splits sum.splits)
    then have "r ! idx = vals ! i"
      using compareValues_typed [OF idx(3) k] by (auto simp: compareWithOp_def split: if_splits)
    with idx has_kind_not_Nil [OF k] show ?thesis by blast
  qed
  from pk_parts_values [OF s(2) [symmetric] this, where F = F] assms(6) s(2) show ?thesis
    by (auto simp: PKKey_def pkKeyFromValues_def)
qed

lemma filter_single:
  "distinct xs \<Longrightarrow> (\<And>x. P x \<Longrightarrow> x = a) \<Longrightarrow> (P a \<Longrightarrow> a \<in> set xs) \<Longrightarrow> filter P xs = filter P [a]"
proof (induction xs)
  case Nil
  have "\<not> P a" using Nil(3) by fastforce
  then show ?case by simp
next
  case (Cons x xs)
  show ?case
  proof (cases "x = a")
    case True
    then have "filter P xs = []" using Cons.prems(1,2) by (auto simp: filter_empty_conv)
    then show ?thesis using True by simp
  next
    case False
    then have "\<not> P x" using Cons.prems(2) by blast
    moreover have "filter P xs = filter P [a]"
    proof (rule Cons.IH)
      show "distinct xs" using Cons.prems(1) by simp
      show "P a \<Longrightarrow> a \<in> set xs" using Cons.prems(3) False by fastforce
    qed (rule Cons.prems(2))
    ultimately show ?thesis by simp
  qed
qed

lemma clause_hits:
  assumes "fst (matchesPK L e d preds w) = Inr (Some vals)" and "list_all pred_clockless preds"
    and "list_all2 (key_typed d) (td_pkcols d) vals" and "list_all (\<lambda>(k, r). row_typed d r) m"
    and "rows_ok (lib_fmt L) d m"
  shows "filter (key_matches L e d preds m) (sort (map fst m))
    = filter (key_matches L e d preds m) [pkKeyFromValues (lib_fmt L) vals]"
proof (rule filter_single)
  show "distinct (sort (map fst m))" using assms(5) by (simp add: rows_ok_def)
  have ne: "td_pkcols d \<noteq> []" using assms(1) by (auto simp: matchesPK_def split: if_splits)
  show "k = pkKeyFromValues (lib_fmt L) vals" if km: "key_matches L e d preds m k" for k
  proof -
    obtain r where r: "map_of m k = Some r" "row_matches L e d preds r"
      using km by (auto simp: key_matches_def split: option.splits)
    then have "row_typed d r" using assms(4) by (auto simp: list_all_iff dest: map_of_SomeD)
    from clause_key [OF assms(1-3) this r(2) ne, of "lib_fmt L"] rows_ok_get [OF assms(5) r(1)] show ?thesis by simp
  qed
  show "pkKeyFromValues (lib_fmt L) vals \<in> set (sort (map fst m))"
    if "key_matches L e d preds m (pkKeyFromValues (lib_fmt L) vals)"
    using that by (auto simp: key_matches_def split: option.splits dest: map_of_SomeD) (force dest: map_of_SomeD)
qed

section \<open>Lookup and scan\<close>

text \<open>Two runs with the same result that leave the same rows.\<close>

definition same_outcome :: "'a \<times> Table \<times> rheap \<Rightarrow> 'a \<times> Table \<times> rheap \<Rightarrow> bool" where
  "same_outcome a b \<longleftrightarrow> (case a of (x, t, h) \<Rightarrow> case b of (y, u, g) \<Rightarrow> x = y \<and> rows_of t h = rows_of u g)"

lemma select_lookup_is_scan:
  assumes "where_total L e (tb_desc t) preds (rows_of t h)" and "list_all pred_clockless preds"
    and "matchesPK L e (tb_desc t) preds w = (Inr (Some vals), w)"
    and "filter (key_matches L e (tb_desc t) preds (rows_of t h)) (sort (map fst (rows_of t h)))
      = filter (key_matches L e (tb_desc t) preds (rows_of t h)) [pkKeyFromValues (lib_fmt L) vals]"
  shows "selectRows L e preds t h w = select_scan L e preds t h w"
proof -
  have "selectRows L e preds t h w = select_spec L e preds w (tb_desc t) (rows_of t h)" by (rule selectRows_refines)
  also have "\<dots> = (Inr (rows_at (rows_of t h) (filter (key_matches L e (tb_desc t) preds (rows_of t h))
      [pkKeyFromValues (lib_fmt L) vals])), w)"
    using assms(3) by (simp add: select_spec_def visit_keys_def where_loop_filter [OF assms(1,2)] del: filter.simps where_loop.simps)
  also have "\<dots> = select_scan L e preds t h w"
    by (simp add: select_scan_eq where_loop_filter [OF assms(1,2)] assms(4) del: filter.simps where_loop.simps)
  finally show ?thesis .
qed

lemma delete_lookup_is_scan:
  assumes "tb_rows t < length h" and "rows_ok (lib_fmt L) (tb_desc t) (rows_of t h)"
    and "where_total L e (tb_desc t) preds (rows_of t h)" and "list_all pred_clockless preds"
    and "matchesPK L e (tb_desc t) preds w = (Inr (Some vals), w)" and "preds \<noteq> []" and "de_where del = preds"
    and "filter (key_matches L e (tb_desc t) preds (rows_of t h)) (sort (map fst (rows_of t h)))
      = filter (key_matches L e (tb_desc t) preds (rows_of t h)) [pkKeyFromValues (lib_fmt L) vals]"
  shows "same_outcome (delete_body L e del w t h) (delete_scan L e preds w t h)"
proof -
  obtain x t1 h1 where b: "delete_body L e del w t h = (x, t1, h1)" by (rule prod_cases3)
  obtain y t2 h2 where c: "delete_scan L e preds w t h = (y, t2, h2)" by (rule prod_cases3)
  have "(x, rows_of t1 h1) = (y, rows_of t2 h2)"
    using delete_body_spec [OF assms(1,2) b] delete_scan_spec [OF assms(1,2) c] assms(5-8)
    by (simp add: delete_spec_def visit_keys_def where_loop_filter [OF assms(3,4)] del: filter.simps where_loop.simps)
  then show ?thesis using b c by (simp add: same_outcome_def)
qed

lemma update_lookup_is_scan:
  assumes "tb_rows t < length h" and "rows_ok (lib_fmt L) (tb_desc t) (rows_of t h)"
    and "where_total L e (tb_desc t) preds (rows_of t h)" and "list_all pred_clockless preds"
    and "matchesPK L e (tb_desc t) preds w = (Inr (Some vals), w)" and "preds \<noteq> []" and "up_where upd = preds"
    and "assign_loop L e (tb_desc t) (up_set upd) [] w = (Inr patch, w)"
    and "filter (key_matches L e (tb_desc t) preds (rows_of t h)) (sort (map fst (rows_of t h)))
      = filter (key_matches L e (tb_desc t) preds (rows_of t h)) [pkKeyFromValues (lib_fmt L) vals]"
  shows "same_outcome (update_body L e upd w t h) (update_scan L e preds patch w t h)"
proof -
  let ?d = "tb_desc t" and ?m = "rows_of t h"
  obtain x t1 h1 where b: "update_body L e upd w t h = (x, t1, h1)" by (rule prod_cases3)
  obtain y t2 h2 where c: "update_scan L e preds patch w t h = (y, t2, h2)" by (rule prod_cases3)
  have tot: "\<not> isl (fst (evalPreds L e ?d r preds 0))" if "map_of ?m k = Some r" for k r
    using where_total_value [OF assms(3,4) that, of 0] by simp
  have upd: "update_loop L e ?d preds patch ks 0 w ?m
      = update_loop L e ?d preds patch (filter (key_matches L e ?d preds ?m) ks) 0 w ?m" if "distinct ks" for ks
    by (rule update_loop_filter [OF assms(4) that]) (rule tot)
  have "update_loop L e ?d preds patch [pkKeyFromValues (lib_fmt L) vals] 0 w ?m = (x, rows_of t1 h1)"
    using update_body_spec [OF assms(1,2) b] assms(5-8) by (simp add: update_spec_def visit_keys_def)
  moreover have "update_loop L e ?d preds patch (sort (map fst ?m)) 0 w ?m = (y, rows_of t2 h2)"
    using update_scan_spec [OF assms(1,2) assign_loop_patch_ok_Nil [OF assms(8)] c] by blast
  ultimately have "(x, rows_of t1 h1) = (y, rows_of t2 h2)"
    using upd [of "sort (map fst ?m)"] upd [of "[pkKeyFromValues (lib_fmt L) vals]"] assms(2,9)
    by (simp add: rows_ok_def del: filter.simps update_loop.simps)
  then show ?thesis using b c by (simp add: same_outcome_def)
qed


definition where_table :: Table where
  "where_table = \<lparr>tb_desc = demo_desc, tb_rows = 0, tb_serial = 0\<rparr>"

definition where_heap :: rheap where
  "where_heap = [\<lparr>rm_m = [(''2'', [Int64_val 2, String_val ''bob'']), (''1'', [Int64_val 1, String_val ''ann''])],
     rm_shared = True\<rparr>]"

definition where_env :: execEnv where
  "where_env = Pool_env [] int [Int64_val 2, String_val ''eve'']"

definition where_clause :: "pred list" where
  "where_clause = [CmpPred ''id'' OpEq (Placeholder 1), IsNullPred ''name'' True]"

definition where_update :: Update where
  "where_update = \<lparr>up_table = demo_ref, up_set = [\<lparr>as_column = ''name'', as_value = Placeholder 2\<rparr>], up_where = where_clause\<rparr>"


end
