(* ===== verification/Spec2Isabelle.thy ===== *)
theory Spec2Isabelle
  imports Worker DispatchEnd SimWhere
begin

text \<open>
  Verification of the atlantis data service: header under construction, one section per theory.
\<close>

end
